(* ===== verification/KiWii_Prelude.thy ===== *)
theory KiWii_Prelude
  imports Main "HOL-Library.Word" "HOL-Library.Sublist" "HOL-Library.Monad_Syntax"
    "HOL-Library.Multiset"
begin

section \<open>Shared types, checked memory accesses and automation\<close>

text \<open>
  This theory holds what every component of the KiWii server uses: the machine integer types,
  checked reads and writes of a byte vector, the conversions between bytes and characters, the
  little and big endian byte splitting the packet builders spell out, and the collections of
  rewrite rules (\<open>cpp_mem\<close> for checked accesses, \<open>wire\<close> for byte order) the component
  proofs rest on.

  A function of the source that indexes a vector or calls \<^verbatim>\<open>substr\<close> is a function into
  \<^typ>\<open>'a option\<close>: \<^const>\<open>None\<close> stands for an access outside the vector (undefined
  behaviour) or for \<^verbatim>\<open>std::out_of_range\<close>. That no request can lead there is a theorem of
  each component, not a part of its definition.
\<close>

unbundle bit_operations_syntax

type_synonym u8 = "8 word"
type_synonym u16 = "16 word"
type_synonym u32 = "32 word"
type_synonym u64 = "64 word"
type_synonym packet = "u8 list"

named_theorems cpp_mem \<open>rewrite rules for checked reads, writes and ranges\<close>
named_theorems wire \<open>rewrite rules for byte order on the wire\<close>

subsection \<open>Checked accesses to a vector\<close>

definition rd :: "'a list \<Rightarrow> nat \<Rightarrow> 'a option" where
  "rd xs i = (if i < length xs then Some (xs ! i) else None)"

definition wr :: "'a list \<Rightarrow> nat \<Rightarrow> 'a \<Rightarrow> 'a list option" where
  "wr xs i v = (if i < length xs then Some (xs[i := v]) else None)"

text \<open>The elements between two iterators \<open>begin() + a\<close> and \<open>begin() + b\<close>.\<close>

definition iter_range :: "'a list \<Rightarrow> nat \<Rightarrow> nat \<Rightarrow> 'a list option" where
  "iter_range xs a b = (if a \<le> b \<and> b \<le> length xs then Some (take (b - a) (drop a xs)) else None)"

lemma rd_in [cpp_mem]: "i < length xs \<Longrightarrow> rd xs i = Some (xs ! i)"
  by (simp add: rd_def)

lemma wr_in [cpp_mem]: "i < length xs \<Longrightarrow> wr xs i v = Some (xs[i := v])"
  by (simp add: wr_def)

lemma iter_range_in [cpp_mem]:
  "a \<le> b \<Longrightarrow> b \<le> length xs \<Longrightarrow> iter_range xs a b = Some (take (b - a) (drop a xs))"
  by (simp add: iter_range_def)

lemma rd_eq_Some: "rd xs i = Some v \<longleftrightarrow> i < length xs \<and> xs ! i = v"
  by (auto simp: rd_def)

lemma wr_eq_Some: "wr xs i v = Some ys \<longleftrightarrow> i < length xs \<and> ys = xs[i := v]"
  by (auto simp: wr_def)

lemma iter_range_eq_Some:
  "iter_range xs a b = Some ys \<longleftrightarrow> a \<le> b \<and> b \<le> length xs \<and> ys = take (b - a) (drop a xs)"
  by (auto simp: iter_range_def)

text \<open>Writes at several constant indices, one after the other.\<close>

fun wr_all :: "'a list \<Rightarrow> (nat \<times> 'a) list \<Rightarrow> 'a list option" where
  "wr_all xs [] = Some xs"
| "wr_all xs ((i, v) # ws) = do { ys \<leftarrow> wr xs i v; wr_all ys ws }"

declare wr_all.simps [simp del]

lemma wr_all_in [cpp_mem]:
  "\<forall>(i, v) \<in> set ws. i < length xs \<Longrightarrow>
   wr_all xs ws = Some (foldl (\<lambda>ys (i, v). ys[i := v]) xs ws)"
  by (induction xs ws rule: wr_all.induct) (auto simp: wr_all.simps wr_def)

subsection \<open>Bytes and characters\<close>

definition byte_char :: "u8 \<Rightarrow> char" where
  "byte_char b = char_of (unat b)"

definition char_byte :: "char \<Rightarrow> u8" where
  "char_byte c = word_of_nat (of_char c)"

abbreviation bytes_str :: "u8 list \<Rightarrow> string" where
  "bytes_str \<equiv> map byte_char"

abbreviation str_bytes :: "string \<Rightarrow> u8 list" where
  "str_bytes \<equiv> map char_byte"

lemma of_char_less_256: "of_char c < (256 :: nat)"
  by (metis char_of_mod_256 mod_less_divisor of_char_mod_256 of_char_of zero_less_numeral)

lemma byte_char_char_byte [simp]: "byte_char (char_byte c) = c"
  by (simp add: byte_char_def char_byte_def unat_of_nat of_char_less_256)

lemma char_byte_byte_char [simp]: "char_byte (byte_char b) = b"
proof -
  have "unat b < 2 ^ LENGTH(8)" by (rule unsigned_less)
  then show ?thesis by (simp add: byte_char_def char_byte_def)
qed

lemma byte_char_eq_iff [simp]: "byte_char a = byte_char b \<longleftrightarrow> a = b"
  by (metis char_byte_byte_char)

lemma char_byte_eq_iff [simp]: "char_byte a = char_byte b \<longleftrightarrow> a = b"
  by (metis byte_char_char_byte)

lemma char_byte_0 [simp]: "char_byte c = 0 \<longleftrightarrow> c = CHR 0x00"
proof -
  have "char_byte (CHR 0x00) = 0" by (simp add: char_byte_def)
  then show ?thesis by (metis char_byte_eq_iff)
qed

lemma byte_char_eq_conv: "byte_char b = c \<longleftrightarrow> b = char_byte c"
  by auto

lemma bytes_str_str_bytes [simp]: "bytes_str (str_bytes s) = s"
  by (simp add: comp_def)

lemma str_bytes_bytes_str [simp]: "str_bytes (bytes_str b) = b"
  by (simp add: comp_def)

lemma bytes_str_eq_iff [simp]: "bytes_str a = bytes_str b \<longleftrightarrow> a = b"
  by (metis str_bytes_bytes_str)

subsection \<open>Byte order\<close>

text \<open>
  The packet builders write a 32-bit value as \<^verbatim>\<open>static_cast<std::uint8_t>((v >> 8k) & 0xff)\<close>
  for \<open>k = 0, 1, 2, 3\<close> and read it back by shifting and or-ing the four bytes; ports are written
  high byte first.
\<close>

definition u32_le :: "u32 \<Rightarrow> u8 list" where
  "u32_le v =
    [ucast (v AND 0xff), ucast (drop_bit 8 v AND 0xff),
     ucast (drop_bit 16 v AND 0xff), ucast (drop_bit 24 v AND 0xff)]"

definition le_u32 :: "u8 \<Rightarrow> u8 \<Rightarrow> u8 \<Rightarrow> u8 \<Rightarrow> u32" where
  "le_u32 b0 b1 b2 b3 =
    ucast b0 OR push_bit 8 (ucast b1) OR push_bit 16 (ucast b2) OR push_bit 24 (ucast b3)"

definition u16_be :: "u16 \<Rightarrow> u8 list" where
  "u16_be v = [ucast (drop_bit 8 v AND 0xff), ucast (v AND 0xff)]"

definition be_u16 :: "u8 \<Rightarrow> u8 \<Rightarrow> u16" where
  "be_u16 hi lo = push_bit 8 (ucast hi) OR ucast lo"

lemma ff_mask32: "(0xff :: u32) = mask 8"
  by (simp add: mask_eq_exp_minus_1)

lemma ff_mask16: "(0xff :: u16) = mask 8"
  by (simp add: mask_eq_exp_minus_1)

lemma bit_byte_of_u32:
  "bit (ucast (ucast (drop_bit k v AND 0xff :: u32) :: u8) :: u32) n \<longleftrightarrow> n < 8 \<and> bit v (k + n)"
  by (auto simp: ff_mask32 bit_ucast_iff bit_and_iff bit_mask_iff bit_drop_bit_eq
      dest: bit_imp_le_length)

lemma bit_byte_of_u32_0:
  "bit (ucast (ucast (v AND 0xff :: u32) :: u8) :: u32) n \<longleftrightarrow> n < 8 \<and> bit v n"
  using bit_byte_of_u32 [of 0] by simp

lemma bit_byte_of_u16:
  "bit (ucast (ucast (drop_bit k v AND 0xff :: u16) :: u8) :: u16) n \<longleftrightarrow> n < 8 \<and> bit v (k + n)"
  by (auto simp: ff_mask16 bit_ucast_iff bit_and_iff bit_mask_iff bit_drop_bit_eq
      dest: bit_imp_le_length)

lemma bit_byte_of_u16_0:
  "bit (ucast (ucast (v AND 0xff :: u16) :: u8) :: u16) n \<longleftrightarrow> n < 8 \<and> bit v n"
  using bit_byte_of_u16 [of 0] by simp

lemma le_u32_u32_le:
  "le_u32 (ucast (v AND 0xff)) (ucast (drop_bit 8 v AND 0xff))
     (ucast (drop_bit 16 v AND 0xff)) (ucast (drop_bit 24 v AND 0xff)) = v"
proof (rule bit_word_eqI)
  fix n assume "n < LENGTH(32)"
  then consider "n < 8" | "8 \<le> n \<and> n < 16" | "16 \<le> n \<and> n < 24" | "24 \<le> n \<and> n < 32"
    by fastforce
  then show "bit (le_u32 (ucast (v AND 0xff)) (ucast (drop_bit 8 v AND 0xff))
     (ucast (drop_bit 16 v AND 0xff)) (ucast (drop_bit 24 v AND 0xff))) n = bit v n"
    unfolding le_u32_def
    by cases (simp_all only: bit_or_iff bit_push_bit_iff bit_byte_of_u32 bit_byte_of_u32_0,
      auto simp: bit_simps)
qed

lemma be_u16_u16_be:
  "be_u16 (ucast (drop_bit 8 v AND 0xff)) (ucast (v AND 0xff)) = v"
proof (rule bit_word_eqI)
  fix n assume "n < LENGTH(16)"
  then consider "n < 8" | "8 \<le> n \<and> n < 16" by fastforce
  then show "bit (be_u16 (ucast (drop_bit 8 v AND 0xff)) (ucast (v AND 0xff))) n = bit v n"
    unfolding be_u16_def
    by cases (simp_all only: bit_or_iff bit_push_bit_iff bit_byte_of_u16 bit_byte_of_u16_0,
      auto simp: bit_simps)
qed

lemma length_u32_le [simp]: "length (u32_le v) = 4"
  by (simp add: u32_le_def)

lemma length_u16_be [simp]: "length (u16_be v) = 2"
  by (simp add: u16_be_def)

lemma le_u32_nth_u32_le [wire]:
  "le_u32 (u32_le v ! 0) (u32_le v ! 1) (u32_le v ! 2) (u32_le v ! 3) = v"
  by (simp add: u32_le_def le_u32_u32_le)

lemma u32_le_inject [simp]: "u32_le v = u32_le w \<longleftrightarrow> v = w"
  by (metis le_u32_nth_u32_le)

lemma u16_be_inject [simp]: "u16_be v = u16_be w \<longleftrightarrow> v = w"
  by (metis be_u16_u16_be nth_Cons_0 nth_Cons_Suc u16_be_def)

subsection \<open>Lists and maps\<close>

lemma nth_append_take [simp]: "i < n \<Longrightarrow> n \<le> length xs \<Longrightarrow> (take n xs @ ys) ! i = xs ! i"
  by (simp add: nth_append)

lemma map_of_filter_key: "map_of (filter (\<lambda>p. fst p \<noteq> k) xs) = (map_of xs)(k := None)"
  by (induction xs) (auto simp: fun_eq_iff)

lemma map_of_filter_fst:
  "map_of (filter (\<lambda>p. P (fst p)) xs) k = (if P k then map_of xs k else None)"
  by (induction xs) auto

end
