(* ===== verification/Cpp_String.thy ===== *)
theory Cpp_String
  imports KiWii_Prelude
begin

section \<open>The operations of \<^verbatim>\<open>std::string\<close> the server uses\<close>

text \<open>
  A \<^verbatim>\<open>std::string\<close> is a HOL \<^typ>\<open>string\<close> (a list of 8-bit characters). Positions are natural
  numbers and \<^verbatim>\<open>std::string::npos\<close> is \<^const>\<open>None\<close>. A search that starts at \<^verbatim>\<open>npos\<close> finds nothing
  and a count computed as \<open>npos - first\<close> is larger than every string, so it means
  ``to the end''; both are written out here. \<^verbatim>\<open>substr\<close> throws \<^verbatim>\<open>std::out_of_range\<close> when its
  position is past the end: \<^const>\<open>None\<close>.
\<close>

named_theorems cpp_str \<open>facts about searches and substrings\<close>

subsection \<open>find\<close>

fun find_sub :: "'a list \<Rightarrow> 'a list \<Rightarrow> nat option" where
  "find_sub pat [] = (if pat = [] then Some 0 else None)"
| "find_sub pat (x # xs) =
     (if prefix pat (x # xs) then Some 0 else map_option Suc (find_sub pat xs))"

definition str_find :: "string \<Rightarrow> string \<Rightarrow> nat \<Rightarrow> nat option" where
  "str_find s pat pos =
     (if length s < pos then None else map_option (\<lambda>i. pos + i) (find_sub pat (drop pos s)))"

definition str_find_opt :: "string \<Rightarrow> string \<Rightarrow> nat option \<Rightarrow> nat option" where
  "str_find_opt s pat pos = (case pos of None \<Rightarrow> None | Some p \<Rightarrow> str_find s pat p)"

abbreviation str_contains :: "string \<Rightarrow> string \<Rightarrow> bool" where
  "str_contains s pat \<equiv> str_find s pat 0 \<noteq> None"

lemma find_sub_Some_iff:
  "find_sub pat xs = Some i \<longleftrightarrow>
     i \<le> length xs \<and> prefix pat (drop i xs) \<and> (\<forall>j < i. \<not> prefix pat (drop j xs))"
proof (induction xs arbitrary: i)
  case Nil
  then show ?case by auto
next
  case (Cons x xs)
  show ?case
  proof (cases "prefix pat (x # xs)")
    case True
    then show ?thesis by (cases i) auto
  next
    case False
    then show ?thesis
      by (cases i) (auto simp: Cons.IH less_Suc_eq_0_disj)
  qed
qed

lemma find_sub_None_iff:
  "find_sub pat xs = None \<longleftrightarrow> (\<forall>j \<le> length xs. \<not> prefix pat (drop j xs))"
proof (induction xs)
  case Nil
  then show ?case by auto
next
  case (Cons x xs)
  have "(\<forall>j \<le> length (x # xs). \<not> prefix pat (drop j (x # xs))) \<longleftrightarrow>
    \<not> prefix pat (x # xs) \<and> (\<forall>j \<le> length xs. \<not> prefix pat (drop j xs))"
    by (simp add: All_less_Suc2 flip: less_Suc_eq_le)
  then show ?case by (simp add: Cons.IH)
qed

lemma find_sub_eq_None_sublist: "find_sub pat xs = None \<longleftrightarrow> \<not> sublist pat xs"
proof -
  have "sublist pat xs \<longleftrightarrow> (\<exists>j \<le> length xs. prefix pat (drop j xs))"
  proof
    assume "sublist pat xs"
    then obtain a b where "xs = a @ pat @ b" by (auto simp: sublist_def)
    then have "length a \<le> length xs" "prefix pat (drop (length a) xs)" by auto
    then show "\<exists>j \<le> length xs. prefix pat (drop j xs)" by blast
  next
    assume "\<exists>j \<le> length xs. prefix pat (drop j xs)"
    then obtain j where "prefix pat (drop j xs)" by blast
    then show "sublist pat xs"
      by (metis append_take_drop_id prefix_def sublist_appendI)
  qed
  then show ?thesis by (auto simp: find_sub_None_iff)
qed

lemma find_sub_self [simp]: "find_sub pat (pat @ ys) = Some 0"
  by (simp add: find_sub_Some_iff)

lemma find_sub_0_iff: "find_sub pat xs = Some 0 \<longleftrightarrow> prefix pat xs"
  by (simp add: find_sub_Some_iff)

lemma sublist_find_sub: "sublist pat xs \<longleftrightarrow> (\<exists>i. find_sub pat xs = Some i)"
  by (metis find_sub_eq_None_sublist not_None_eq)

lemma find_sub_bound: "find_sub pat xs = Some i \<Longrightarrow> i + length pat \<le> length xs"
  by (auto simp: find_sub_Some_iff dest: prefix_length_le)

lemma find_sub_take: "find_sub pat xs = Some i \<Longrightarrow> take (length pat) (drop i xs) = pat"
  by (auto simp: find_sub_Some_iff prefix_def)

lemma find_sub_split:
  "find_sub pat xs = Some i \<Longrightarrow> xs = take i xs @ pat @ drop (i + length pat) xs"
  by (metis add.commute append_take_drop_id drop_drop find_sub_take)

text \<open>The first occurrence stays the first one when characters are appended.\<close>

lemma find_sub_append:
  assumes "find_sub pat xs = Some i"
  shows "find_sub pat (xs @ ys) = Some i"
proof -
  have b: "i + length pat \<le> length xs" using assms by (rule find_sub_bound)
  have "\<not> prefix pat (drop j (xs @ ys))" if j: "j < i" for j
  proof
    assume "prefix pat (drop j (xs @ ys))"
    then have "pat = take (length pat) (drop j xs @ drop (j - length xs) ys)"
      by (metis append_eq_conv_conj drop_append prefix_def)
    also have "\<dots> = take (length pat) (drop j xs)" using b j by simp
    finally have "prefix pat (drop j xs)" by (metis take_is_prefix)
    with assms j show False by (simp add: find_sub_Some_iff)
  qed
  moreover have "prefix pat (drop i (xs @ ys))"
    using assms b by (auto simp: find_sub_Some_iff)
  ultimately show ?thesis using b by (simp add: find_sub_Some_iff)
qed

text \<open>A stretch without the first element of the pattern is skipped.\<close>

lemma find_sub_skip:
  assumes "pat \<noteq> []" "hd pat \<notin> set xs"
  shows "find_sub pat (xs @ ys) = map_option (\<lambda>i. length xs + i) (find_sub pat ys)"
  using assms(2)
proof (induction xs)
  case Nil
  then show ?case by (simp add: option.map_ident)
next
  case (Cons x xs)
  then have "\<not> prefix pat (x # xs @ ys)" using assms(1) by (cases pat) auto
  with Cons show ?case by (simp add: option.map_comp comp_def)
qed

text \<open>A single-character pattern is the first position of that character.\<close>

lemma find_sub_single_None: "find_sub [c] xs = None \<longleftrightarrow> c \<notin> set xs"
  by (induction xs) auto

lemma find_sub_single_append: "c \<notin> set xs \<Longrightarrow> find_sub [c] (xs @ c # ys) = Some (length xs)"
  by (induction xs) auto

lemma find_sub_single_take: "find_sub [c] xs = Some i \<Longrightarrow> c \<notin> set (take i xs)"
proof (induction xs arbitrary: i)
  case Nil
  then show ?case by simp
next
  case (Cons x xs)
  then show ?case by (cases i) (auto split: if_splits)
qed

lemma str_find_bound [cpp_str]:
  "str_find s pat pos = Some i \<Longrightarrow> pos \<le> i \<and> i + length pat \<le> length s"
  by (auto simp: str_find_def split: if_splits dest: find_sub_bound)

lemma str_find_0 [simp]: "str_find s pat 0 = find_sub pat s"
  by (cases "find_sub pat s") (simp_all add: str_find_def)

lemma str_find_opt_None [simp]: "str_find_opt s pat None = None"
  by (simp add: str_find_opt_def)

lemma str_find_opt_Some [simp]: "str_find_opt s pat (Some p) = str_find s pat p"
  by (simp add: str_find_opt_def)

lemma str_find_opt_bound [cpp_str]:
  "str_find_opt s pat p = Some i \<Longrightarrow> i + length pat \<le> length s"
  by (auto simp: str_find_opt_def split: option.splits dest: str_find_bound)

subsection \<open>substr, compare, rfind, find\_first\_of\<close>

definition str_substr :: "string \<Rightarrow> nat \<Rightarrow> nat option \<Rightarrow> string option" where
  "str_substr s pos n =
     (if length s < pos then None
      else Some (case n of None \<Rightarrow> drop pos s | Some k \<Rightarrow> take k (drop pos s)))"

text \<open>The count \<open>last - first\<close>, where \<open>last\<close> may be \<^verbatim>\<open>npos\<close>.\<close>

definition count_to :: "nat option \<Rightarrow> nat \<Rightarrow> nat option" where
  "count_to endp first = map_option (\<lambda>l. l - first) endp"

lemma str_substr_in [cpp_str]:
  "pos \<le> length s \<Longrightarrow>
   str_substr s pos n = Some (case n of None \<Rightarrow> drop pos s | Some k \<Rightarrow> take k (drop pos s))"
  by (simp add: str_substr_def)

lemma count_to_None [simp]: "count_to None p = None"
  by (simp add: count_to_def)

lemma count_to_Some [simp]: "count_to (Some l) p = Some (l - p)"
  by (simp add: count_to_def)

text \<open>\<open>s.compare(pos, n, t) == 0\<close>; the position must not be past the end.\<close>

definition str_compare_eq :: "string \<Rightarrow> nat \<Rightarrow> nat \<Rightarrow> string \<Rightarrow> bool option" where
  "str_compare_eq s pos n t =
     (if length s < pos then None else Some (take n (drop pos s) = t))"

fun find_index :: "('a \<Rightarrow> bool) \<Rightarrow> 'a list \<Rightarrow> nat option" where
  "find_index P [] = None"
| "find_index P (x # xs) = (if P x then Some 0 else map_option Suc (find_index P xs))"

definition str_find_first :: "(char \<Rightarrow> bool) \<Rightarrow> string \<Rightarrow> nat \<Rightarrow> nat option" where
  "str_find_first P s pos =
     (if length s < pos then None else map_option (\<lambda>i. pos + i) (find_index P (drop pos s)))"

definition str_find_first_of :: "string \<Rightarrow> string \<Rightarrow> nat \<Rightarrow> nat option" where
  "str_find_first_of s cs pos = str_find_first (\<lambda>c. c \<in> set cs) s pos"

definition str_find_first_not_of :: "string \<Rightarrow> string \<Rightarrow> nat \<Rightarrow> nat option" where
  "str_find_first_not_of s cs pos = str_find_first (\<lambda>c. c \<notin> set cs) s pos"

definition str_rfind_char :: "string \<Rightarrow> char \<Rightarrow> nat option" where
  "str_rfind_char s c =
     map_option (\<lambda>i. length s - 1 - i) (find_index (\<lambda>d. d = c) (rev s))"

lemma find_index_bound: "find_index P xs = Some i \<Longrightarrow> i < length xs \<and> P (xs ! i)"
proof (induction xs arbitrary: i)
  case Nil
  then show ?case by simp
next
  case (Cons x xs)
  then show ?case by (cases i) (auto split: if_splits)
qed

lemma find_index_None_iff: "find_index P xs = None \<longleftrightarrow> (\<forall>x \<in> set xs. \<not> P x)"
  by (induction xs) auto

lemma find_index_append_first:
  "\<forall>x \<in> set xs. \<not> P x \<Longrightarrow> P y \<Longrightarrow> find_index P (xs @ y # ys) = Some (length xs)"
  by (induction xs) auto

lemma str_find_first_bound [cpp_str]: "str_find_first P s pos = Some i \<Longrightarrow> pos \<le> i \<and> i < length s"
  by (auto simp: str_find_first_def split: if_splits dest!: find_index_bound)

lemma str_rfind_char_bound [cpp_str]: "str_rfind_char s c = Some i \<Longrightarrow> i < length s"
  by (auto simp: str_rfind_char_def dest!: find_index_bound)

subsection \<open>Reading up to a stop character\<close>

text \<open>
  The parsers of the server all read a value the same way: from a position after a marker to the next
  stop character, or to the end when there is none (\<^verbatim>\<open>npos\<close> minus a position is a count past the end).
\<close>

lemma find_sub_single_takeWhile:
  "(case find_sub [c] xs of None \<Rightarrow> xs | Some k \<Rightarrow> take k xs) = takeWhile (\<lambda>d. d \<noteq> c) xs"
  by (induction xs) (auto split: option.splits)

lemma str_substr_until [cpp_str]:
  assumes "first \<le> length s"
  shows "str_substr s first (count_to (str_find s [c] first) first) =
    Some (takeWhile (\<lambda>d. d \<noteq> c) (drop first s))"
  using assms find_sub_single_takeWhile [where c = c and xs = "drop first s"]
  by (auto simp: str_substr_def str_find_def count_to_def split: option.splits)

definition field_after :: "string \<Rightarrow> char \<Rightarrow> string \<Rightarrow> string" where
  "field_after marker stop s =
     (case find_sub marker s of None \<Rightarrow> []
      | Some i \<Rightarrow> takeWhile (\<lambda>d. d \<noteq> stop) (drop (i + length marker) s))"

lemma field_after_no_stop: "stop \<notin> set (field_after marker stop s)"
  by (auto simp: field_after_def split: option.splits dest: set_takeWhileD)

text \<open>The value that follows the first token with a property.\<close>

fun value_after :: "('a list \<Rightarrow> bool) \<Rightarrow> 'a list list \<Rightarrow> 'a list" where
  "value_after P (t # u # ts) = (if P t then u else value_after P (u # ts))"
| "value_after P _ = []"

lemma prefix_marker:
  assumes "z \<notin> set key" "z \<notin> set t"
  shows "prefix (key @ [z]) (t @ z # rest) \<longleftrightarrow> key = t"
proof
  assume "prefix (key @ [z]) (t @ z # rest)"
  then obtain r where r: "key @ z # r = t @ z # rest" by (auto simp: prefix_def)
  have "takeWhile (\<lambda>c. c \<noteq> z) (xs @ z # ys) = xs" if "z \<notin> set xs" for xs ys
    using that by (induction xs) auto
  with assms r show "key = t" by metis
qed simp

lemma find_marker_token:
  assumes "z \<notin> set key" "z \<notin> set t"
  shows "find_sub (key @ [z]) (t @ z # rest) =
    (if suffix key t then Some (length t - length key)
     else map_option (\<lambda>i. i + length t + 1) (find_sub (key @ [z]) rest))"
  using assms(2)
proof (induction t)
  case Nil
  have "prefix (key @ [z]) ([] @ z # rest) \<longleftrightarrow> key = []"
    using assms(1) by (intro prefix_marker) simp_all
  then show ?case by (auto simp: option.map_comp comp_def)
next
  case (Cons a t)
  have p: "prefix (key @ [z]) ((a # t) @ z # rest) \<longleftrightarrow> key = a # t"
    using assms(1) Cons.prems by (intro prefix_marker) simp_all
  show ?case
  proof (cases "key = a # t")
    case True
    with p show ?thesis by simp
  next
    case False
    with p Cons show ?thesis
      by (auto simp: suffix_Cons Suc_diff_le suffix_length_le option.map_comp comp_def)
  qed
qed

text \<open>Splitting at a separator, the specification of the two splitting loops of the server.\<close>

fun split_on :: "char \<Rightarrow> string \<Rightarrow> string list" where
  "split_on c [] = [[]]"
| "split_on c (x # xs) =
     (if x = c then [] # split_on c xs
      else case split_on c xs of [] \<Rightarrow> [[x]] | p # ps \<Rightarrow> (x # p) # ps)"

lemma split_on_nonempty [simp]: "split_on c xs \<noteq> []"
  by (cases xs) (auto split: list.splits)

lemma split_on_unfold:
  "split_on c xs = takeWhile (\<lambda>d. d \<noteq> c) xs #
     (case find_sub [c] xs of None \<Rightarrow> [] | Some i \<Rightarrow> split_on c (drop (i + 1) xs))"
proof (induction xs)
  case Nil
  then show ?case by simp
next
  case (Cons x xs)
  then show ?case by (cases "find_sub [c] xs") auto
qed

lemma split_on_parts: "p \<in> set (split_on c xs) \<Longrightarrow> c \<notin> set p"
proof (induction xs arbitrary: p)
  case Nil
  then show ?case by simp
next
  case (Cons x xs)
  show ?case
  proof (cases "split_on c xs")
    case Nil
    then show ?thesis by simp
  next
    case (Cons q qs)
    then have "c \<notin> set q" "\<forall>r \<in> set qs. c \<notin> set r" using Cons.IH by auto
    with Cons Cons.prems show ?thesis by (auto split: if_splits)
  qed
qed

lemma split_on_single: "c \<notin> set p \<Longrightarrow> split_on c p = [p]"
  by (subst split_on_unfold)
    (simp add: find_sub_single_None [THEN iffD2] takeWhile_eq_all_conv, metis)

lemma split_on_append: "c \<notin> set p \<Longrightarrow> split_on c (p @ c # rest) = p # split_on c rest"
  by (subst split_on_unfold) (auto simp: find_sub_single_append takeWhile_append takeWhile_eq_all_conv)

end
