(* ===== verification/Base64.thy ===== *)
theory Base64
  imports Cpp_String
begin

section \<open>The two base64 encoders (\<^verbatim>\<open>src/nas_http.cpp\<close>, \<^verbatim>\<open>src/gamespy_qr.cpp\<close>)\<close>

text \<open>
  The NAS responses encode with the standard alphabet and pad with asterisks, the QR challenge pads
  with equals signs; each file has its own loop, over an index that moves by three. Both loops are
  modelled as they are written. The locale \<open>base64_codec\<close> states what makes a function a base64
  encoder and proves, once, the length and the characters of its output and that a reference decoder
  inverts it; both encoders interpret it.
\<close>

definition base64_alphabet :: string where
  "base64_alphabet = ''ABCDEFGHIJKLMNOPQRSTUVWXYZabcdefghijklmnopqrstuvwxyz0123456789+/''"

text \<open>\<^verbatim>\<open>alphabet[(chunk >> k) & 0x3f]\<close>\<close>

definition sextet :: "nat \<Rightarrow> u32 \<Rightarrow> char" where
  "sextet k chunk = base64_alphabet ! unat (drop_bit k chunk AND 0x3f)"

subsection \<open>The encoder of the NAS responses\<close>

function nas_base64_loop :: "string \<Rightarrow> nat \<Rightarrow> string" where
  "nas_base64_loop s index =
     (if index < length s then
        let first = ucast (char_byte (s ! index)) :: u32;
            second = (if index + 1 < length s then ucast (char_byte (s ! (index + 1))) else 0);
            third = (if index + 2 < length s then ucast (char_byte (s ! (index + 2))) else 0);
            chunk = push_bit 16 first OR push_bit 8 second OR third
        in [sextet 18 chunk, sextet 12 chunk,
            (if index + 1 < length s then sextet 6 chunk else CHR ''*''),
            (if index + 2 < length s then sextet 0 chunk else CHR ''*'')] @
           nas_base64_loop s (index + 3)
      else [])"
  by pat_completeness auto
termination
  by (relation "measure (\<lambda>(s, index). length s - index)") auto

declare nas_base64_loop.simps [simp del]

definition nas_base64_encode :: "string \<Rightarrow> string" where
  "nas_base64_encode s = nas_base64_loop s 0"

subsection \<open>The encoder of the QR challenges\<close>

function qr_base64_loop :: "packet \<Rightarrow> nat \<Rightarrow> string" where
  "qr_base64_loop input index =
     (if index < length input then
        let remaining = length input - index;
            v = push_bit 16 (ucast (input ! index)) OR
                (if 1 < remaining then push_bit 8 (ucast (input ! (index + 1))) else 0) OR
                (if 2 < remaining then ucast (input ! (index + 2)) else 0) :: u32
        in [sextet 18 v, sextet 12 v,
            (if 1 < remaining then sextet 6 v else CHR ''=''),
            (if 2 < remaining then sextet 0 v else CHR ''='')] @
           qr_base64_loop input (index + 3)
      else [])"
  by pat_completeness auto
termination
  by (relation "measure (\<lambda>(input, index). length input - index)") auto

declare qr_base64_loop.simps [simp del]

definition qr_base64_encode :: "packet \<Rightarrow> string" where
  "qr_base64_encode input = qr_base64_loop input 0"

subsection \<open>Chunks of 24 bits\<close>

definition chunk24 :: "u8 \<Rightarrow> u8 \<Rightarrow> u8 \<Rightarrow> u32" where
  "chunk24 a b c = push_bit 16 (ucast a) OR push_bit 8 (ucast b) OR ucast c"

lemma sextet_mask: "(0x3f :: u32) = mask 6"
  by (simp add: mask_eq_exp_minus_1)

lemma bit_chunk24:
  "bit (chunk24 a b c) n \<longleftrightarrow>
     16 \<le> n \<and> n < 24 \<and> bit a (n - 16) \<or> 8 \<le> n \<and> n < 16 \<and> bit b (n - 8) \<or> n < 8 \<and> bit c n"
  by (auto simp: chunk24_def bit_or_iff bit_push_bit_iff bit_ucast_iff dest: bit_imp_le_length)

lemma chunk24_bytes [simp]:
  "ucast (drop_bit 16 (chunk24 a b c)) = a"
  "ucast (drop_bit 8 (chunk24 a b c)) = b"
  "ucast (chunk24 a b c) = c"
  by (rule bit_word_eqI; simp add: bit_ucast_iff bit_drop_bit_eq bit_chunk24)+

definition join24 :: "u32 \<Rightarrow> u32 \<Rightarrow> u32 \<Rightarrow> u32 \<Rightarrow> u32" where
  "join24 p q r s = push_bit 18 p OR push_bit 12 q OR push_bit 6 r OR s"

lemma bit_sextet_part: "bit (drop_bit k (v :: u32) AND 0x3f) n \<longleftrightarrow> n < 6 \<and> bit v (k + n)"
  by (auto simp: sextet_mask bit_and_iff bit_mask_iff bit_drop_bit_eq dest: bit_imp_le_length)

lemma bit_sextet_part_0: "bit ((v :: u32) AND 0x3f) n \<longleftrightarrow> n < 6 \<and> bit v n"
  using bit_sextet_part [of 0] by simp

lemma join24_sextets:
  assumes "\<And>n. 24 \<le> n \<Longrightarrow> \<not> bit v n"
  shows "join24 (drop_bit 18 v AND 0x3f) (drop_bit 12 v AND 0x3f) (drop_bit 6 v AND 0x3f)
    (v AND 0x3f) = v"
proof (rule bit_word_eqI)
  fix n assume "n < LENGTH(32)"
  then consider "n < 6" | "6 \<le> n \<and> n < 12" | "12 \<le> n \<and> n < 18" | "18 \<le> n \<and> n < 24"
    | "24 \<le> n \<and> n < 32" by fastforce
  then show "bit (join24 (drop_bit 18 v AND 0x3f) (drop_bit 12 v AND 0x3f) (drop_bit 6 v AND 0x3f)
    (v AND 0x3f)) n = bit v n"
    unfolding join24_def
    by cases (simp_all only: bit_or_iff bit_push_bit_iff bit_sextet_part bit_sextet_part_0,
      auto simp: bit_drop_bit_eq assms)
qed

lemma chunk24_small: "24 \<le> n \<Longrightarrow> \<not> bit (chunk24 a b c) n"
  by (simp add: bit_chunk24)

lemma sextet_zero_tail:
  "chunk24 a b 0 AND 0x3f = 0" "drop_bit 6 (chunk24 a 0 0) AND 0x3f = 0"
proof -
  show "chunk24 a b 0 AND 0x3f = 0"
    by (rule bit_word_eqI) (simp add: bit_sextet_part_0 bit_chunk24)
  show "drop_bit 6 (chunk24 a 0 0) AND 0x3f = 0"
    by (rule bit_word_eqI) (simp only: bit_sextet_part bit_chunk24 bit_0_eq, auto)
qed

lemma unat_sextet: "unat ((v :: u32) AND 0x3f) < 64"
proof -
  have "unat (take_bit 6 v) < 2 ^ 6"
    by (metis take_bit_nat_less_exp unsigned_take_bit_eq)
  then show ?thesis by (simp add: sextet_mask take_bit_eq_mask)
qed

subsection \<open>The reference decoder\<close>

definition base64_value :: "char \<Rightarrow> u32" where
  "base64_value c =
     (case find_index (\<lambda>d. d = c) base64_alphabet of None \<Rightarrow> 0 | Some i \<Rightarrow> word_of_nat i)"

fun base64_decode :: "char \<Rightarrow> string \<Rightarrow> u8 list" where
  "base64_decode pad (p # q # r # s # rest) =
     (let v = join24 (base64_value p) (base64_value q) (base64_value r) (base64_value s)
      in if r = pad then [ucast (drop_bit 16 v)]
         else if s = pad then [ucast (drop_bit 16 v), ucast (drop_bit 8 v)]
         else [ucast (drop_bit 16 v), ucast (drop_bit 8 v), ucast v] @ base64_decode pad rest)"
| "base64_decode pad _ = []"

lemma find_index_distinct:
  "distinct xs \<Longrightarrow> i < length xs \<Longrightarrow> find_index (\<lambda>d. d = xs ! i) xs = Some i"
proof (induction xs arbitrary: i)
  case Nil
  then show ?case by simp
next
  case (Cons x xs)
  then show ?case by (cases i) auto
qed

lemma base64_alphabet_facts [simp]:
  "length base64_alphabet = 64" "distinct base64_alphabet"
  "CHR ''*'' \<notin> set base64_alphabet" "CHR ''='' \<notin> set base64_alphabet"
  "CHR 0x00 \<notin> set base64_alphabet"
  by (simp_all add: base64_alphabet_def)

lemma sextet_in_alphabet [simp]: "sextet k v \<in> set base64_alphabet"
  unfolding sextet_def by (rule nth_mem) (use unat_sextet in simp)

lemma base64_value_sextet [simp]: "base64_value (sextet k v) = drop_bit k v AND 0x3f"
  using unat_sextet [of "drop_bit k v"]
  by (simp add: base64_value_def sextet_def find_index_distinct)

lemma base64_value_other: "c \<notin> set base64_alphabet \<Longrightarrow> base64_value c = 0"
proof -
  assume "c \<notin> set base64_alphabet"
  then have "find_index (\<lambda>d. d = c) base64_alphabet = None" by (auto simp: find_index_None_iff)
  then show ?thesis by (simp add: base64_value_def)
qed

text \<open>Induction by groups of three.\<close>

fun group3 :: "'a list \<Rightarrow> 'a list list" where
  "group3 [] = []"
| "group3 [x] = [[x]]"
| "group3 [x, y] = [[x, y]]"
| "group3 (x # y # z # rest) = [x, y, z] # group3 rest"

subsection \<open>What a base64 encoder is\<close>

locale base64_codec =
  fixes enc :: "'a list \<Rightarrow> string" and byte_of :: "'a \<Rightarrow> u8" and pad :: char
  assumes pad_new: "pad \<notin> set base64_alphabet"
    and byte_inj: "byte_of x = byte_of y \<Longrightarrow> x = y"
    and enc_Nil: "enc [] = []"
    and enc_1: "enc [x] =
      (let v = chunk24 (byte_of x) 0 0 in [sextet 18 v, sextet 12 v, pad, pad])"
    and enc_2: "enc [x, y] =
      (let v = chunk24 (byte_of x) (byte_of y) 0 in [sextet 18 v, sextet 12 v, sextet 6 v, pad])"
    and enc_3: "enc (x # y # z # rest) =
      (let v = chunk24 (byte_of x) (byte_of y) (byte_of z)
       in [sextet 18 v, sextet 12 v, sextet 6 v, sextet 0 v] @ enc rest)"
begin

lemmas enc_simps = enc_Nil enc_1 enc_2 enc_3

lemma enc_length: "length (enc xs) = 4 * ((length xs + 2) div 3)"
  by (induction xs rule: group3.induct) (simp_all add: enc_simps Let_def, presburger)

lemma enc_chars: "set (enc xs) \<subseteq> insert pad (set base64_alphabet)"
  by (induction xs rule: group3.induct) (auto simp: enc_simps Let_def)

lemma sextet_not_pad [simp]: "sextet k v \<noteq> pad"
  using pad_new sextet_in_alphabet by metis

lemma decode_enc: "base64_decode pad (enc xs) = map byte_of xs"
proof (induction xs rule: group3.induct)
  case (2 x)
  have "join24 (drop_bit 18 (chunk24 (byte_of x) 0 0) AND 0x3f)
      (drop_bit 12 (chunk24 (byte_of x) 0 0) AND 0x3f) 0 0 = chunk24 (byte_of x) 0 0"
    using join24_sextets [OF chunk24_small, of "byte_of x" 0 0] by (simp add: sextet_zero_tail)
  then show ?case by (simp add: enc_simps Let_def base64_value_other pad_new)
next
  case (3 x y)
  have "join24 (drop_bit 18 (chunk24 (byte_of x) (byte_of y) 0) AND 0x3f)
      (drop_bit 12 (chunk24 (byte_of x) (byte_of y) 0) AND 0x3f)
      (drop_bit 6 (chunk24 (byte_of x) (byte_of y) 0) AND 0x3f) 0 = chunk24 (byte_of x) (byte_of y) 0"
    using join24_sextets [OF chunk24_small, of "byte_of x" "byte_of y" 0]
    by (simp add: sextet_zero_tail)
  then show ?case by (simp add: enc_simps Let_def base64_value_other pad_new)
qed (simp_all add: enc_simps Let_def join24_sextets chunk24_small)

lemma enc_inject: "enc xs = enc ys \<longleftrightarrow> xs = ys"
  using decode_enc byte_inj by (metis inj_map_eq_map injI)

end

lemma nas_base64_shift: "nas_base64_loop (p @ s) (length p + i) = nas_base64_loop s i"
proof (induction s i rule: nas_base64_loop.induct)
  case (1 s i)
  then show ?case
    by (subst (1 2) nas_base64_loop.simps) (simp add: Let_def nth_append add.assoc)
qed

lemma qr_base64_shift: "qr_base64_loop (p @ s) (length p + i) = qr_base64_loop s i"
proof (induction s i rule: qr_base64_loop.induct)
  case (1 s i)
  then show ?case
    by (subst (1 2) qr_base64_loop.simps) (simp add: Let_def nth_append add.assoc)
qed

interpretation nas64: base64_codec nas_base64_encode char_byte "CHR ''*''"
proof unfold_locales
  show "nas_base64_encode (x # y # z # rest) =
      (let v = chunk24 (char_byte x) (char_byte y) (char_byte z)
       in [sextet 18 v, sextet 12 v, sextet 6 v, sextet 0 v] @ nas_base64_encode rest)"
    for x y z rest
    using nas_base64_shift [of "[x, y, z]" rest 0]
    by (simp add: nas_base64_encode_def nas_base64_loop.simps [of "x # y # z # rest"]
        chunk24_def Let_def numeral_3_eq_3 del: One_nat_def)
qed (simp_all add: nas_base64_encode_def nas_base64_loop.simps chunk24_def Let_def)

interpretation qr64: base64_codec qr_base64_encode "\<lambda>b. b" "CHR ''=''"
proof unfold_locales
  show "qr_base64_encode (x # y # z # rest) =
      (let v = chunk24 x y z
       in [sextet 18 v, sextet 12 v, sextet 6 v, sextet 0 v] @ qr_base64_encode rest)"
    for x y z rest
    using qr_base64_shift [of "[x, y, z]" rest 0]
    by (simp add: qr_base64_encode_def qr_base64_loop.simps [of "x # y # z # rest"]
        chunk24_def Let_def numeral_3_eq_3 del: One_nat_def)
qed (simp_all add: qr_base64_encode_def qr_base64_loop.simps chunk24_def Let_def)

subsection \<open>Properties\<close>

text \<open>
  C39. Both base64 loops are correct encoders: their output has four characters for every three
  bytes begun, only characters of the alphabet and the padding, and decodes to the input.
\<close>

theorem base64_roundtrip:
  "base64_decode (CHR ''*'') (nas_base64_encode plain) = str_bytes plain \<and>
   base64_decode (CHR ''='') (qr_base64_encode input) = input \<and>
   length (nas_base64_encode plain) = 4 * ((length plain + 2) div 3) \<and>
   length (qr_base64_encode input) = 4 * ((length input + 2) div 3) \<and>
   set (nas_base64_encode plain) \<subseteq> insert (CHR ''*'') (set base64_alphabet) \<and>
   set (qr_base64_encode input) \<subseteq> insert (CHR ''='') (set base64_alphabet)"
  using nas64.decode_enc [of plain] qr64.decode_enc [of input] nas64.enc_chars [of plain]
    qr64.enc_chars [of input] nas64.enc_length [of plain] qr64.enc_length [of input]
  by simp

text \<open>
  The two encoders, written independently, agree on every input up to their padding character.
\<close>

theorem base64_encoders_agree:
  "nas_base64_encode (bytes_str input) =
   map (\<lambda>c. if c = CHR ''='' then CHR ''*'' else c) (qr_base64_encode input)"
proof -
  have "sextet k v \<noteq> CHR ''=''" for k v
    using sextet_in_alphabet base64_alphabet_facts(4) by metis
  then show ?thesis
    by (induction input rule: group3.induct)
      (simp_all add: nas64.enc_simps qr64.enc_simps Let_def)
qed

end
