(* ===== verification/Rc4.thy ===== *)
theory Rc4
  imports KiWii_Prelude
begin

section \<open>The cipher of the QR challenge (\<^verbatim>\<open>rc4_transform\<close> in \<^verbatim>\<open>src/gamespy_qr.cpp\<close>)\<close>

text \<open>
  GameSpy's variant of RC4: the key schedule is the usual one, and the output loop advances its first
  index by the input byte as well. Indices are natural numbers and \<^verbatim>\<open>& 0xff\<close> is \<open>mod 256\<close>. With an
  empty key the code computes \<^verbatim>\<open>index % 0\<close>, which is undefined: \<^const>\<open>None\<close>. That the
  state stays a permutation of the 256 bytes, so that every index is inside it, is
  \<open>rc4_state_permutation\<close>.
\<close>

definition swap_at :: "'a list \<Rightarrow> nat \<Rightarrow> nat \<Rightarrow> 'a list" where
  "swap_at xs i j = xs[i := xs ! j, j := xs ! i]"

definition rc4_initial :: "u8 list" where
  "rc4_initial = map word_of_nat [0..<256]"

definition rc4_schedule_step :: "string \<Rightarrow> nat \<Rightarrow> u8 list \<times> nat \<Rightarrow> u8 list \<times> nat" where
  "rc4_schedule_step key index = (\<lambda>(state, swap_index).
     let swap_index' = (swap_index + unat (state ! index) +
                        unat (char_byte (key ! (index mod length key)))) mod 256
     in (swap_at state index swap_index', swap_index'))"

definition rc4_schedule :: "string \<Rightarrow> u8 list" where
  "rc4_schedule key = fst (fold (rc4_schedule_step key) [0..<256] (rc4_initial, 0))"

fun rc4_output :: "u8 list \<Rightarrow> nat \<Rightarrow> nat \<Rightarrow> packet \<Rightarrow> packet \<times> u8 list" where
  "rc4_output state first second [] = ([], state)"
| "rc4_output state first second (byte # rest) =
     (let first' = (first + 1 + unat byte) mod 256;
          second' = (second + unat (state ! first')) mod 256;
          state' = swap_at state first' second';
          out = byte XOR state' ! ((unat (state' ! first') + unat (state' ! second')) mod 256);
          (outs, final) = rc4_output state' first' second' rest
      in (out # outs, final))"

definition rc4_transform :: "string \<Rightarrow> packet \<Rightarrow> packet option" where
  "rc4_transform key input =
     (if key = [] then None else Some (fst (rc4_output (rc4_schedule key) 0 0 input)))"

subsection \<open>The state is a permutation\<close>

lemma length_swap_at [simp]: "length (swap_at xs i j) = length xs"
  by (simp add: swap_at_def)

lemma mset_swap_at: "i < length xs \<Longrightarrow> j < length xs \<Longrightarrow> mset (swap_at xs i j) = mset xs"
  unfolding swap_at_def by (rule mset_swap)

lemma length_rc4_initial [simp]: "length rc4_initial = 256"
  by (simp add: rc4_initial_def)

lemma rc4_schedule_fold:
  assumes "\<forall>i \<in> set is. i < 256" "length state = 256"
  shows "mset (fst (fold (rc4_schedule_step key) is (state, j))) = mset state"
  using assms
proof (induction "is" arbitrary: state j)
  case Nil
  then show ?case by simp
next
  case (Cons i "is")
  then show ?case by (simp add: rc4_schedule_step_def Let_def mset_swap_at)
qed

lemma mset_rc4_schedule: "mset (rc4_schedule key) = mset rc4_initial"
  unfolding rc4_schedule_def by (rule rc4_schedule_fold) simp_all

lemma length_rc4_schedule [simp]: "length (rc4_schedule key) = 256"
  by (metis length_rc4_initial mset_rc4_schedule size_mset)

lemma rc4_output_length [simp]: "length (fst (rc4_output state i j input)) = length input"
  by (induction input arbitrary: state i j) (simp_all add: Let_def case_prod_beta)

lemma mset_rc4_output:
  "length state = 256 \<Longrightarrow> mset (snd (rc4_output state i j input)) = mset state"
  by (induction input arbitrary: state i j) (simp_all add: Let_def case_prod_beta mset_swap_at)

lemma distinct_rc4_initial: "distinct rc4_initial"
proof -
  have "unat (word_of_nat n :: u8) = n" if "n < 256" for n
    using that by (simp add: unat_of_nat)
  then have "inj_on (word_of_nat :: nat \<Rightarrow> u8) {0..<256}"
    by (metis atLeastLessThan_iff inj_onI)
  then show ?thesis by (simp add: rc4_initial_def distinct_map)
qed

text \<open>
  The cipher's state is a permutation of the 256 byte values after the key schedule and after
  any number of output bytes, and the output has the length of the input.
\<close>

theorem rc4_state_permutation:
  "distinct (rc4_schedule key) \<and> length (rc4_schedule key) = 256 \<and>
   distinct (snd (rc4_output (rc4_schedule key) 0 0 input)) \<and>
   length (snd (rc4_output (rc4_schedule key) 0 0 input)) = 256 \<and>
   length (fst (rc4_output (rc4_schedule key) 0 0 input)) = length input"
proof -
  have m: "mset (snd (rc4_output (rc4_schedule key) 0 0 input)) = mset rc4_initial"
    by (simp add: mset_rc4_output mset_rc4_schedule)
  then have "length (snd (rc4_output (rc4_schedule key) 0 0 input)) = 256"
    by (metis length_rc4_initial size_mset)
  then show ?thesis
    using m mset_rc4_schedule distinct_rc4_initial by (auto dest: mset_eq_imp_distinct_iff)
qed

end
