(* ===== verification/Random_Text.thy ===== *)
theory Random_Text
  imports KiWii_Prelude
begin

section \<open>Random text\<close>

text \<open>
  Four files draw random text from a \<^verbatim>\<open>static std::mt19937\<close> through a
  \<^verbatim>\<open>std::uniform_int_distribution\<close>. A generator is an arbitrary sequence of numbers and how many of
  them were drawn; the distribution maps the next one into its closed range. Every sequence of draws the
  code can see is one of these, so a theorem about the model holds for every seed.
\<close>

record rng =
  draws :: "nat \<Rightarrow> nat"
  drawn :: nat

definition uniform :: "nat \<Rightarrow> nat \<Rightarrow> rng \<Rightarrow> nat \<times> rng" where
  "uniform lo hi g =
     (lo + draws g (drawn g) mod (hi - lo + 1), g\<lparr>drawn := Suc (drawn g)\<rparr>)"

text \<open>\<^verbatim>\<open>for (index = 0; index < length; ++index) value += alphabet[distribution(generator)];\<close>\<close>

primrec random_chars :: "nat \<Rightarrow> string \<Rightarrow> rng \<Rightarrow> string \<times> rng" where
  "random_chars 0 alphabet g = ([], g)"
| "random_chars (Suc n) alphabet g =
     (let (d, g1) = uniform 0 (length alphabet - 1) g;
          (rest, g2) = random_chars n alphabet g1
      in (alphabet ! d # rest, g2))"

lemma random_chars_length [simp]: "length (fst (random_chars n alphabet g)) = n"
  by (induction n arbitrary: g) (simp_all add: uniform_def case_prod_beta)

lemma random_chars_set: "alphabet \<noteq> [] \<Longrightarrow> set (fst (random_chars n alphabet g)) \<subseteq> set alphabet"
proof (induction n arbitrary: g)
  case 0
  then show ?case by simp
next
  case (Suc n)
  have "draws g (drawn g) mod length alphabet < length alphabet"
    using Suc.prems by simp
  with Suc show ?case by (auto simp: uniform_def case_prod_beta)
qed

definition alnum_alphabet :: string where
  "alnum_alphabet = ''0123456789ABCDEFGHIJKLMNOPQRSTUVWXYZabcdefghijklmnopqrstuvwxyz''"

definition upper_alphabet :: string where
  "upper_alphabet = ''ABCDEFGHIJKLMNOPQRSTUVWXYZ''"

lemma alphabets_nonempty [simp]: "alnum_alphabet \<noteq> []" "upper_alphabet \<noteq> []"
  by (simp_all add: alnum_alphabet_def upper_alphabet_def)

text \<open>None of the characters that separate fields on the wire can be drawn.\<close>

lemma random_chars_notin:
  "alphabet \<noteq> [] \<Longrightarrow> c \<notin> set alphabet \<Longrightarrow> c \<notin> set (fst (random_chars n alphabet g))"
  using random_chars_set by blast

end
