(* ===== verification/Cpp_Number.thy ===== *)
theory Cpp_Number
  imports Cpp_String
begin

section \<open>Numbers as text: \<^verbatim>\<open>std::to_string\<close>, \<^verbatim>\<open>std::stoul\<close> and stream extraction\<close>

text \<open>
  The server prints counters with \<^verbatim>\<open>std::to_string\<close> and, in hexadecimal, with \<^verbatim>\<open>std::ostringstream\<close>;
  it reads numbers with \<^verbatim>\<open>std::stoul\<close> and with \<^verbatim>\<open>std::istringstream >> unsigned int\<close>. These are
  modelled with their error results: \<^verbatim>\<open>stoul\<close> throws \<^verbatim>\<open>std::invalid_argument\<close> or
  \<^verbatim>\<open>std::out_of_range\<close> and wraps a negative number, a stream sets its fail and eof bits.
\<close>

subsection \<open>Digits\<close>

definition digit_char :: "nat \<Rightarrow> char" where
  "digit_char d = ''0123456789'' ! d"

definition digit_value :: "char \<Rightarrow> nat option" where
  "digit_value c = find_index (\<lambda>d. d = c) ''0123456789''"

definition is_digit :: "char \<Rightarrow> bool" where
  "is_digit c \<longleftrightarrow> digit_value c \<noteq> None"

lemma nat_less_10_cases:
  "d < 10 \<Longrightarrow> d = 0 \<or> d = 1 \<or> d = 2 \<or> d = 3 \<or> d = 4 \<or> d = 5 \<or> d = 6 \<or> d = 7 \<or> d = 8 \<or> d = (9 :: nat)"
  by arith

lemma digit_value_digit_char [simp]: "d < 10 \<Longrightarrow> digit_value (digit_char d) = Some d"
  by (drule nat_less_10_cases) (auto simp: digit_value_def digit_char_def)

lemma is_digit_digit_char [simp]: "d < 10 \<Longrightarrow> is_digit (digit_char d)"
  by (simp add: is_digit_def)

lemma digit_value_less_10: "digit_value c = Some d \<Longrightarrow> d < 10"
  unfolding digit_value_def by (drule find_index_bound) simp

fun dec_of_nat :: "nat \<Rightarrow> string" where
  "dec_of_nat n =
     (if n < 10 then [digit_char n] else dec_of_nat (n div 10) @ [digit_char (n mod 10)])"

declare dec_of_nat.simps [simp del]

fun nat_of_digits :: "nat \<Rightarrow> string \<Rightarrow> nat" where
  "nat_of_digits a [] = a"
| "nat_of_digits a (c # cs) =
     (case digit_value c of None \<Rightarrow> a | Some d \<Rightarrow> nat_of_digits (a * 10 + d) cs)"

lemma dec_of_nat_digits: "c \<in> set (dec_of_nat n) \<Longrightarrow> is_digit c"
proof (induction n rule: dec_of_nat.induct)
  case (1 n)
  then show ?case
    by (cases "n < 10") (auto simp: dec_of_nat.simps [of n])
qed

lemma dec_of_nat_nonempty [simp]: "dec_of_nat n \<noteq> []"
  by (simp add: dec_of_nat.simps [of n])

lemma nat_of_digits_append:
  "\<forall>c \<in> set xs. is_digit c \<Longrightarrow> nat_of_digits a (xs @ ys) = nat_of_digits (nat_of_digits a xs) ys"
  by (induction a xs rule: nat_of_digits.induct) (auto simp: is_digit_def split: option.splits)

lemma nat_of_digits_dec_of_nat [simp]: "nat_of_digits 0 (dec_of_nat n) = n"
proof (induction n rule: dec_of_nat.induct)
  case (1 n)
  show ?case
  proof (cases "n < 10")
    case True
    then show ?thesis by (simp add: dec_of_nat.simps [of n])
  next
    case False
    then have "nat_of_digits 0 (dec_of_nat n) =
        nat_of_digits (nat_of_digits 0 (dec_of_nat (n div 10))) [digit_char (n mod 10)]"
      by (simp add: dec_of_nat.simps [of n] nat_of_digits_append dec_of_nat_digits)
    with False 1 show ?thesis by simp
  qed
qed

lemma dec_of_nat_inject [simp]: "dec_of_nat m = dec_of_nat n \<longleftrightarrow> m = n"
  by (metis nat_of_digits_dec_of_nat)

text \<open>\<^verbatim>\<open>std::to_string\<close> of an unsigned 64-bit counter.\<close>

definition to_string64 :: "u64 \<Rightarrow> string" where
  "to_string64 n = dec_of_nat (unat n)"

lemma to_string64_inject [simp]: "to_string64 m = to_string64 n \<longleftrightarrow> m = n"
  by (simp add: to_string64_def word_unat_eq_iff)

lemma to_string64_nonempty [simp]: "to_string64 n \<noteq> []"
  by (simp add: to_string64_def)

subsection \<open>Hexadecimal output with \<^verbatim>\<open>setw\<close> and \<^verbatim>\<open>setfill\<close>\<close>

definition hex_lower :: string where
  "hex_lower = ''0123456789abcdef''"

definition hex_upper :: string where
  "hex_upper = ''0123456789ABCDEF''"

fun hex_of_nat :: "string \<Rightarrow> nat \<Rightarrow> string" where
  "hex_of_nat digits n =
     (if n < 16 then [digits ! n] else hex_of_nat digits (n div 16) @ [digits ! (n mod 16)])"

declare hex_of_nat.simps [simp del]

definition put_padded :: "nat \<Rightarrow> char \<Rightarrow> string \<Rightarrow> string" where
  "put_padded w fill s = replicate (w - length s) fill @ s"

lemma length_hex_of_nat: "n < 16 ^ Suc k \<Longrightarrow> length (hex_of_nat digits n) \<le> Suc k"
proof (induction k arbitrary: n)
  case 0
  then show ?case by (simp add: hex_of_nat.simps)
next
  case (Suc k)
  then have "n div 16 < 16 ^ Suc k" by (simp add: less_mult_imp_div_less mult.commute)
  then show ?case using Suc.IH [of "n div 16"] by (simp add: hex_of_nat.simps [of _ n])
qed

lemma length_put_padded: "length s \<le> w \<Longrightarrow> length (put_padded w fill s) = w"
  by (simp add: put_padded_def)

lemma set_hex_of_nat: "length digits = 16 \<Longrightarrow> set (hex_of_nat digits n) \<subseteq> set digits"
proof (induction n rule: nat_less_induct)
  case (1 n)
  then show ?case by (auto simp: hex_of_nat.simps [of _ n])
qed

text \<open>Below the width, the padded text is the fixed-width one.\<close>

primrec hex_fixed :: "string \<Rightarrow> nat \<Rightarrow> nat \<Rightarrow> string" where
  "hex_fixed digits 0 n = []"
| "hex_fixed digits (Suc w) n = hex_fixed digits w (n div 16) @ [digits ! (n mod 16)]"

lemma length_hex_fixed [simp]: "length (hex_fixed digits w n) = w"
  by (induction w arbitrary: n) simp_all

lemma hex_fixed_2: "hex_fixed digits 2 n = [digits ! (n div 16 mod 16), digits ! (n mod 16)]"
  by (simp add: numeral_2_eq_2)

lemma hex_fixed_4:
  "hex_fixed digits 4 n =
   [digits ! (n div 4096 mod 16), digits ! (n div 256 mod 16), digits ! (n div 16 mod 16),
    digits ! (n mod 16)]"
proof -
  have "hex_fixed digits (Suc (Suc 2)) n =
   [digits ! (n div 4096 mod 16), digits ! (n div 256 mod 16), digits ! (n div 16 mod 16),
    digits ! (n mod 16)]"
    by (simp only: hex_fixed.simps hex_fixed_2) (simp add: div_mult2_eq [symmetric])
  then show ?thesis by simp
qed

lemma hex_fixed_zero: "hex_fixed digits w 0 = replicate w (digits ! 0)"
  by (induction w) (simp_all add: replicate_append_same)

lemma put_padded_hex:
  "n < 16 ^ Suc w \<Longrightarrow>
   put_padded (Suc w) (digits ! 0) (hex_of_nat digits n) = hex_fixed digits (Suc w) n"
proof (induction w arbitrary: n)
  case 0
  then show ?case by (simp add: put_padded_def hex_of_nat.simps)
next
  case (Suc w)
  show ?case
  proof (cases "n < 16")
    case True
    then show ?thesis
      by (simp add: put_padded_def hex_of_nat.simps [of _ n] hex_fixed_zero replicate_append_same
          flip: replicate_Suc)
  next
    case False
    have lt: "n div 16 < 16 ^ Suc w" using Suc.prems
      by (simp add: less_mult_imp_div_less mult.commute)
    have "put_padded (Suc (Suc w)) (digits ! 0) (hex_of_nat digits n) =
        put_padded (Suc w) (digits ! 0) (hex_of_nat digits (n div 16)) @ [digits ! (n mod 16)]"
      using False by (simp add: put_padded_def hex_of_nat.simps [of _ n])
    then show ?thesis using Suc.IH [OF lt] by simp
  qed
qed

lemma set_put_padded: "set (put_padded w fill s) \<subseteq> insert fill (set s)"
  by (auto simp: put_padded_def)

subsection \<open>Whitespace, signs and \<^verbatim>\<open>std::stoul\<close>\<close>

text \<open>The characters \<^verbatim>\<open>std::isspace\<close> accepts in the C locale: blank, \<^verbatim>\<open>\t \n \v \f \r\<close>.\<close>

definition is_space :: "char \<Rightarrow> bool" where
  "is_space c \<longleftrightarrow> c \<in> {CHR '' '', CHR 0x09, CHR 0x0A, CHR 0x0B, CHR 0x0C, CHR 0x0D}"

text \<open>An optional sign: whether it is a minus, and the rest.\<close>

fun take_sign :: "string \<Rightarrow> bool \<times> string" where
  "take_sign [] = (False, [])"
| "take_sign (c # cs) =
     (if c = CHR ''-'' then (True, cs) else if c = CHR ''+'' then (False, cs) else (False, c # cs))"

datatype stoul_error = Invalid_Argument | Out_Of_Range

definition stoul :: "string \<Rightarrow> stoul_error + u64" where
  "stoul s =
     (let (neg, rest) = take_sign (dropWhile is_space s);
          digits = takeWhile is_digit rest;
          v = nat_of_digits 0 digits
      in if digits = [] then Inl Invalid_Argument
         else if 2 ^ 64 \<le> v then Inl Out_Of_Range
         else Inr (if neg then - word_of_nat v else word_of_nat v))"

lemma is_space_not_digit: "is_space c \<Longrightarrow> \<not> is_digit c"
  by (auto simp: is_space_def is_digit_def digit_value_def)

lemma sign_not_digit: "c = CHR ''-'' \<or> c = CHR ''+'' \<Longrightarrow> \<not> is_digit c"
  by (auto simp: is_digit_def digit_value_def)

lemma dec_of_nat_hd: "is_digit (hd (dec_of_nat n))"
  by (metis dec_of_nat_digits dec_of_nat_nonempty hd_in_set)

lemma dropWhile_space_dec [simp]: "dropWhile is_space (dec_of_nat n @ r) = dec_of_nat n @ r"
  by (cases "dec_of_nat n") (use dec_of_nat_hd [of n] is_space_not_digit in auto)

lemma take_sign_dec [simp]: "take_sign (dec_of_nat n @ r) = (False, dec_of_nat n @ r)"
  by (cases "dec_of_nat n") (use dec_of_nat_hd [of n] sign_not_digit in auto)

lemma takeWhile_dec:
  "r = [] \<or> \<not> is_digit (hd r) \<Longrightarrow> takeWhile is_digit (dec_of_nat n @ r) = dec_of_nat n"
  by (cases r) (simp_all add: dec_of_nat_digits takeWhile_append2 takeWhile_eq_all_conv)

lemma dropWhile_dec:
  "r = [] \<or> \<not> is_digit (hd r) \<Longrightarrow> dropWhile is_digit (dec_of_nat n @ r) = r"
  by (cases r) (simp_all add: dec_of_nat_digits dropWhile_append2)

text \<open>\<^verbatim>\<open>stoul\<close> reads back what \<^verbatim>\<open>to_string\<close> prints, whatever non-digit follows.\<close>

lemma stoul_dec_of_nat:
  "n < 2 ^ 64 \<Longrightarrow> r = [] \<or> \<not> is_digit (hd r) \<Longrightarrow> stoul (dec_of_nat n @ r) = Inr (word_of_nat n)"
  by (simp add: stoul_def takeWhile_dec)

end
