(* ===== verification/Cpp_Stream.thy ===== *)
theory Cpp_Stream
  imports Cpp_Number
begin

section \<open>Extraction from \<^verbatim>\<open>std::istringstream\<close>\<close>

text \<open>
  The DNS and QR components read a dotted address with a chain of formatted extractions. The state
  of a stream is what is left to read and its fail and eof bits. Every formatted extraction first
  builds a sentry: on a stream that is not good, or that has only whitespace left, it sets the
  fail bit and leaves the variable alone. Extracting an \<^verbatim>\<open>unsigned int\<close> takes an optional sign and
  the digits that follow; with no digit it stores 0 and fails, past the range it stores the maximum
  and fails, and a minus sign negates modulo \<open>2 ^ 32\<close>.
\<close>

record istream =
  unread :: string
  failbit :: bool
  eofbit :: bool

definition istringstream :: "string \<Rightarrow> istream" where
  "istringstream s = \<lparr>unread = s, failbit = False, eofbit = False\<rparr>"

definition sentry :: "istream \<Rightarrow> bool \<times> istream" where
  "sentry st =
     (if failbit st \<or> eofbit st then (False, st\<lparr>failbit := True\<rparr>)
      else let r = dropWhile is_space (unread st)
           in if r = [] then (False, st\<lparr>unread := [], failbit := True, eofbit := True\<rparr>)
              else (True, st\<lparr>unread := r\<rparr>))"

definition read_char :: "char \<Rightarrow> istream \<Rightarrow> char \<times> istream" where
  "read_char old st =
     (let (ok, st1) = sentry st
      in if ok then (hd (unread st1), st1\<lparr>unread := tl (unread st1)\<rparr>) else (old, st1))"

definition read_uint :: "u32 \<Rightarrow> istream \<Rightarrow> u32 \<times> istream" where
  "read_uint old st =
     (let (ok, st1) = sentry st
      in if \<not> ok then (old, st1)
         else let (neg, body) = take_sign (unread st1);
                  digits = takeWhile is_digit body;
                  rest = dropWhile is_digit body;
                  v = nat_of_digits 0 digits;
                  st2 = st1\<lparr>unread := rest, eofbit := (rest = [])\<rparr>
              in if digits = [] then (0, st2\<lparr>failbit := True\<rparr>)
                 else if 2 ^ 32 \<le> v then (- 1, st2\<lparr>failbit := True\<rparr>)
                 else (if neg then - word_of_nat v else word_of_nat v, st2))"

text \<open>\<^verbatim>\<open>stream >> std::ws\<close>; its sentry does not skip whitespace.\<close>

definition skip_ws :: "istream \<Rightarrow> istream" where
  "skip_ws st =
     (if failbit st \<or> eofbit st then st\<lparr>failbit := True\<rparr>
      else let r = dropWhile is_space (unread st) in st\<lparr>unread := r, eofbit := (r = [])\<rparr>)"

text \<open>
  The chain \<^verbatim>\<open>s >> o0 >> sep >> o1 >> sep >> o2 >> sep >> o3\<close> over variables that start at 0.
\<close>

record dotted =
  octet0 :: u32
  octet1 :: u32
  octet2 :: u32
  octet3 :: u32
  separator :: char
  after :: istream

definition extract_dotted :: "string \<Rightarrow> dotted" where
  "extract_dotted address =
     (let st0 = istringstream address;
          (o0, st1) = read_uint 0 st0;
          (s0, st2) = read_char (CHR 0x00) st1;
          (o1, st3) = read_uint 0 st2;
          (s1, st4) = read_char s0 st3;
          (o2, st5) = read_uint 0 st4;
          (s2, st6) = read_char s1 st5;
          (o3, st7) = read_uint 0 st6
      in \<lparr>octet0 = o0, octet1 = o1, octet2 = o2, octet3 = o3, separator = s2, after = st7\<rparr>)"

subsection \<open>Facts about extraction\<close>

lemma sentry_nonspace:
  "\<not> failbit st \<Longrightarrow> \<not> eofbit st \<Longrightarrow> unread st = c # cs \<Longrightarrow> \<not> is_space c \<Longrightarrow> sentry st = (True, st)"
  by (cases st) (simp add: sentry_def)

lemma read_char_ok:
  "\<not> failbit st \<Longrightarrow> \<not> eofbit st \<Longrightarrow> unread st = c # cs \<Longrightarrow> \<not> is_space c \<Longrightarrow>
   read_char old st = (c, st\<lparr>unread := cs\<rparr>)"
  by (simp add: read_char_def sentry_nonspace)

lemma read_uint_dec:
  assumes st: "\<not> failbit st" "\<not> eofbit st" "unread st = dec_of_nat n @ r"
    and n: "n < 2 ^ 32" and r: "r = [] \<or> \<not> is_digit (hd r)"
  shows "read_uint old st = (word_of_nat n, st\<lparr>unread := r, eofbit := (r = [])\<rparr>)"
proof -
  have "sentry st = (True, st)"
    using st dec_of_nat_hd [of n] is_space_not_digit
    by (cases "dec_of_nat n") (auto intro: sentry_nonspace)
  moreover have "(\<forall>c \<in> set (dec_of_nat n) \<union> set r. is_digit c) \<longleftrightarrow> r = []"
    using r dec_of_nat_digits by (cases r) auto
  ultimately show ?thesis using st n r
    by (simp add: read_uint_def takeWhile_dec dropWhile_dec)
qed

text \<open>The dotted form of four octets, and what the chain reads from it.\<close>

definition dotted_text :: "nat \<Rightarrow> nat \<Rightarrow> nat \<Rightarrow> nat \<Rightarrow> string" where
  "dotted_text a b c d =
     dec_of_nat a @ ''.'' @ dec_of_nat b @ ''.'' @ dec_of_nat c @ ''.'' @ dec_of_nat d"

lemma dot_facts [simp]: "\<not> is_digit (CHR ''.'')" "\<not> is_space (CHR ''.'')"
  by (auto simp: is_space_def is_digit_def digit_value_def)

lemma extract_dotted_text:
  assumes "a < 2 ^ 32" "b < 2 ^ 32" "c < 2 ^ 32" "d < 2 ^ 32"
  shows "extract_dotted (dotted_text a b c d) =
    \<lparr>octet0 = word_of_nat a, octet1 = word_of_nat b, octet2 = word_of_nat c,
     octet3 = word_of_nat d, separator = CHR ''.'',
     after = \<lparr>unread = [], failbit = False, eofbit = True\<rparr>\<rparr>"
  using assms
  by (simp add: extract_dotted_def dotted_text_def istringstream_def Let_def
      read_char_ok read_uint_dec [where n = a] read_uint_dec [where n = b]
      read_uint_dec [where n = c] read_uint_dec [where n = d and r = "[]"])

text \<open>The first two separators do not matter, as long as the extractions stop at them.\<close>

lemma extract_dotted_seps:
  assumes "a < 2 ^ 32" "b < 2 ^ 32" "c < 2 ^ 32" "d < 2 ^ 32"
    and "\<not> is_digit s0" "\<not> is_space s0" "\<not> is_digit s1" "\<not> is_space s1"
  shows "extract_dotted
      (dec_of_nat a @ s0 # dec_of_nat b @ s1 # dec_of_nat c @ CHR ''.'' # dec_of_nat d) =
    extract_dotted (dotted_text a b c d)"
  using assms
  by (simp only: extract_dotted_text [OF assms(1-4)])
    (simp add: extract_dotted_def istringstream_def Let_def
      read_char_ok read_uint_dec [where n = a] read_uint_dec [where n = b]
      read_uint_dec [where n = c] read_uint_dec [where n = d and r = "[]"])

text \<open>A failed extraction leaves the stream failed, so no later one can hide it.\<close>

lemma sentry_failed: "failbit st \<Longrightarrow> \<not> fst (sentry st) \<and> failbit (snd (sentry st))"
  by (simp add: sentry_def)

lemma read_char_failed: "failbit st \<Longrightarrow> failbit (snd (read_char old st))"
  by (simp add: read_char_def sentry_def)

lemma read_uint_failed: "failbit st \<Longrightarrow> failbit (snd (read_uint old st))"
  by (simp add: read_uint_def sentry_def)

end
