(* ===== verification/Qr.thy ===== *)
theory Qr
  imports Base64 Rc4 Random_Text Cpp_Stream
begin

section \<open>The QR protocol (\<^verbatim>\<open>src/gamespy_qr.cpp\<close>)\<close>

text \<open>
  Recognisers and builders of the GameSpy QR packets. A packet is a byte vector; the readers use the
  checked accesses of the prelude. The random part of a challenge comes from the generator of
  \<open>Random_Text\<close>; the address is read with the stream extractions of \<open>Cpp_Stream\<close>.
\<close>

definition availability_command :: u8 where "availability_command = 0x09"
definition heartbeat_command :: u8 where "heartbeat_command = 0x03"
definition zero_session_id :: "u8 list" where "zero_session_id = [0x00, 0x00, 0x00, 0x00]"

text \<open>The array \<^verbatim>\<open>char game_name[]\<close> with its terminating zero.\<close>

definition qr_game_name :: string where "qr_game_name = ''mariokartwii''"
definition game_name_array :: "u8 list" where "game_name_array = str_bytes qr_game_name @ [0]"

definition challenge_text :: "rng \<Rightarrow> string \<times> rng" where
  "challenge_text g = random_chars 6 upper_alphabet g"

subsection \<open>Recognisers and readers\<close>

definition is_mariokartwii_availability_request :: "packet \<Rightarrow> bool option" where
  "is_mariokartwii_availability_request packet =
     (let expected_size = 1 + length zero_session_id + length game_name_array
      in if length packet \<noteq> expected_size then Some False
         else do {
           command \<leftarrow> rd packet 0;
           (if command \<noteq> availability_command then Some False
            else do {
              session \<leftarrow> iter_range packet 1 (1 + length zero_session_id);
              (if session \<noteq> zero_session_id then Some False
               else do {
                 game \<leftarrow> iter_range packet 5 (5 + length game_name_array);
                 Some (game = game_name_array)
               })
            })
         })"

definition is_mariokartwii_heartbeat :: "packet \<Rightarrow> bool option" where
  "is_mariokartwii_heartbeat packet =
     (if length packet < 5 then Some False
      else do {
        command \<leftarrow> rd packet 0;
        (if command \<noteq> heartbeat_command then Some False
         else do {
           body \<leftarrow> iter_range packet 5 (length packet);
           let payload = bytes_str body;
               local_ip_marker = ''localip0'' @ [CHR 0x00];
               game_name_marker = ''gamename'' @ [CHR 0x00] @ qr_game_name @ [CHR 0x00]
           in Some (str_find payload local_ip_marker 0 = Some 0 \<and>
                    str_find payload game_name_marker 0 \<noteq> None)
         })
      })"

definition qr_session_id :: "packet \<Rightarrow> u32 option" where
  "qr_session_id packet =
     (if length packet < 5 then Some 0
      else do {
        b1 \<leftarrow> rd packet 1;
        b2 \<leftarrow> rd packet 2;
        b3 \<leftarrow> rd packet 3;
        b4 \<leftarrow> rd packet 4;
        Some (le_u32 b1 b2 b3 b4)
      })"

definition qr_field_value :: "packet \<Rightarrow> string \<Rightarrow> string option" where
  "qr_field_value packet key =
     (if length packet \<le> 5 then Some []
      else do {
        body \<leftarrow> iter_range packet 5 (length packet);
        let payload = bytes_str body;
            marker = key @ [CHR 0x00]
        in (case str_find payload marker 0 of
              None \<Rightarrow> Some []
            | Some value_start \<Rightarrow>
                let first = value_start + length marker;
                    value_end = str_find payload [CHR 0x00] first
                in str_substr payload first (count_to value_end first))
      })"

subsection \<open>Builders\<close>

definition availability_response :: packet where
  "availability_response = [0xfe, 0xfd, 0x09, 0x00, 0x00, 0x00, 0x00]"

text \<open>The challenge string: six letters, two zeros, and address and port in upper-case hexadecimal.\<close>

definition qr_challenge_string :: "string \<Rightarrow> string \<Rightarrow> u16 \<Rightarrow> string" where
  "qr_challenge_string letters address port =
     (let a = extract_dotted address;
          hex = \<lambda>w v. put_padded w (CHR ''0'') (hex_of_nat hex_upper v)
      in letters @ ''00'' @ hex 2 (unat (octet0 a)) @ hex 2 (unat (octet1 a)) @
         hex 2 (unat (octet2 a)) @ hex 2 (unat (octet3 a)) @ hex 4 (unat port))"

definition qr_challenge_response :: "u32 \<Rightarrow> string \<Rightarrow> u16 \<Rightarrow> rng \<Rightarrow> packet \<times> rng" where
  "qr_challenge_response session_id address port g =
     (let (letters, g') = challenge_text g;
          challenge_value = qr_challenge_string letters address port
      in ([0xfe, 0xfd, 0x01] @ u32_le session_id @ str_bytes challenge_value @ [0x00], g'))"

definition qr_registered_response :: "u32 \<Rightarrow> packet" where
  "qr_registered_response session_id = [0xfe, 0xfd, 0x0a] @ u32_le session_id"

definition qr_expected :: "string \<Rightarrow> string \<Rightarrow> string option" where
  "qr_expected challenge secret_key = do {
     encrypted \<leftarrow> rc4_transform secret_key (str_bytes challenge);
     Some (qr_base64_encode (encrypted @ [0x00]))
   }"

definition qr_challenge_matches :: "packet \<Rightarrow> string \<Rightarrow> string \<Rightarrow> bool option" where
  "qr_challenge_matches packet challenge secret_key =
     (if length packet < 7 then Some False
      else do {
        command \<leftarrow> rd packet 0;
        (if command \<noteq> 0x01 \<or> secret_key = [] then Some False
         else do {
           expected \<leftarrow> qr_expected challenge secret_key;
           final \<leftarrow> rd packet (length packet - 1);
           let response_end = (if final = 0x00 then length packet - 1 else length packet)
           in do {
             response \<leftarrow> iter_range packet 5 response_end;
             Some (bytes_str response = expected)
           }
         })
      })"

definition qr_client_challenge_response :: "u32 \<Rightarrow> string \<Rightarrow> string \<Rightarrow> packet option" where
  "qr_client_challenge_response session_id challenge secret_key =
     (if secret_key = [] then Some []
      else do {
        encoded \<leftarrow> qr_expected challenge secret_key;
        Some ([0x01] @ u32_le session_id @ str_bytes encoded @ [0x00])
      })"

subsection \<open>No reader leaves the packet\<close>

lemma availability_request_iff:
  "is_mariokartwii_availability_request packet =
   Some (packet = [availability_command] @ zero_session_id @ game_name_array)"
proof (cases "length packet = 18")
  case False
  then show ?thesis
    by (auto simp: is_mariokartwii_availability_request_def zero_session_id_def
        game_name_array_def qr_game_name_def)
next
  case True
  then have parts: "packet = [packet ! 0] @ take 4 (drop 1 packet) @ take 13 (drop 5 packet)"
    by (intro nth_equalityI) (auto simp: nth_append nth_Cons')
  have lens: "length zero_session_id = 4" "length game_name_array = 13"
    by (simp_all add: zero_session_id_def game_name_array_def qr_game_name_def)
  have "packet = [availability_command] @ zero_session_id @ game_name_array \<longleftrightarrow>
      packet ! 0 = availability_command \<and> take 4 (drop 1 packet) = zero_session_id \<and>
      take 13 (drop 5 packet) = game_name_array"
  proof
    assume p: "packet = [availability_command] @ zero_session_id @ game_name_array"
    show "packet ! 0 = availability_command \<and> take 4 (drop 1 packet) = zero_session_id \<and>
      take 13 (drop 5 packet) = game_name_array"
      unfolding p using lens by simp
  next
    assume "packet ! 0 = availability_command \<and> take 4 (drop 1 packet) = zero_session_id \<and>
      take 13 (drop 5 packet) = game_name_array"
    then show "packet = [availability_command] @ zero_session_id @ game_name_array"
      using parts by metis
  qed
  with True lens show ?thesis
    by (simp add: is_mariokartwii_availability_request_def rd_in iter_range_in)
qed

lemma heartbeat_eq:
  "is_mariokartwii_heartbeat packet =
   Some (5 \<le> length packet \<and> packet ! 0 = heartbeat_command \<and>
     prefix (''localip0'' @ [CHR 0x00]) (bytes_str (drop 5 packet)) \<and>
     sublist (''gamename'' @ [CHR 0x00] @ qr_game_name @ [CHR 0x00]) (bytes_str (drop 5 packet)))"
proof (cases "length packet < 5")
  case True
  then show ?thesis by (simp add: is_mariokartwii_heartbeat_def)
next
  case False
  then have "rd packet 0 = Some (packet ! 0)" by (intro rd_in) linarith
  with False show ?thesis
    by (simp add: is_mariokartwii_heartbeat_def iter_range_in Let_def find_sub_0_iff
        sublist_find_sub)
qed

lemma qr_session_id_eq:
  "qr_session_id packet =
   Some (if length packet < 5 then 0
         else le_u32 (packet ! 1) (packet ! 2) (packet ! 3) (packet ! 4))"
  by (simp add: qr_session_id_def rd_in)

lemma qr_session_id_le:
  "qr_session_id ([command] @ u32_le session_id @ rest) = Some session_id"
  by (simp add: qr_session_id_eq u32_le_def le_u32_u32_le)

lemma qr_field_value_total: "\<exists>v. qr_field_value packet key = Some v"
proof (cases "length packet \<le> 5")
  case True
  then show ?thesis by (simp add: qr_field_value_def)
next
  case False
  then show ?thesis
    using str_find_bound [of "bytes_str (drop 5 packet)" "key @ [CHR 0x00]" 0]
    by (auto simp: qr_field_value_def iter_range_in Let_def str_substr_in split: option.splits)
qed

lemma qr_expected_eq:
  "secret_key \<noteq> [] \<Longrightarrow> qr_expected challenge secret_key =
   Some (qr_base64_encode (fst (rc4_output (rc4_schedule secret_key) 0 0 (str_bytes challenge)) @ [0]))"
  by (simp add: qr_expected_def rc4_transform_def)

lemma qr_expected_chars:
  "qr_expected challenge secret_key = Some e \<Longrightarrow>
   set e \<subseteq> insert (CHR ''='') (set base64_alphabet) \<and> 4 \<le> length e"
  using qr64.enc_chars qr64.enc_length
  by (auto simp: qr_expected_def rc4_transform_def split: if_splits)

lemma qr_expected_no_nul:
  "qr_expected challenge secret_key = Some e \<Longrightarrow> CHR 0x00 \<notin> set e"
  using qr_expected_chars base64_alphabet_facts(5) by fastforce

text \<open>A response with at most one closing zero byte removed.\<close>

definition strip_nul :: "packet \<Rightarrow> packet" where
  "strip_nul p = (if p \<noteq> [] \<and> last p = 0 then butlast p else p)"

lemma qr_challenge_matches_eq:
  "qr_challenge_matches packet challenge secret_key =
   Some (7 \<le> length packet \<and> packet ! 0 = 1 \<and> secret_key \<noteq> [] \<and>
     Some (bytes_str (strip_nul (drop 5 packet))) = qr_expected challenge secret_key)"
proof (cases "7 \<le> length packet \<and> packet ! 0 = 1 \<and> secret_key \<noteq> []")
  case False
  have "rd packet 0 = Some (packet ! 0)" if "7 \<le> length packet"
    using that by (intro rd_in) linarith
  with False show ?thesis by (auto simp: qr_challenge_matches_def)
next
  case True
  have "packet \<noteq> []" using True by auto
  then have l: "last (drop 5 packet) = packet ! (length packet - 1)"
    using True by (simp add: last_drop last_conv_nth)
  have t: "take (length packet - 1 - 5) (drop 5 packet) = butlast (drop 5 packet)"
    by (simp add: butlast_conv_take)
  have r: "rd packet 0 = Some (packet ! 0)" "rd packet (length packet - 1) = Some (last packet)"
    using \<open>packet \<noteq> []\<close> by (simp_all add: rd_in last_conv_nth)
  have "iter_range packet 5 (length packet - 1) = Some (butlast (drop 5 packet))"
    using True t by (subst iter_range_in) auto
  then show ?thesis
    using True l r
    by (simp add: qr_challenge_matches_def iter_range_in strip_nul_def qr_expected_eq)
qed

subsection \<open>Fields of a heartbeat\<close>

text \<open>
  The payload of a heartbeat is a sequence of zero-terminated tokens. The search for \<open>key\<close> followed by a
  zero byte stops at the first token that \<^emph>\<open>ends in\<close> the key, and the value is the token after it.
\<close>

definition nul_tokens :: "string list \<Rightarrow> string" where
  "nul_tokens ts = concat (map (\<lambda>t. t @ [CHR 0x00]) ts)"

lemma nul_tokens_simps [simp]:
  "nul_tokens [] = []" "nul_tokens (t # ts) = t @ CHR 0x00 # nul_tokens ts"
  by (simp_all add: nul_tokens_def)

lemma qr_field_value_eq:
  "qr_field_value packet key =
   Some (field_after (key @ [CHR 0x00]) (CHR 0x00) (bytes_str (drop 5 packet)))"
proof (cases "length packet \<le> 5")
  case True
  then show ?thesis by (simp add: qr_field_value_def field_after_def)
next
  case False
  then show ?thesis
    by (auto simp: qr_field_value_def iter_range_in Let_def field_after_def str_substr_until
        dest: find_sub_bound split: option.splits)
qed

lemma takeWhile_nul_tokens:
  "\<forall>t \<in> set ts. CHR 0x00 \<notin> set t \<Longrightarrow>
   takeWhile (\<lambda>d. d \<noteq> CHR 0x00) (nul_tokens ts) = (case ts of [] \<Rightarrow> [] | t # _ \<Rightarrow> t)"
  by (cases ts) (auto simp: takeWhile_append takeWhile_eq_all_conv)

lemma field_after_nul_tokens:
  "CHR 0x00 \<notin> set key \<Longrightarrow> \<forall>t \<in> set ts. CHR 0x00 \<notin> set t \<Longrightarrow>
   field_after (key @ [CHR 0x00]) (CHR 0x00) (nul_tokens ts) = value_after (suffix key) ts"
proof (induction ts)
  case Nil
  then show ?case by (simp add: field_after_def)
next
  case (Cons t ts)
  have drop: "drop (length t - length key + Suc (length key)) (t @ CHR 0x00 # nul_tokens ts) =
      nul_tokens ts" if "suffix key t"
    using suffix_length_le [OF that] by simp
  have rec: "field_after (key @ [CHR 0x00]) (CHR 0x00) (t @ CHR 0x00 # nul_tokens ts) =
      field_after (key @ [CHR 0x00]) (CHR 0x00) (nul_tokens ts)" if "\<not> suffix key t"
    using that Cons.prems
    by (auto simp: field_after_def find_marker_token split: option.splits)
  show ?case
  proof (cases "suffix key t")
    case True
    with Cons.prems drop show ?thesis
      by (cases ts) (simp_all add: field_after_def find_marker_token takeWhile_append
          takeWhile_eq_all_conv)
  next
    case False
    with Cons rec show ?thesis by (cases ts) simp_all
  qed
qed

subsection \<open>Challenges\<close>

lemma hex_upper_facts [simp]:
  "length hex_upper = 16" "hex_upper ! 0 = CHR ''0''" "CHR 0x00 \<notin> set hex_upper"
  by (simp_all add: hex_upper_def)

lemma padded_hex_no_nul: "CHR 0x00 \<notin> set (put_padded w (CHR ''0'') (hex_of_nat hex_upper v))"
  using set_put_padded [of w "CHR ''0''" "hex_of_nat hex_upper v"] set_hex_of_nat [of hex_upper v]
  by auto

lemma challenge_text_chars: "set (fst (challenge_text g)) \<subseteq> set upper_alphabet"
  by (simp add: challenge_text_def random_chars_set)

lemma challenge_string_no_nul:
  "CHR 0x00 \<notin> set letters \<Longrightarrow> CHR 0x00 \<notin> set (qr_challenge_string letters address port)"
  by (simp add: qr_challenge_string_def Let_def padded_hex_no_nul)

lemma challenge_text_no_nul: "CHR 0x00 \<notin> set (fst (challenge_text g))"
  using challenge_text_chars [of g] by (auto simp: upper_alphabet_def)

lemma put_padded_hex_upper:
  "n < 16 ^ Suc w \<Longrightarrow>
   put_padded (Suc w) (CHR ''0'') (hex_of_nat hex_upper n) = hex_fixed hex_upper (Suc w) n"
  using put_padded_hex [of n w hex_upper] by simp

lemma qr_challenge_string_dotted:
  assumes "a \<le> 255" "b \<le> 255" "c \<le> 255" "d \<le> 255"
  shows "qr_challenge_string letters (dotted_text a b c d) port =
    letters @ ''00'' @ hex_fixed hex_upper 2 a @ hex_fixed hex_upper 2 b @
    hex_fixed hex_upper 2 c @ hex_fixed hex_upper 2 d @ hex_fixed hex_upper 4 (unat port)"
proof -
  have "put_padded 2 (CHR ''0'') (hex_of_nat hex_upper n) = hex_fixed hex_upper 2 n" if "n \<le> 255" for n
    using that put_padded_hex_upper [of n 1] by (simp add: numeral_2_eq_2)
  moreover have "unat port < 2 ^ LENGTH(16)" by (rule unsigned_less)
  then have "put_padded 4 (CHR ''0'') (hex_of_nat hex_upper (unat port)) =
      hex_fixed hex_upper 4 (unat port)"
    using put_padded_hex_upper [of "unat port" 3] by simp
  moreover have "unat (word_of_nat n :: u32) = n" if "n \<le> 255" for n
    using that by (simp add: unat_of_nat)
  ultimately show ?thesis using assms
    by (simp add: qr_challenge_string_def extract_dotted_text Let_def)
qed

subsection \<open>Properties\<close>

text \<open>
  No reader of a QR packet leaves the packet, whatever bytes arrive; and each computes its
  specification: the availability request is one exact packet, a heartbeat is recognised by its command,
  its first field and the game name, the session id is the little-endian word after the command, and a
  challenge response matches exactly when the payload after the session id, less one closing zero byte,
  is the base64 text of the encrypted challenge.
\<close>

theorem qr_readers_total:
  "is_mariokartwii_availability_request packet =
     Some (packet = [availability_command] @ zero_session_id @ game_name_array) \<and>
   is_mariokartwii_heartbeat packet =
     Some (5 \<le> length packet \<and> packet ! 0 = heartbeat_command \<and>
       prefix (''localip0'' @ [CHR 0x00]) (bytes_str (drop 5 packet)) \<and>
       sublist (''gamename'' @ [CHR 0x00] @ qr_game_name @ [CHR 0x00])
         (bytes_str (drop 5 packet))) \<and>
   qr_session_id packet =
     Some (if length packet < 5 then 0
           else le_u32 (packet ! 1) (packet ! 2) (packet ! 3) (packet ! 4)) \<and>
   qr_challenge_matches packet challenge secret_key =
     Some (7 \<le> length packet \<and> packet ! 0 = 1 \<and> secret_key \<noteq> [] \<and>
       Some (bytes_str (strip_nul (drop 5 packet))) = qr_expected challenge secret_key)"
  by (intro conjI availability_request_iff heartbeat_eq qr_session_id_eq qr_challenge_matches_eq)

text \<open>
  In a heartbeat whose payload is a sequence of zero-terminated tokens, a field is the token after
  the first token that ends in the key. (So a field whose name merely ends in the key, or a value that
  does, shadows the field itself.)
\<close>

theorem qr_field_of_tokens:
  assumes "length header = 5" and "CHR 0x00 \<notin> set key" and "\<forall>t \<in> set ts. CHR 0x00 \<notin> set t"
  shows "qr_field_value (header @ str_bytes (nul_tokens ts)) key = Some (value_after (suffix key) ts)"
  using assms by (simp add: qr_field_value_eq field_after_nul_tokens comp_def)

theorem qr_field_of_tokens_witness:
  "qr_field_value ([0x03, 0xef, 0x95, 0x37, 0x05] @
     str_bytes (nul_tokens [''statechanged'', ''1'', ''gamename'', ''mariokartwii''])) ''gamename'' =
   Some ''mariokartwii''"
  using qr_field_of_tokens [of "[0x03, 0xef, 0x95, 0x37, 0x05]" "''gamename''"
      "[''statechanged'', ''1'', ''gamename'', ''mariokartwii'']"]
  by (simp add: suffix_def)

text \<open>
  The response a client builds for a challenge is accepted for that challenge and session: every
  challenge text, session id and non-empty secret round-trips through the cipher, the encoder and the
  packet layout.
\<close>

theorem qr_challenge_roundtrip:
  assumes "secret_key \<noteq> []"
  shows "\<exists>response. qr_client_challenge_response session_id challenge secret_key = Some response \<and>
    qr_challenge_matches response challenge secret_key = Some True \<and>
    qr_session_id response = Some session_id"
proof -
  obtain e where e: "qr_expected challenge secret_key = Some e"
    using qr_expected_eq [OF assms] by blast
  define r where "r = [0x01] @ u32_le session_id @ str_bytes e @ [0x00]"
  have "drop 5 r = str_bytes e @ [0]" by (simp add: r_def u32_le_def)
  moreover have "7 \<le> length r" using qr_expected_chars [OF e] by (simp add: r_def)
  ultimately have "qr_challenge_matches r challenge secret_key = Some True"
    using e assms by (simp add: qr_challenge_matches_eq strip_nul_def r_def comp_def)
  moreover have "qr_session_id r = Some session_id"
    unfolding r_def by (rule qr_session_id_le)
  ultimately show ?thesis
    using e assms by (intro exI [of _ r]) (simp add: qr_client_challenge_response_def r_def)
qed

theorem qr_challenge_roundtrip_witness:
  "\<exists>response. qr_client_challenge_response 0x053795ef ''ABCDEF00C0A80154ECC9'' ''9r3Rmy'' = Some response \<and>
    qr_challenge_matches response ''ABCDEF00C0A80154ECC9'' ''9r3Rmy'' = Some True \<and>
    qr_session_id response = Some 0x053795ef"
  by (rule qr_challenge_roundtrip) simp

text \<open>
  The challenge for a client at a dotted address is a 28-byte packet: a fixed prefix, the
  session id, six random letters, two zeros, the four octets and the port as fixed-width upper-case
  hexadecimal, and one closing zero byte, the only one in the challenge text.
\<close>

theorem qr_challenge_layout:
  assumes "a \<le> 255" "b \<le> 255" "c \<le> 255" "d \<le> 255"
  shows "\<exists>letters. length letters = 6 \<and> set letters \<subseteq> set upper_alphabet \<and>
    fst (qr_challenge_response session_id (dotted_text a b c d) port g) =
      [0xfe, 0xfd, 0x01] @ u32_le session_id @
      str_bytes (letters @ ''00'' @ hex_fixed hex_upper 2 a @ hex_fixed hex_upper 2 b @
        hex_fixed hex_upper 2 c @ hex_fixed hex_upper 2 d @ hex_fixed hex_upper 4 (unat port)) @ [0] \<and>
    length (fst (qr_challenge_response session_id (dotted_text a b c d) port g)) = 28 \<and>
    CHR 0x00 \<notin> set (qr_challenge_string letters (dotted_text a b c d) port)"
proof (intro exI conjI)
  show "CHR 0x00 \<notin> set (qr_challenge_string (fst (challenge_text g)) (dotted_text a b c d) port)"
    by (intro challenge_string_no_nul challenge_text_no_nul)
qed (use assms challenge_text_chars in \<open>simp_all add: qr_challenge_response_def case_prod_beta
    qr_challenge_string_dotted challenge_text_def random_chars_set\<close>)

theorem qr_challenge_layout_witness:
  "\<exists>letters. length letters = 6 \<and>
    fst (qr_challenge_response 0x053795ef (dotted_text 192 168 1 84) 60617
      \<lparr>draws = (\<lambda>n. n * n), drawn = 3\<rparr>) =
    [0xfe, 0xfd, 0x01] @ u32_le 0x053795ef @ str_bytes (letters @ ''00C0A80154ECC9'') @ [0]"
  using qr_challenge_layout [of 192 168 1 84 "0x053795ef" 60617 "\<lparr>draws = (\<lambda>n. n * n), drawn = 3\<rparr>"]
  by (auto simp: hex_fixed_2 hex_fixed_4 hex_upper_def)

end
