(* ===== verification/Cpp_Containers.thy ===== *)
theory Cpp_Containers
  imports KiWii_Prelude "HOL-Library.AList"
begin

section \<open>\<^verbatim>\<open>std::unordered_map\<close> and \<^verbatim>\<open>std::map\<close>\<close>

text \<open>
  Both associative containers are lists of key/value pairs with distinct keys. The order in which
  an unordered map is walked is not specified: the list records the insertions, and every model of a
  loop over such a map takes a parameter of the type \<open>layout\<close>, an arbitrary rearrangement of the
  entries, so that a theorem holds for every order. A \<^verbatim>\<open>std::map\<close> is walked by increasing key and
  its list is sorted.

  The locale \<open>assoc_container\<close> states what a client relies on: the laws of lookup after
  assignment and erasure, and that walking the container visits each binding once. The loops that
  erase while they walk are proved correct once, inside it.
\<close>

type_synonym ('k, 'v) umap = "('k \<times> 'v) list"

typedef ('k, 'v) layout =
  "{f :: ('k \<times> 'v) list \<Rightarrow> ('k \<times> 'v) list. \<forall>xs. mset (f xs) = mset xs}"
  morphisms walk Layout
  by (rule exI [of _ "\<lambda>xs. xs"]) simp

setup_lifting type_definition_layout

lift_definition insertion_order :: "('k, 'v) layout" is "\<lambda>xs. xs"
  by simp

lift_definition reverse_order :: "('k, 'v) layout" is rev
  by simp

lemma walk_insertion_order [simp]: "walk insertion_order xs = xs"
  by transfer simp

lemma walk_reverse_order [simp]: "walk reverse_order xs = rev xs"
  by transfer simp

lemma mset_walk [simp]: "mset (walk lay xs) = mset xs"
  using walk [of lay] by simp

lemma set_walk [simp]: "set (walk lay xs) = set xs"
  by (metis mset_walk set_mset_mset)

lemma distinct_keys_walk [simp]: "distinct (map fst (walk lay xs)) \<longleftrightarrow> distinct (map fst xs)"
  by (metis mset_eq_imp_distinct_iff mset_map mset_walk)

definition um_find :: "('k, 'v) umap \<Rightarrow> 'k \<Rightarrow> 'v option" where
  "um_find m k = map_of m k"

definition um_set :: "'k \<Rightarrow> 'v \<Rightarrow> ('k, 'v) umap \<Rightarrow> ('k, 'v) umap" where
  "um_set k v m = AList.update k v m"

definition um_emplace :: "'k \<Rightarrow> 'v \<Rightarrow> ('k, 'v) umap \<Rightarrow> ('k, 'v) umap" where
  "um_emplace k v m = (if um_find m k = None then um_set k v m else m)"

definition um_erase :: "'k \<Rightarrow> ('k, 'v) umap \<Rightarrow> ('k, 'v) umap" where
  "um_erase k m = filter (\<lambda>e. fst e \<noteq> k) m"

definition um_valid :: "('k, 'v) umap \<Rightarrow> bool" where
  "um_valid m \<longleftrightarrow> distinct (map fst m)"

text \<open>A \<^verbatim>\<open>std::map\<close>: the entries by increasing key.\<close>

type_synonym ('k, 'v) omap = "('k \<times> 'v) list"

fun om_set :: "'k :: linorder \<Rightarrow> 'v \<Rightarrow> ('k, 'v) omap \<Rightarrow> ('k, 'v) omap" where
  "om_set k v [] = [(k, v)]"
| "om_set k v ((k', v') # m) =
     (if k < k' then (k, v) # (k', v') # m
      else if k = k' then (k, v) # m
      else (k', v') # om_set k v m)"

definition om_valid :: "('k :: linorder, 'v) omap \<Rightarrow> bool" where
  "om_valid m \<longleftrightarrow> sorted (map fst m) \<and> distinct (map fst m)"

lemma set_om_set: "fst ` set (om_set k v m) = insert k (fst ` set m)"
  by (induction k v m rule: om_set.induct) auto

lemma om_valid_om_set [simp]: "om_valid m \<Longrightarrow> om_valid (om_set k v m)"
proof (induction k v m rule: om_set.induct)
  case (1 k v)
  then show ?case by (simp add: om_valid_def)
next
  case (2 k v k' v' m)
  have "fst ` set (om_set k v m) = insert k (fst ` set m)" by (rule set_om_set)
  with 2 show ?case
    by (force simp: om_valid_def)
qed

lemma map_of_om_set: "om_valid m \<Longrightarrow> map_of (om_set k v m) = (map_of m)(k \<mapsto> v)"
proof (induction k v m rule: om_set.induct)
  case (1 k v)
  then show ?case by simp
next
  case (2 k v k' v' m)
  then show ?case by (auto simp: om_valid_def fun_eq_iff)
qed

lemma om_valid_erase [simp]: "om_valid m \<Longrightarrow> om_valid (um_erase k m)"
proof -
  assume "om_valid m"
  then have "sorted (filter (\<lambda>x. x \<noteq> k) (map fst m))" "distinct (filter (\<lambda>x. x \<noteq> k) (map fst m))"
    unfolding om_valid_def by (auto intro: sorted_filter [where f = id, simplified])
  then show ?thesis
    by (simp add: om_valid_def um_erase_def filter_map comp_def)
qed

text \<open>Erasing, while walking over the entries \<open>es\<close>, every binding that satisfies a test.\<close>

fun erase_walk ::
  "('k \<Rightarrow> 'm \<Rightarrow> 'm) \<Rightarrow> ('k \<times> 'v \<Rightarrow> bool) \<Rightarrow> ('k \<times> 'v) list \<Rightarrow> 'm \<Rightarrow> 'm" where
  "erase_walk er P [] m = m"
| "erase_walk er P (e # es) m = erase_walk er P es (if P e then er (fst e) m else m)"

subsection \<open>The interface\<close>

locale assoc_container =
  fixes find_in :: "'m \<Rightarrow> 'k \<Rightarrow> 'v option"
    and set_in :: "'k \<Rightarrow> 'v \<Rightarrow> 'm \<Rightarrow> 'm"
    and erase_in :: "'k \<Rightarrow> 'm \<Rightarrow> 'm"
    and entries :: "'m \<Rightarrow> ('k \<times> 'v) list"
    and empty_in :: "'m"
    and valid :: "'m \<Rightarrow> bool"
  assumes valid_empty: "valid empty_in"
    and find_empty: "find_in empty_in k = None"
    and valid_set: "valid m \<Longrightarrow> valid (set_in k v m)"
    and valid_erase: "valid m \<Longrightarrow> valid (erase_in k m)"
    and find_set: "valid m \<Longrightarrow> find_in (set_in k v m) = (find_in m)(k \<mapsto> v)"
    and find_erase: "valid m \<Longrightarrow> find_in (erase_in k m) = (find_in m)(k := None)"
    and entries_find: "valid m \<Longrightarrow> map_of (entries m) = find_in m"
    and entries_distinct: "valid m \<Longrightarrow> distinct (map fst (entries m))"
begin

lemma find_iff_entries: "valid m \<Longrightarrow> find_in m k = Some v \<longleftrightarrow> (k, v) \<in> set (entries m)"
  by (metis entries_distinct entries_find map_of_eq_Some_iff)

lemma set_overwrites:
  "valid m \<Longrightarrow> find_in (set_in k w (set_in k v m)) = find_in (set_in k w m)"
  by (simp add: find_set valid_set)

lemma erase_after_set:
  "valid m \<Longrightarrow> find_in m k = None \<Longrightarrow> find_in (erase_in k (set_in k v m)) = find_in m"
  by (auto simp: find_set find_erase valid_set fun_eq_iff)

lemma erase_walk_valid: "valid m \<Longrightarrow> valid (erase_walk erase_in P es m)"
  by (induction es arbitrary: m) (auto simp: valid_erase)

lemma erase_walk_find:
  "valid m \<Longrightarrow> find_in (erase_walk erase_in P es m) k =
     (if \<exists>x. (k, x) \<in> set es \<and> P (k, x) then None else find_in m k)"
proof (induction es arbitrary: m)
  case Nil
  then show ?case by simp
next
  case (Cons e es)
  then show ?case by (cases e) (auto simp: valid_erase find_erase)
qed

text \<open>Whatever the order of the walk, exactly the bindings that fail the test survive.\<close>

lemma erase_walk_all:
  assumes v: "valid m" and es: "set es = set (entries m)"
  shows "find_in (erase_walk erase_in P es m) k =
    (case find_in m k of None \<Rightarrow> None | Some x \<Rightarrow> if P (k, x) then None else Some x)"
  using v es by (auto simp: erase_walk_find simp flip: find_iff_entries split: option.splits)

end

locale ordered_container = assoc_container find_in set_in erase_in entries empty_in valid
  for find_in :: "'m \<Rightarrow> 'k :: linorder \<Rightarrow> 'v option" and set_in and erase_in and entries
    and empty_in and valid +
  assumes entries_sorted: "valid m \<Longrightarrow> sorted (map fst (entries m))"
begin

text \<open>With two bindings, the first one visited has the smaller key.\<close>

lemma two_entries:
  assumes "valid m" "entries m = [e, f]"
  shows "fst e < fst f" "find_in m (fst e) = Some (snd e)" "find_in m (fst f) = Some (snd f)"
proof -
  show "fst e < fst f"
    using assms entries_sorted [of m] entries_distinct [of m] by (auto simp: order_less_le)
  show "find_in m (fst e) = Some (snd e)" "find_in m (fst f) = Some (snd f)"
    using assms by (auto simp: find_iff_entries)
qed

end

lemma um_find_erase: "um_find (um_erase k m) = (um_find m)(k := None)"
  by (simp add: um_find_def [abs_def] um_erase_def map_of_filter_key)

lemma um_find_set: "um_find (um_set k v m) = (um_find m)(k \<mapsto> v)"
  by (simp add: um_find_def [abs_def] um_set_def update_conv' fun_eq_iff)

interpretation um: assoc_container um_find um_set um_erase "\<lambda>m. m" "[]" um_valid
  by unfold_locales
    (auto simp: um_erase_def map_of_filter_key distinct_map_filter distinct_update
      um_valid_def um_find_def [abs_def] um_set_def update_conv' fun_eq_iff)

interpretation om: ordered_container um_find om_set um_erase "\<lambda>m. m" "[]" om_valid
  by unfold_locales
    (simp_all add: um_find_erase, simp_all add: um_find_def [abs_def] map_of_om_set,
      simp_all add: om_valid_def)

end
