(* ===== verification/Sessions.thy ===== *)
theory Sessions
  imports Cpp_Containers
begin

section \<open>The registry of online sessions (\<^verbatim>\<open>src/gamespy_sessions.cpp\<close>)\<close>

text \<open>
  Two unordered maps under one mutex: the sessions by their id, and when each was last seen. Every
  operation holds the mutex from its first to its last access, so it is one step on the pair. Time is
  the steady clock in nanoseconds. The locale \<open>session_registry\<close> is the contract the QR handler and
  the player search rely on: what a live session is and how each operation changes it.
\<close>

record online_session =
  os_session_id :: u32
  os_profile_id :: string
  os_unique_nick :: string
  os_game_name :: string
  os_address :: string
  os_port :: u16

record session_store =
  online_sessions :: "(u32, online_session) umap"
  last_seen :: "(u32, int) umap"

definition no_sessions :: session_store where
  "no_sessions = \<lparr>online_sessions = [], last_seen = []\<rparr>"

text \<open>\<^verbatim>\<open>std::chrono::seconds\<close> as clock ticks.\<close>

definition seconds :: "int \<Rightarrow> int" where
  "seconds n = n * 1000000000"

definition upsert_online_session :: "int \<Rightarrow> online_session \<Rightarrow> session_store \<Rightarrow> session_store" where
  "upsert_online_session now session st =
     st\<lparr>online_sessions := um_set (os_session_id session) session (online_sessions st),
        last_seen := um_set (os_session_id session) now (last_seen st)\<rparr>"

definition touch_online_session :: "int \<Rightarrow> u32 \<Rightarrow> session_store \<Rightarrow> session_store" where
  "touch_online_session now session_id st =
     (if um_find (online_sessions st) session_id \<noteq> None
      then st\<lparr>last_seen := um_set session_id now (last_seen st)\<rparr> else st)"

definition remove_online_session :: "u32 \<Rightarrow> session_store \<Rightarrow> session_store" where
  "remove_online_session session_id st =
     st\<lparr>online_sessions := um_erase session_id (online_sessions st),
        last_seen := um_erase session_id (last_seen st)\<rparr>"

text \<open>The loop of the pruning, over the entries of \<^verbatim>\<open>last_seen\<close> in the order they are visited.\<close>

fun prune_loop :: "int \<Rightarrow> (u32 \<times> int) list \<Rightarrow> session_store \<Rightarrow> session_store" where
  "prune_loop cutoff [] st = st"
| "prune_loop cutoff ((session_id, seen) # rest) st =
     prune_loop cutoff rest
       (if seen \<le> cutoff
        then st\<lparr>online_sessions := um_erase session_id (online_sessions st),
                last_seen := um_erase session_id (last_seen st)\<rparr>
        else st)"

definition prune_online_sessions ::
  "(u32, int) layout \<Rightarrow> int \<Rightarrow> int \<Rightarrow> session_store \<Rightarrow> session_store" where
  "prune_online_sessions lay now max_age st =
     (let cutoff = now - max_age in prune_loop cutoff (walk lay (last_seen st)) st)"

definition online_sessions_for_profiles ::
  "(u32, online_session) layout \<Rightarrow> string list \<Rightarrow> session_store \<Rightarrow> online_session list" where
  "online_sessions_for_profiles lay profile_ids st =
     concat (map (\<lambda>profile_id.
       concat (map (\<lambda>(session_id, session).
         if os_profile_id session = profile_id then [session] else [])
         (walk lay (online_sessions st)))) profile_ids)"

subsection \<open>The abstract registry and the invariant\<close>

definition live :: "session_store \<Rightarrow> u32 \<Rightarrow> (online_session \<times> int) option" where
  "live st session_id =
     (case um_find (online_sessions st) session_id of
        None \<Rightarrow> None
      | Some session \<Rightarrow> map_option (Pair session) (um_find (last_seen st) session_id))"

definition sessions_inv :: "session_store \<Rightarrow> bool" where
  "sessions_inv st \<longleftrightarrow>
     um_valid (online_sessions st) \<and> um_valid (last_seen st) \<and>
     dom (um_find (online_sessions st)) = dom (um_find (last_seen st)) \<and>
     (\<forall>k s. um_find (online_sessions st) k = Some s \<longrightarrow> os_session_id s = k)"

lemma sessions_inv_dom:
  "sessions_inv st \<Longrightarrow> um_find (online_sessions st) k = None \<longleftrightarrow> um_find (last_seen st) k = None"
  unfolding sessions_inv_def by (metis domIff)

lemma sessions_inv_id:
  "sessions_inv st \<Longrightarrow> um_find (online_sessions st) k = Some s \<Longrightarrow> os_session_id s = k"
  by (simp add: sessions_inv_def)

lemma live_None_iff: "sessions_inv st \<Longrightarrow> live st k = None \<longleftrightarrow> um_find (online_sessions st) k = None"
  using sessions_inv_dom [of st k] by (auto simp: live_def split: option.splits)

lemma live_Some_iff:
  "live st k = Some (s, t) \<longleftrightarrow>
   um_find (online_sessions st) k = Some s \<and> um_find (last_seen st) k = Some t"
  by (auto simp: live_def split: option.splits)

lemma inv_no_sessions [simp]: "sessions_inv no_sessions" "live no_sessions = Map.empty"
  by (auto simp: sessions_inv_def no_sessions_def live_def um.valid_empty um.find_empty
      um_find_def)

lemma inv_upsert: "sessions_inv st \<Longrightarrow> sessions_inv (upsert_online_session now s st)"
  by (auto simp: sessions_inv_def upsert_online_session_def um.valid_set um.find_set)

lemma inv_touch: "sessions_inv st \<Longrightarrow> sessions_inv (touch_online_session now k st)"
  by (auto simp: sessions_inv_def touch_online_session_def um.valid_set um.find_set)

lemma inv_remove: "sessions_inv st \<Longrightarrow> sessions_inv (remove_online_session k st)"
  by (auto simp: sessions_inv_def remove_online_session_def um.valid_erase um.find_erase
      split: if_splits)

lemma live_upsert:
  "sessions_inv st \<Longrightarrow>
   live (upsert_online_session now s st) = (live st)(os_session_id s \<mapsto> (s, now))"
  by (auto simp: sessions_inv_def upsert_online_session_def live_def um.find_set fun_eq_iff
      split: option.splits)

lemma live_touch:
  "sessions_inv st \<Longrightarrow>
   live (touch_online_session now k st) =
     (case live st k of None \<Rightarrow> live st | Some (s, _) \<Rightarrow> (live st)(k \<mapsto> (s, now)))"
  using sessions_inv_dom [of st k]
  by (auto simp: sessions_inv_def touch_online_session_def live_def um.find_set fun_eq_iff
      split: option.splits)

lemma live_remove:
  "sessions_inv st \<Longrightarrow> live (remove_online_session k st) = (live st)(k := None)"
  by (auto simp: sessions_inv_def remove_online_session_def live_def um.find_erase fun_eq_iff
      split: option.splits)

text \<open>The pruning loop is two erasing walks side by side.\<close>

lemma prune_loop_walk:
  "prune_loop cutoff es st =
   (let stale = \<lambda>e. snd e \<le> cutoff
    in st\<lparr>online_sessions := erase_walk um_erase stale es (online_sessions st),
          last_seen := erase_walk um_erase stale es (last_seen st)\<rparr>)"
  by (induction cutoff es st rule: prune_loop.induct) (auto simp: Let_def)

lemma live_prune:
  assumes "sessions_inv st"
  shows "live (prune_online_sessions lay now max_age st) k =
    (case live st k of None \<Rightarrow> None
     | Some (s, t) \<Rightarrow> if t \<le> now - max_age then None else Some (s, t))"
proof -
  have v: "um_valid (online_sessions st)" "um_valid (last_seen st)"
    using assms by (auto simp: sessions_inv_def)
  show ?thesis
    using v
    by (auto simp: prune_online_sessions_def prune_loop_walk Let_def live_def
        um.erase_walk_find simp flip: um.find_iff_entries [OF v(2)] split: option.splits)
qed

lemma inv_prune:
  assumes "sessions_inv st"
  shows "sessions_inv (prune_online_sessions lay now max_age st)"
proof -
  have v: "um_valid (online_sessions st)" "um_valid (last_seen st)"
    using assms by (auto simp: sessions_inv_def)
  show ?thesis
    using assms v
    by (auto simp: sessions_inv_def prune_online_sessions_def prune_loop_walk Let_def
        um.erase_walk_valid um.erase_walk_find dom_def set_eq_iff split: if_splits)
qed

lemma set_query:
  assumes "sessions_inv st"
  shows "set (online_sessions_for_profiles lay pids st) =
    {s. \<exists>k t. live st k = Some (s, t) \<and> os_profile_id s \<in> set pids}"
proof -
  have v: "um_valid (online_sessions st)" using assms by (auto simp: sessions_inv_def)
  have "s \<in> set (online_sessions_for_profiles lay pids st) \<longleftrightarrow>
    (\<exists>k. um_find (online_sessions st) k = Some s \<and> os_profile_id s \<in> set pids)" for s
    by (auto simp: online_sessions_for_profiles_def um.find_iff_entries [OF v])
  moreover have "um_find (online_sessions st) k = Some s \<longleftrightarrow> (\<exists>t. live st k = Some (s, t))" for k s
    using sessions_inv_dom [OF assms, of k] by (cases "um_find (last_seen st) k") (auto simp: live_Some_iff)
  ultimately show ?thesis by auto
qed

subsection \<open>The contract of the registry\<close>

locale session_registry =
  fixes reg :: "'st \<Rightarrow> u32 \<Rightarrow> (online_session \<times> int) option"
    and inv :: "'st \<Rightarrow> bool"
    and upsert :: "int \<Rightarrow> online_session \<Rightarrow> 'st \<Rightarrow> 'st"
    and touch :: "int \<Rightarrow> u32 \<Rightarrow> 'st \<Rightarrow> 'st"
    and remove :: "u32 \<Rightarrow> 'st \<Rightarrow> 'st"
    and prune :: "int \<Rightarrow> int \<Rightarrow> 'st \<Rightarrow> 'st"
    and query :: "string list \<Rightarrow> 'st \<Rightarrow> online_session list"
  assumes upsert_inv: "inv st \<Longrightarrow> inv (upsert now s st)"
    and touch_inv: "inv st \<Longrightarrow> inv (touch now k st)"
    and remove_inv: "inv st \<Longrightarrow> inv (remove k st)"
    and prune_inv: "inv st \<Longrightarrow> inv (prune now age st)"
    and reg_id: "inv st \<Longrightarrow> reg st k = Some (s, t) \<Longrightarrow> os_session_id s = k"
    and reg_upsert: "inv st \<Longrightarrow> reg (upsert now s st) = (reg st)(os_session_id s \<mapsto> (s, now))"
    and reg_touch: "inv st \<Longrightarrow> reg (touch now k st) =
      (case reg st k of None \<Rightarrow> reg st | Some (s, _) \<Rightarrow> (reg st)(k \<mapsto> (s, now)))"
    and reg_remove: "inv st \<Longrightarrow> reg (remove k st) = (reg st)(k := None)"
    and reg_prune: "inv st \<Longrightarrow> reg (prune now age st) k =
      (case reg st k of None \<Rightarrow> None
       | Some (s, t) \<Rightarrow> if t \<le> now - age then None else Some (s, t))"
    and set_query_reg: "inv st \<Longrightarrow> set (query pids st) =
      {s. \<exists>k t. reg st k = Some (s, t) \<and> os_profile_id s \<in> set pids}"
begin

lemmas invs = upsert_inv touch_inv remove_inv prune_inv

text \<open>A packet keeps the session it names alive: it is touched before the stale ones are dropped.\<close>

lemma touched_survives_prune:
  assumes "inv st" "reg st k = Some (s, t)" "0 < age"
  shows "reg (prune now age (touch now k st)) k = Some (s, now)"
  using assms by (simp add: reg_prune reg_touch invs)

lemma touch_unknown: "inv st \<Longrightarrow> reg st k = None \<Longrightarrow> reg (touch now k st) = reg st"
  by (simp add: reg_touch)

lemma reg_touch_prune:
  assumes "inv st" "0 < age"
  shows "reg (prune now age (touch now k st)) j =
    (case reg st j of None \<Rightarrow> None
     | Some (s, t) \<Rightarrow>
         if j = k then Some (s, now) else if t \<le> now - age then None else Some (s, t))"
  using assms by (auto simp: reg_prune reg_touch invs split: option.splits)

text \<open>What a search returns right after the pruning has been seen recently.\<close>

lemma query_prune_fresh:
  assumes "inv st" "s \<in> set (query pids (prune now age st))"
  shows "\<exists>t. reg st (os_session_id s) = Some (s, t) \<and> now - age < t \<and> os_profile_id s \<in> set pids"
proof -
  obtain k t where k: "reg (prune now age st) k = Some (s, t)" "os_profile_id s \<in> set pids"
    using assms by (auto simp: set_query_reg invs)
  then have "reg st k = Some (s, t)" "now - age < t"
    using assms(1) by (auto simp: reg_prune split: option.splits if_splits)
  with k show ?thesis using reg_id [OF assms(1)] by auto
qed

lemma query_prune_complete:
  assumes "inv st" "reg st k = Some (s, t)" "now - age < t" "os_profile_id s \<in> set pids"
  shows "s \<in> set (query pids (prune now age st))"
proof -
  have "reg (prune now age st) k = Some (s, t)"
    using assms by (simp add: reg_prune)
  with assms show ?thesis by (auto simp: set_query_reg invs)
qed

lemma removed_not_found:
  assumes "inv st" "s \<in> set (query pids (remove k st))"
  shows "os_session_id s \<noteq> k"
  using assms reg_id [OF assms(1)]
  by (auto simp: set_query_reg invs reg_remove split: if_splits)

lemma upserted_found:
  assumes "inv st" "os_profile_id s \<in> set pids"
  shows "s \<in> set (query pids (upsert now s st))"
proof -
  have "reg (upsert now s st) (os_session_id s) = Some (s, now)"
    using assms by (simp add: reg_upsert)
  with assms show ?thesis by (auto simp: set_query_reg invs)
qed

end

interpretation registry: session_registry live sessions_inv upsert_online_session
  touch_online_session remove_online_session "prune_online_sessions lay"
  "online_sessions_for_profiles lay'"
  for lay lay'
  by unfold_locales
    (simp_all add: inv_upsert inv_touch inv_remove inv_prune live_upsert live_touch live_remove
      live_prune set_query live_Some_iff sessions_inv_id)

subsection \<open>Properties\<close>

text \<open>
  C16. The registry implements its abstract specification, a map from session ids to a session
  and the time it was last seen: every operation keeps the two hash maps of the code aligned, and
  inserting, touching, removing and pruning change the abstract map, and a search reads it, as
  specified, whatever the order in which the hash maps are walked.
\<close>

theorem session_store_refines:
  assumes "sessions_inv st"
  shows "sessions_inv (upsert_online_session now s st) \<and>
      live (upsert_online_session now s st) = (live st)(os_session_id s \<mapsto> (s, now)) \<and>
    sessions_inv (touch_online_session now k st) \<and>
      live (touch_online_session now k st) =
        (live st)(k := map_option (\<lambda>(s, _). (s, now)) (live st k)) \<and>
    sessions_inv (remove_online_session k st) \<and>
      live (remove_online_session k st) = (live st)(k := None) \<and>
    sessions_inv (prune_online_sessions lay now age st) \<and>
      live (prune_online_sessions lay now age st) =
        (\<lambda>k. case live st k of None \<Rightarrow> None
          | Some (s, t) \<Rightarrow> if t \<le> now - age then None else Some (s, t)) \<and>
    set (online_sessions_for_profiles lay' pids st) =
      {s. \<exists>k t. live st k = Some (s, t) \<and> os_profile_id s \<in> set pids}"
proof -
  have "live (touch_online_session now k st) =
      (live st)(k := map_option (\<lambda>(s, _). (s, now)) (live st k))"
    using registry.reg_touch [OF assms] by (auto simp: fun_eq_iff split: option.splits)
  then show ?thesis using assms
    by (simp add: registry.invs registry.reg_upsert registry.reg_remove registry.reg_prune
        registry.set_query_reg fun_eq_iff)
qed

definition sample_session :: online_session where
  "sample_session =
     \<lparr>os_session_id = 7, os_profile_id = ''101'', os_unique_nick = ''Alice'',
      os_game_name = ''mariokartwii'', os_address = ''192.0.2.1'', os_port = 27900\<rparr>"

theorem session_store_refines_witness:
  "sessions_inv (upsert_online_session 5 sample_session no_sessions) \<and>
   live (upsert_online_session 5 sample_session no_sessions) 7 = Some (sample_session, 5)"
  using session_store_refines [of no_sessions 5 sample_session] by (simp add: sample_session_def)

end
