(* ===== verification/Net_Address.thy ===== *)
theory Net_Address
  imports Cpp_Stream
begin

section \<open>Socket addresses\<close>

text \<open>
  What the UDP handlers read of a \<^verbatim>\<open>sockaddr_in\<close>: the address and the port as they lie in memory, in
  network byte order. The host is little-endian, as every platform the server is built for: \<^verbatim>\<open>ntohs\<close>
  swaps two bytes and \<^verbatim>\<open>inet_ntoa\<close> prints the lowest byte of \<^verbatim>\<open>s_addr\<close> first.
\<close>

record sockaddr_in =
  sin_addr :: u32
  sin_port :: u16

definition ntohs :: "u16 \<Rightarrow> u16" where
  "ntohs p = push_bit 8 p OR drop_bit 8 p"

definition addr_byte :: "nat \<Rightarrow> u32 \<Rightarrow> nat" where
  "addr_byte k a = unat (drop_bit (8 * k) a AND 0xff)"

definition inet_ntoa :: "u32 \<Rightarrow> string" where
  "inet_ntoa a = dotted_text (addr_byte 0 a) (addr_byte 1 a) (addr_byte 2 a) (addr_byte 3 a)"

lemma addr_byte_le: "addr_byte k a \<le> 255"
proof -
  have "drop_bit (8 * k) a AND 0xff \<le> (0xff :: u32)" by (rule word_and_le1)
  then have "unat (drop_bit (8 * k) a AND 0xff) \<le> unat (0xff :: u32)"
    by (simp only: word_le_nat_alt)
  then show ?thesis by (simp add: addr_byte_def)
qed

lemma ntohs_ntohs [simp]: "ntohs (ntohs p) = p"
  by (rule bit_word_eqI) (auto simp: ntohs_def bit_simps)

text \<open>
  What \<^verbatim>\<open>recvfrom\<close> delivers into a buffer of a given size: nothing on an error, otherwise the datagram,
  cut to the buffer, and its sender.
\<close>

type_synonym datagram = "(packet \<times> sockaddr_in) option"
type_synonym sent = "(sockaddr_in \<times> packet) list"

definition recvfrom :: "nat \<Rightarrow> datagram \<Rightarrow> (packet \<times> sockaddr_in) option" where
  "recvfrom capacity incoming = map_option (\<lambda>(d, client). (take capacity d, client)) incoming"

text \<open>\<^verbatim>\<open>recv\<close> with \<^verbatim>\<open>MSG_WAITALL\<close>: all the bytes asked for, or as many as come before the end.\<close>

definition recv_waitall :: "nat \<Rightarrow> packet \<Rightarrow> packet \<times> packet" where
  "recv_waitall n incoming = (take n incoming, drop n incoming)"

end
