(* ===== verification/Server_Qr.thy ===== *)
theory Server_Qr
  imports Qr Sessions Net_Address
begin

section \<open>The QR socket (\<^verbatim>\<open>handle_qr_packet\<close> of \<^verbatim>\<open>src/server_discovery.cpp\<close>)\<close>

text \<open>
  The handler runs on the main thread alone. Its state is the table of outstanding challenges, the
  session registry it shares with the player search, and the generator of the challenges. The clock is
  read up to three times in a call, for the touch, the pruning and the insertion; the three times are
  parameters. The messages on the console are in \<open>Server_Console\<close>.
\<close>

record qr_server =
  qr_challenges :: "(u32, string) umap"
  qr_sessions :: session_store
  qr_generator :: rng

record qr_clock =
  touch_time :: int
  prune_time :: int
  insert_time :: int

text \<open>\<^verbatim>\<open>packet.size() >= 5 && packet[0] == command\<close>\<close>

definition has_command :: "u8 \<Rightarrow> packet \<Rightarrow> bool option" where
  "has_command command packet =
     (if length packet < 5 then Some False else do { c \<leftarrow> rd packet 0; Some (c = command) })"

definition heartbeat_session ::
  "packet \<Rightarrow> u32 \<Rightarrow> sockaddr_in \<Rightarrow> online_session option" where
  "heartbeat_session packet session_id client_address = do {
     profile_id \<leftarrow> qr_field_value packet ''profileid'';
     user_id \<leftarrow> qr_field_value packet ''userid'';
     unique_nick \<leftarrow> qr_field_value packet ''uniquenick'';
     game_name \<leftarrow> qr_field_value packet ''gamename'';
     Some \<lparr>os_session_id = session_id,
       os_profile_id = (if profile_id \<noteq> [] then profile_id
         else if user_id \<noteq> [] then user_id else dec_of_nat (unat session_id)),
       os_unique_nick = unique_nick,
       os_game_name = game_name,
       os_address = inet_ntoa (sin_addr client_address),
       os_port = ntohs (sin_port client_address)\<rparr>
   }"

text \<open>The text from an offset to the next zero byte, or to the end.\<close>

definition text_from :: "packet \<Rightarrow> nat \<Rightarrow> string option" where
  "text_from packet start =
     (if length packet < start then None
      else Some (bytes_str (takeWhile (\<lambda>b. b \<noteq> 0) (drop start packet))))"

definition issue_challenge ::
  "u32 \<Rightarrow> sockaddr_in \<Rightarrow> qr_server \<Rightarrow> (sent \<times> qr_server) option" where
  "issue_challenge session_id client_address st =
     (if um_find (qr_challenges st) session_id = None
      then
        let (response, g) = qr_challenge_response session_id (inet_ntoa (sin_addr client_address))
              (ntohs (sin_port client_address)) (qr_generator st)
        in do {
          challenge \<leftarrow> text_from response 7;
          Some ([(client_address, response)],
            st\<lparr>qr_generator := g,
               qr_challenges := um_emplace session_id challenge (qr_challenges st)\<rparr>)
        }
      else Some ([], st))"

definition handle_heartbeat ::
  "qr_clock \<Rightarrow> packet \<Rightarrow> u32 \<Rightarrow> sockaddr_in \<Rightarrow> qr_server \<Rightarrow> (sent \<times> qr_server) option" where
  "handle_heartbeat clock packet session_id client_address st = do {
     state_changed \<leftarrow> qr_field_value packet ''statechanged'';
     st' \<leftarrow> (if state_changed = ''2''
       then Some (st\<lparr>qr_sessions := remove_online_session session_id (qr_sessions st),
                     qr_challenges := um_erase session_id (qr_challenges st)\<rparr>)
       else do {
         session \<leftarrow> heartbeat_session packet session_id client_address;
         Some (st\<lparr>qr_sessions :=
           upsert_online_session (insert_time clock) session (qr_sessions st)\<rparr>)
       });
     issue_challenge session_id client_address st'
   }"

definition handle_qr_packet ::
  "(u32, int) layout \<Rightarrow> string \<Rightarrow> qr_clock \<Rightarrow> datagram \<Rightarrow> qr_server \<Rightarrow>
   (sent \<times> qr_server) option" where
  "handle_qr_packet lay secret_key clock incoming st =
     (case recvfrom 2048 incoming of
        None \<Rightarrow> Some ([], st)
      | Some (packet, client_address) \<Rightarrow> do {
          session_id \<leftarrow> qr_session_id packet;
          availability \<leftarrow> has_command 0x09 packet;
          let st1 = (if 5 \<le> length packet \<and> \<not> availability
            then st\<lparr>qr_sessions := touch_online_session (touch_time clock) session_id (qr_sessions st)\<rparr>
            else st);
          let st2 = st1\<lparr>qr_sessions :=
            prune_online_sessions lay (prune_time clock) (seconds 61) (qr_sessions st1)\<rparr>;
          keepalive \<leftarrow> has_command 0x08 packet;
          (if keepalive then Some ([], st2)
           else do {
             answers \<leftarrow> has_command 0x01 packet;
             matches \<leftarrow> (if \<not> answers then Some False
               else case um_find (qr_challenges st2) session_id of
                   None \<Rightarrow> Some False
                 | Some challenge \<Rightarrow> qr_challenge_matches packet challenge secret_key);
             (if matches
              then Some ([(client_address, qr_registered_response session_id)],
                st2\<lparr>qr_challenges := um_erase session_id (qr_challenges st2)\<rparr>)
              else do {
                heartbeat \<leftarrow> is_mariokartwii_heartbeat packet;
                (if heartbeat then handle_heartbeat clock packet session_id client_address st2
                 else do {
                   available \<leftarrow> is_mariokartwii_availability_request packet;
                   Some (if available then [(client_address, availability_response)] else [], st2)
                 })
              })
           })
        })"

subsection \<open>What a packet does\<close>

text \<open>
  The invariant of the server: the registry is well formed, and so is the table of challenges, whose
  entries are texts without a zero byte.
\<close>

definition qr_inv :: "qr_server \<Rightarrow> bool" where
  "qr_inv st \<longleftrightarrow> sessions_inv (qr_sessions st) \<and> um_valid (qr_challenges st) \<and>
     (\<forall>k c. um_find (qr_challenges st) k = Some c \<longrightarrow> CHR 0x00 \<notin> set c)"

text \<open>The registry after the touch and the pruning with which every packet begins.\<close>

definition qr_refreshed ::
  "(u32, int) layout \<Rightarrow> qr_clock \<Rightarrow> packet \<Rightarrow> u32 \<Rightarrow> session_store \<Rightarrow> session_store" where
  "qr_refreshed lay clock packet session_id st =
     prune_online_sessions lay (prune_time clock) (seconds 61)
       (if 5 \<le> length packet \<and> packet ! 0 \<noteq> 0x09
        then touch_online_session (touch_time clock) session_id st else st)"

definition packet_session :: "packet \<Rightarrow> u32" where
  "packet_session packet =
     (if length packet < 5 then 0 else le_u32 (packet ! 1) (packet ! 2) (packet ! 3) (packet ! 4))"

definition answers_challenge :: "string \<Rightarrow> packet \<Rightarrow> string option \<Rightarrow> bool" where
  "answers_challenge secret_key packet outstanding \<longleftrightarrow>
     (\<exists>challenge. outstanding = Some challenge \<and>
        qr_challenge_matches packet challenge secret_key = Some True)"

lemma has_command_eq: "has_command command packet = Some (5 \<le> length packet \<and> packet ! 0 = command)"
  by (cases "length packet < 5") (auto simp: has_command_def rd_def)

lemma qr_session_id_packet: "qr_session_id packet = Some (packet_session packet)"
  by (simp add: qr_session_id_eq packet_session_def)

lemma refreshed_inv: "sessions_inv st \<Longrightarrow> sessions_inv (qr_refreshed lay clock packet k st)"
  by (simp add: qr_refreshed_def inv_touch inv_prune)

text \<open>The handler, with the reads that cannot fail resolved.\<close>

lemma handle_qr_packet_cases:
  fixes st lay clock datagram client
  defines "packet \<equiv> take 2048 datagram"
  defines "k \<equiv> packet_session packet"
  defines "st2 \<equiv> st\<lparr>qr_sessions := qr_refreshed lay clock packet k (qr_sessions st)\<rparr>"
  shows "handle_qr_packet lay secret_key clock (Some (datagram, client)) st =
    (if 5 \<le> length packet \<and> packet ! 0 = 0x08 then Some ([], st2)
     else if answers_challenge secret_key packet (um_find (qr_challenges st) k)
       then Some ([(client, qr_registered_response k)],
         st2\<lparr>qr_challenges := um_erase k (qr_challenges st)\<rparr>)
     else if is_mariokartwii_heartbeat packet = Some True
       then handle_heartbeat clock packet k client st2
     else Some (if is_mariokartwii_availability_request packet = Some True
         then [(client, availability_response)] else [], st2))"
proof -
  have s: "st\<lparr>qr_sessions := qr_refreshed lay clock packet k (qr_sessions st)\<rparr> =
      (if 5 \<le> length packet \<and> packet ! 0 \<noteq> 9
        then st\<lparr>qr_sessions := touch_online_session (touch_time clock) k (qr_sessions st)\<rparr>
        else st)\<lparr>qr_sessions := prune_online_sessions lay (prune_time clock) (seconds 61)
          (qr_sessions (if 5 \<le> length packet \<and> packet ! 0 \<noteq> 9
             then st\<lparr>qr_sessions := touch_online_session (touch_time clock) k (qr_sessions st)\<rparr>
             else st))\<rparr>"
    by (simp add: qr_refreshed_def)
  obtain hb where hb: "is_mariokartwii_heartbeat packet = Some hb" by (simp add: heartbeat_eq)
  obtain av where av: "is_mariokartwii_availability_request packet = Some av"
    by (simp add: availability_request_iff)
  show ?thesis
    unfolding handle_qr_packet_def recvfrom_def st2_def s
    by (cases "um_find (qr_challenges st) k")
      (simp_all add: packet_def [symmetric] qr_session_id_packet k_def [symmetric] has_command_eq hb av
        Let_def answers_challenge_def qr_challenge_matches_eq)
qed

text \<open>The session a heartbeat describes.\<close>

definition described_session :: "packet \<Rightarrow> u32 \<Rightarrow> sockaddr_in \<Rightarrow> online_session" where
  "described_session packet session_id client = the (heartbeat_session packet session_id client)"

lemma heartbeat_session_total:
  "heartbeat_session packet session_id client = Some (described_session packet session_id client)"
  by (simp add: heartbeat_session_def described_session_def qr_field_value_eq)

lemma described_session_fields:
  "os_session_id (described_session packet session_id client) = session_id"
  "os_address (described_session packet session_id client) = inet_ntoa (sin_addr client)"
  "os_port (described_session packet session_id client) = ntohs (sin_port client)"
  by (simp_all add: heartbeat_session_def described_session_def qr_field_value_eq)

text \<open>The challenge text drawn for a client, and the packet it is sent in.\<close>

definition drawn_challenge :: "sockaddr_in \<Rightarrow> rng \<Rightarrow> string" where
  "drawn_challenge client g = qr_challenge_string (fst (challenge_text g))
     (inet_ntoa (sin_addr client)) (ntohs (sin_port client))"

lemma drawn_challenge_no_nul: "CHR 0x00 \<notin> set (drawn_challenge client g)"
  unfolding drawn_challenge_def by (intro challenge_string_no_nul challenge_text_no_nul)

lemma drawn_challenge_length: "length (drawn_challenge client g) = 20"
  unfolding drawn_challenge_def inet_ntoa_def
  by (subst qr_challenge_string_dotted) (simp_all add: addr_byte_le challenge_text_def)

definition challenge_packet :: "u32 \<Rightarrow> string \<Rightarrow> packet" where
  "challenge_packet session_id challenge =
     [0xfe, 0xfd, 0x01] @ u32_le session_id @ str_bytes challenge @ [0x00]"

lemma text_from_challenge:
  assumes "CHR 0x00 \<notin> set challenge"
  shows "text_from (challenge_packet session_id challenge) 7 = Some challenge"
proof -
  have "char_byte c \<noteq> 0" if "c \<in> set challenge" for c
    using that assms char_byte_0 by metis
  then have "takeWhile (\<lambda>b. b \<noteq> 0) (str_bytes challenge @ [0]) = str_bytes challenge"
    by (subst takeWhile_append2) auto
  then show ?thesis by (simp add: text_from_def challenge_packet_def u32_le_def comp_def)
qed

lemma issue_challenge_eq:
  "issue_challenge session_id client st =
     Some (if um_find (qr_challenges st) session_id = None
       then ([(client, challenge_packet session_id (drawn_challenge client (qr_generator st)))],
         st\<lparr>qr_generator := snd (challenge_text (qr_generator st)),
            qr_challenges := um_set session_id (drawn_challenge client (qr_generator st))
              (qr_challenges st)\<rparr>)
       else ([], st))"
proof -
  have "qr_challenge_response session_id (inet_ntoa (sin_addr client)) (ntohs (sin_port client))
      (qr_generator st) =
    (challenge_packet session_id (drawn_challenge client (qr_generator st)),
      snd (challenge_text (qr_generator st)))"
    by (simp add: qr_challenge_response_def challenge_packet_def drawn_challenge_def case_prod_beta
        Let_def)
  then show ?thesis
    by (simp add: issue_challenge_def text_from_challenge drawn_challenge_no_nul um_emplace_def)
qed

lemma handle_heartbeat_eq:
  "handle_heartbeat clock packet k client st = do {
     state_changed \<leftarrow> qr_field_value packet ''statechanged'';
     issue_challenge k client
       (if state_changed = ''2''
        then st\<lparr>qr_sessions := remove_online_session k (qr_sessions st),
                qr_challenges := um_erase k (qr_challenges st)\<rparr>
        else st\<lparr>qr_sessions := upsert_online_session (insert_time clock)
                  (described_session packet k client) (qr_sessions st)\<rparr>)
   }"
  by (simp add: handle_heartbeat_def heartbeat_session_total qr_field_value_eq)

lemma inv_erase_challenge:
  "qr_inv st \<Longrightarrow> qr_inv (st\<lparr>qr_challenges := um_erase k (qr_challenges st)\<rparr>)"
  by (auto simp: qr_inv_def um.valid_erase um_find_erase split: if_splits)

lemma inv_issue:
  "qr_inv st \<Longrightarrow> \<exists>out st'. issue_challenge k client st = Some (out, st') \<and> qr_inv st' \<and>
     (out = [] \<or> (\<exists>p. out = [(client, p)]))"
  using drawn_challenge_no_nul [of client "qr_generator st"]
  by (auto simp: issue_challenge_eq qr_inv_def um.valid_set um_find_set)

lemma handle_heartbeat_safe:
  assumes "qr_inv st"
  shows "\<exists>out st'. handle_heartbeat clock packet k client st = Some (out, st') \<and> qr_inv st' \<and>
    (out = [] \<or> (\<exists>p. out = [(client, p)]))"
proof -
  have "qr_inv (st\<lparr>qr_sessions := remove_online_session k (qr_sessions st),
      qr_challenges := um_erase k (qr_challenges st)\<rparr>)"
    using assms inv_remove by (auto simp: qr_inv_def um.valid_erase um_find_erase split: if_splits)
  moreover have "qr_inv (st\<lparr>qr_sessions := upsert_online_session now s (qr_sessions st)\<rparr>)" for now s
    using assms inv_upsert by (auto simp: qr_inv_def)
  ultimately show ?thesis
    unfolding handle_heartbeat_eq using inv_issue by (simp add: qr_field_value_eq)
qed

lemma heartbeat_command_cases:
  "is_mariokartwii_heartbeat packet = Some True \<Longrightarrow> 5 \<le> length packet \<and> packet ! 0 = 0x03"
  by (simp add: heartbeat_eq heartbeat_command_def)

lemma answers_challenge_command:
  "answers_challenge secret_key packet c \<Longrightarrow> 7 \<le> length packet \<and> packet ! 0 = 0x01"
  by (auto simp: answers_challenge_def qr_challenge_matches_eq)

text \<open>A response computed for a challenge is short, is accepted, and is no other kind of packet.\<close>

lemma client_response:
  assumes "secret_key \<noteq> []" and "length challenge = 20"
  shows "\<exists>response. qr_client_challenge_response k challenge secret_key = Some response \<and>
    length response = 34 \<and> response ! 0 = 0x01 \<and> packet_session response = k \<and>
    qr_challenge_matches response challenge secret_key = Some True"
proof -
  obtain e where e: "qr_expected challenge secret_key = Some e" and l: "length e = 28"
    using qr_expected_eq [OF assms(1)] qr64.enc_length assms(2) by fastforce
  define r where "r = [0x01] @ u32_le k @ str_bytes e @ [0x00]"
  have "drop 5 r = str_bytes e @ [0]" by (simp add: r_def u32_le_def)
  then have "qr_challenge_matches r challenge secret_key = Some True"
    using e l assms by (simp add: qr_challenge_matches_eq strip_nul_def r_def comp_def u32_le_def)
  moreover have "packet_session r = k"
    using qr_session_id_le [of "0x01" k "str_bytes e @ [0x00]"] qr_session_id_packet [of r]
    by (simp add: r_def)
  moreover have "length r = 34" "r ! 0 = 0x01" using l by (simp_all add: r_def u32_le_def)
  ultimately show ?thesis
    using e assms by (intro exI [of _ r]) (simp add: qr_client_challenge_response_def r_def)
qed

lemma response_ignored:
  assumes "packet ! 0 = 0x01" and "length packet \<le> 2048" and "5 \<le> length packet"
    and "um_find (qr_challenges st) (packet_session packet) = None"
  shows "\<exists>st'. handle_qr_packet lay secret_key clock (Some (packet, client)) st = Some ([], st')"
proof -
  have "is_mariokartwii_heartbeat packet = Some False"
    using assms(1) by (simp add: heartbeat_eq heartbeat_command_def)
  moreover have "is_mariokartwii_availability_request packet = Some False"
    using assms(1) by (auto simp: availability_request_iff availability_command_def)
  ultimately show ?thesis using assms by (simp add: handle_qr_packet_cases answers_challenge_def)
qed

lemma handshake_runs:
  assumes "qr_inv st" and "secret_key \<noteq> []" and "length heartbeat \<le> 2048"
    and "is_mariokartwii_heartbeat heartbeat = Some True"
    and "qr_field_value heartbeat ''statechanged'' \<noteq> Some ''2''"
    and "k = packet_session heartbeat" and "um_find (qr_challenges st) k = None"
  shows "\<exists>challenge st1 response st2 st3.
    handle_qr_packet lay secret_key c1 (Some (heartbeat, client)) st =
      Some ([(client, challenge_packet k challenge)], st1) \<and>
    live (qr_sessions st1) k = Some (described_session heartbeat k client, insert_time c1) \<and>
    qr_client_challenge_response k challenge secret_key = Some response \<and>
    handle_qr_packet lay secret_key c2 (Some (response, client')) st1 =
      Some ([(client', qr_registered_response k)], st2) \<and>
    handle_qr_packet lay secret_key c3 (Some (response, client')) st2 = Some ([], st3)"
proof -
  define challenge where "challenge = drawn_challenge client (qr_generator st)"
  have i: "sessions_inv (qr_refreshed lay c1 heartbeat k (qr_sessions st))"
    using assms(1) by (simp add: qr_inv_def refreshed_inv)
  have hb: "handle_qr_packet lay secret_key c1 (Some (heartbeat, client)) st =
      handle_heartbeat c1 heartbeat k client
        (st\<lparr>qr_sessions := qr_refreshed lay c1 heartbeat k (qr_sessions st)\<rparr>)"
    using assms heartbeat_command_cases [OF assms(4)]
    by (simp add: handle_qr_packet_cases answers_challenge_def)
  obtain st1 where 1: "handle_qr_packet lay secret_key c1 (Some (heartbeat, client)) st =
      Some ([(client, challenge_packet k challenge)], st1)"
    and c1: "um_find (qr_challenges st1) k = Some challenge"
    and l1: "live (qr_sessions st1) k = Some (described_session heartbeat k client, insert_time c1)"
    using assms(5,7) i unfolding hb challenge_def
    by (auto simp: handle_heartbeat_eq qr_field_value_eq issue_challenge_eq um_find_set
        registry.reg_upsert described_session_fields)
  obtain r where r: "qr_client_challenge_response k challenge secret_key = Some r"
    "length r = 34" "r ! 0 = 0x01" "packet_session r = k"
    "qr_challenge_matches r challenge secret_key = Some True"
    using client_response [OF assms(2)] drawn_challenge_length unfolding challenge_def by blast
  obtain st2 where 2: "handle_qr_packet lay secret_key c2 (Some (r, client')) st1 =
      Some ([(client', qr_registered_response k)], st2)"
    and c2: "um_find (qr_challenges st2) k = None"
    using r c1 by (simp add: handle_qr_packet_cases answers_challenge_def um_find_erase)
  obtain st3 where 3: "handle_qr_packet lay secret_key c3 (Some (r, client')) st2 = Some ([], st3)"
    using response_ignored [of r st2 lay secret_key c3 client'] r c2 by auto
  from 1 l1 r(1) 2 3 show ?thesis by blast
qed

lemma qr_packet_steps:
  assumes "qr_inv st"
  shows "\<exists>out st'. handle_qr_packet lay secret_key clock incoming st = Some (out, st') \<and> qr_inv st' \<and>
    (out = [] \<or> (\<exists>datagram client response. incoming = Some (datagram, client) \<and>
       out = [(client, response)]))"
proof (cases incoming)
  case None
  then show ?thesis using assms by (simp add: handle_qr_packet_def recvfrom_def)
next
  case (Some p)
  obtain datagram client where p: "incoming = Some (datagram, client)" using Some by (cases p) simp
  define packet where "packet = take 2048 datagram"
  define k where "k = packet_session packet"
  define st2 where "st2 = st\<lparr>qr_sessions := qr_refreshed lay clock packet k (qr_sessions st)\<rparr>"
  have i2: "qr_inv st2" using assms refreshed_inv by (auto simp: qr_inv_def st2_def)
  then have "qr_inv (st2\<lparr>qr_challenges := um_erase k (qr_challenges st)\<rparr>)"
    using inv_erase_challenge [OF i2, of k] by (simp add: st2_def)
  moreover note handle_heartbeat_safe [OF i2, of clock packet k client] i2
  ultimately show ?thesis
    unfolding p handle_qr_packet_cases packet_def [symmetric] k_def [symmetric] st2_def [symmetric]
    by auto
qed

lemma closing_runs:
  assumes "qr_inv st" and "length heartbeat \<le> 2048"
    and "is_mariokartwii_heartbeat heartbeat = Some True"
    and "qr_field_value heartbeat ''statechanged'' = Some ''2''"
    and "k = packet_session heartbeat"
  shows "\<exists>challenge st'.
    handle_qr_packet lay secret_key clock (Some (heartbeat, client)) st =
      Some ([(client, challenge_packet k challenge)], st') \<and>
    live (qr_sessions st') k = None \<and> um_find (qr_challenges st') k = Some challenge"
proof -
  have i: "sessions_inv (qr_refreshed lay clock heartbeat k (qr_sessions st))"
    using assms(1) by (simp add: qr_inv_def refreshed_inv)
  have n: "\<not> answers_challenge secret_key heartbeat c" for c
    using answers_challenge_command heartbeat_command_cases [OF assms(3)] by fastforce
  show ?thesis
    using assms i n heartbeat_command_cases [OF assms(3)]
    by (simp add: handle_qr_packet_cases handle_heartbeat_eq issue_challenge_eq um_find_erase
        um_find_set registry.reg_remove)
qed

subsection \<open>Sample data\<close>

definition sample_client :: sockaddr_in where
  "sample_client = \<lparr>sin_addr = 0x5401A8C0, sin_port = 0xC9EC\<rparr>"

definition sample_clock :: qr_clock where
  "sample_clock = \<lparr>touch_time = 5, prune_time = 6, insert_time = 7\<rparr>"

definition sample_qr :: qr_server where
  "sample_qr = \<lparr>qr_challenges = [],
     qr_sessions = upsert_online_session 1 sample_session no_sessions,
     qr_generator = \<lparr>draws = (\<lambda>n. n * n), drawn = 3\<rparr>\<rparr>"

lemma sample_qr_inv: "qr_inv sample_qr"
  by (simp add: qr_inv_def sample_qr_def inv_upsert um_valid_def um_find_def)

definition sample_heartbeat :: "string \<Rightarrow> packet" where
  "sample_heartbeat state = [0x03, 0x07, 0x00, 0x00, 0x00] @ str_bytes (nul_tokens
     [''localip0'', ''192.168.1.84'', ''statechanged'', state, ''gamename'', ''mariokartwii''])"

lemma sample_heartbeat_ok:
  "is_mariokartwii_heartbeat (sample_heartbeat ''1'') = Some True"
  "is_mariokartwii_heartbeat (sample_heartbeat ''2'') = Some True"
  by code_simp+

lemma sample_heartbeat_state:
  "qr_field_value (sample_heartbeat ''1'') ''statechanged'' = Some ''1''"
  "qr_field_value (sample_heartbeat ''2'') ''statechanged'' = Some ''2''"
  by code_simp+

lemma sample_heartbeat_session:
  "packet_session (sample_heartbeat s) = 7" "length (sample_heartbeat ''1'') \<le> 2048"
  "length (sample_heartbeat ''2'') \<le> 2048"
  by (simp_all add: sample_heartbeat_def packet_session_def le_u32_def)

subsection \<open>Properties\<close>

text \<open>
  Whatever datagram arrives, the QR handler reads within it, answers at most once and only to the
  sender, and keeps the session registry and the table of challenges well formed.
\<close>

theorem qr_packet_safe:
  assumes "qr_inv st"
  shows "\<exists>out st'. handle_qr_packet lay secret_key clock incoming st = Some (out, st') \<and> qr_inv st' \<and>
    (out = [] \<or> (\<exists>datagram client response. incoming = Some (datagram, client) \<and>
       out = [(client, response)]))"
  by (rule qr_packet_steps [OF assms])

theorem qr_packet_safe_witness:
  "\<exists>out st'. handle_qr_packet insertion_order ''9r3Rmy'' sample_clock
      (Some (sample_heartbeat ''1'', sample_client)) sample_qr = Some (out, st') \<and> qr_inv st'"
  using qr_packet_safe [OF sample_qr_inv, of insertion_order "''9r3Rmy''" sample_clock
      "Some (sample_heartbeat ''1'', sample_client)"] by blast

text \<open>
  C18. Registration is exactly the proof of the secret: a packet is answered with the registration
  of its session if and only if a challenge is outstanding for the session and the packet carries its
  encryption; then the challenge is consumed, no other challenge is touched, and the registry is only
  refreshed.
\<close>

theorem qr_registers_iff:
  assumes "handle_qr_packet lay secret_key clock (Some (datagram, client)) st = Some (out, st')"
    and "packet = take 2048 datagram" and "k = packet_session packet"
  shows "(out = [(client, qr_registered_response k)] \<longleftrightarrow>
      answers_challenge secret_key packet (um_find (qr_challenges st) k)) \<and>
    (answers_challenge secret_key packet (um_find (qr_challenges st) k) \<longrightarrow>
      um_find (qr_challenges st') = (um_find (qr_challenges st))(k := None) \<and>
      qr_sessions st' = qr_refreshed lay clock packet k (qr_sessions st))"
proof (cases "answers_challenge secret_key packet (um_find (qr_challenges st) k)")
  case True
  with answers_challenge_command [OF True] assms show ?thesis
    by (auto simp: handle_qr_packet_cases um_find_erase)
next
  case False
  have "out \<noteq> [(client, qr_registered_response k)]"
    using assms(1) False unfolding handle_qr_packet_cases assms(2,3) [symmetric]
    by (auto simp: handle_heartbeat_eq qr_field_value_eq issue_challenge_eq challenge_packet_def
        qr_registered_response_def availability_response_def split: if_splits)
  with False show ?thesis by blast
qed

theorem qr_registers_iff_witness:
  "\<exists>response. qr_client_challenge_response 7 ''ABCDEF00C0A80154ECC9'' ''9r3Rmy'' = Some response \<and>
    (\<exists>st'. handle_qr_packet insertion_order ''9r3Rmy'' sample_clock (Some (response, sample_client))
        (sample_qr\<lparr>qr_challenges := [(7, ''ABCDEF00C0A80154ECC9'')]\<rparr>) =
      Some ([(sample_client, qr_registered_response 7)], st') \<and> um_find (qr_challenges st') 7 = None)"
proof -
  obtain response where r: "qr_client_challenge_response 7 ''ABCDEF00C0A80154ECC9'' ''9r3Rmy'' = Some response"
    using client_response [of "''9r3Rmy''" "''ABCDEF00C0A80154ECC9''" 7] by auto
  let ?st = "sample_qr\<lparr>qr_challenges := [(7, ''ABCDEF00C0A80154ECC9'')]\<rparr>"
  from client_response [of "''9r3Rmy''" "''ABCDEF00C0A80154ECC9''" 7] r
  have l: "length response = 34" "packet_session response = 7"
    and a: "answers_challenge ''9r3Rmy'' response (um_find (qr_challenges ?st) 7)"
    by (auto simp: answers_challenge_def um_find_def)
  have "qr_inv ?st" using sample_qr_inv by (simp add: qr_inv_def um_valid_def um_find_def)
  then obtain out st' where h: "handle_qr_packet insertion_order ''9r3Rmy'' sample_clock
      (Some (response, sample_client)) ?st = Some (out, st')"
    using qr_packet_steps by blast
  from qr_registers_iff [OF h, of response 7] l a
  have "out = [(sample_client, qr_registered_response 7)] \<and> um_find (qr_challenges st') 7 = None"
    by simp
  with h r show ?thesis by blast
qed

text \<open>
  A keepalive is answered with nothing and keeps its session: a live session is marked as seen
  now, every other session stays exactly if it was seen within the last 61 seconds, and no challenge
  is touched.
\<close>

theorem keepalive_keeps_session:
  assumes "qr_inv st" and "length datagram \<le> 2048" and "5 \<le> length datagram"
    and "datagram ! 0 = 0x08" and "k = packet_session datagram"
    and "live (qr_sessions st) k = Some (s, t)"
    and "prune_time clock - touch_time clock < seconds 61"
  shows "\<exists>st'. handle_qr_packet lay secret_key clock (Some (datagram, client)) st = Some ([], st') \<and>
    qr_challenges st' = qr_challenges st \<and>
    live (qr_sessions st') = (\<lambda>j.
      if j = k then Some (s, touch_time clock)
      else case live (qr_sessions st) j of None \<Rightarrow> None
        | Some (r, seen) \<Rightarrow> if seen \<le> prune_time clock - seconds 61 then None else Some (r, seen))"
proof -
  have i: "sessions_inv (qr_sessions st)" using assms(1) by (simp add: qr_inv_def)
  have "live (qr_refreshed lay clock datagram k (qr_sessions st)) j =
     (if j = k then Some (s, touch_time clock)
      else case live (qr_sessions st) j of None \<Rightarrow> None
        | Some (r, seen) \<Rightarrow> if seen \<le> prune_time clock - seconds 61 then None else Some (r, seen))" for j
    using assms i
    by (simp add: qr_refreshed_def registry.reg_prune registry.invs registry.reg_touch)
  with assms show ?thesis by (simp add: handle_qr_packet_cases fun_eq_iff)
qed

theorem keepalive_keeps_session_witness:
  "\<exists>st'. handle_qr_packet insertion_order ''9r3Rmy'' sample_clock
      (Some ([0x08, 0x07, 0x00, 0x00, 0x00], sample_client)) sample_qr = Some ([], st') \<and>
    live (qr_sessions st') 7 = Some (sample_session, 5)"
proof -
  have "live (qr_sessions sample_qr) 7 = Some (sample_session, 1)"
    by (simp add: sample_qr_def registry.reg_upsert sample_session_def)
  then show ?thesis
    using keepalive_keeps_session [OF sample_qr_inv, of "[0x08, 0x07, 0x00, 0x00, 0x00]" 7
        sample_session 1 sample_clock insertion_order "''9r3Rmy''" sample_client]
    by (auto simp: packet_session_def le_u32_def sample_clock_def seconds_def)
qed

text \<open>
  C5. The handshake: a heartbeat of a session without an outstanding challenge lists the session and
  sends it a challenge; the response a client computes from the challenge and the shared secret
  registers it, from whichever address it comes; and the same response sent again is ignored.
\<close>

theorem qr_handshake:
  assumes "qr_inv st" and "secret_key \<noteq> []" and "length heartbeat \<le> 2048"
    and "is_mariokartwii_heartbeat heartbeat = Some True"
    and "qr_field_value heartbeat ''statechanged'' \<noteq> Some ''2''"
    and "k = packet_session heartbeat" and "um_find (qr_challenges st) k = None"
  shows "\<exists>challenge st1 response st2 st3.
    handle_qr_packet lay secret_key c1 (Some (heartbeat, client)) st =
      Some ([(client, challenge_packet k challenge)], st1) \<and>
    live (qr_sessions st1) k = Some (described_session heartbeat k client, insert_time c1) \<and>
    qr_client_challenge_response k challenge secret_key = Some response \<and>
    handle_qr_packet lay secret_key c2 (Some (response, client')) st1 =
      Some ([(client', qr_registered_response k)], st2) \<and>
    handle_qr_packet lay secret_key c3 (Some (response, client')) st2 = Some ([], st3)"
  by (rule handshake_runs [OF assms])

theorem qr_handshake_witness:
  "\<exists>challenge st1 response st2.
    handle_qr_packet insertion_order ''9r3Rmy'' sample_clock
      (Some (sample_heartbeat ''1'', sample_client)) sample_qr =
      Some ([(sample_client, challenge_packet 7 challenge)], st1) \<and>
    qr_client_challenge_response 7 challenge ''9r3Rmy'' = Some response \<and>
    handle_qr_packet insertion_order ''9r3Rmy'' sample_clock (Some (response, sample_client)) st1 =
      Some ([(sample_client, qr_registered_response 7)], st2)"
proof -
  have "um_find (qr_challenges sample_qr) 7 = None" by (simp add: sample_qr_def um_find_def)
  then show ?thesis
    using qr_handshake [OF sample_qr_inv, of "''9r3Rmy''" "sample_heartbeat ''1''" 7 insertion_order
        sample_clock sample_client sample_clock sample_client sample_clock]
    by (simp add: sample_heartbeat_ok sample_heartbeat_state sample_heartbeat_session) blast
qed

text \<open>
  A closing heartbeat takes its session off the registry, but the handler then finds no challenge
  for it and issues a new one: the table of challenges keeps an entry for every session that has
  closed.
\<close>

theorem closing_heartbeat_leaves_challenge:
  assumes "qr_inv st" and "length heartbeat \<le> 2048"
    and "is_mariokartwii_heartbeat heartbeat = Some True"
    and "qr_field_value heartbeat ''statechanged'' = Some ''2''"
    and "k = packet_session heartbeat"
  shows "\<exists>challenge st'.
    handle_qr_packet lay secret_key clock (Some (heartbeat, client)) st =
      Some ([(client, challenge_packet k challenge)], st') \<and>
    live (qr_sessions st') k = None \<and> um_find (qr_challenges st') k = Some challenge"
  by (rule closing_runs [OF assms])

theorem closing_heartbeat_leaves_challenge_witness:
  "\<exists>challenge st'.
    handle_qr_packet insertion_order ''9r3Rmy'' sample_clock
      (Some (sample_heartbeat ''2'', sample_client)) sample_qr =
      Some ([(sample_client, challenge_packet 7 challenge)], st') \<and>
    live (qr_sessions st') 7 = None \<and> um_find (qr_challenges st') 7 = Some challenge"
  by (rule closing_heartbeat_leaves_challenge)
    (simp_all add: sample_qr_inv sample_heartbeat_ok sample_heartbeat_state sample_heartbeat_session)

end
