(* ===== verification/Message_Stream.thy ===== *)
theory Message_Stream
  imports Cpp_String
begin

section \<open>Framing: messages that end with \<^verbatim>\<open>\final\\<close>\<close>

text \<open>
  The profile, player search and gamestats connections read the same way: every chunk that
  \<^verbatim>\<open>recv\<close> delivers is appended to a buffer, and as long as the buffer holds \<^verbatim>\<open>\final\\<close> the text up to
  it is cut off and handled. The two nested loops are written once here, over the handler of the
  connection. A list of chunks is what \<^verbatim>\<open>recv\<close> delivered before it returned zero or an error.

  The locale \<open>message_handler\<close> is what such a connection relies on: the handler does not throw and
  keeps an invariant. Inside it the whole connection is reduced to the list of messages of the
  stream, whatever the chunks.
\<close>

abbreviation backslash :: char where
  "backslash \<equiv> CHR 0x5C"

definition slashed :: "string \<Rightarrow> string" where
  "slashed key = [backslash] @ key @ [backslash]"

definition final_mark :: string where
  "final_mark = [CHR 0x5C] @ ''final'' @ [CHR 0x5C]"

lemma length_final_mark [simp]: "length final_mark = 7"
  by (simp add: final_mark_def)

lemma final_mark_nonempty [simp]: "final_mark \<noteq> []"
  by (simp add: final_mark_def)

text \<open>The inner loop: the rest of the buffer and the state after the messages in it.\<close>

function drain_buffer ::
  "(string \<Rightarrow> 's \<Rightarrow> 's option) \<Rightarrow> string \<Rightarrow> 's \<Rightarrow> (string \<times> 's) option" where
  "drain_buffer handle request_buffer st =
     (case str_find request_buffer final_mark 0 of
        None \<Rightarrow> Some (request_buffer, st)
      | Some message_end \<Rightarrow>
          let message_size = message_end + 7
          in do {
            request \<leftarrow> str_substr request_buffer 0 (Some message_size);
            st' \<leftarrow> handle request st;
            drain_buffer handle (drop message_size request_buffer) st'
          })"
  by pat_completeness auto
termination
  by (relation "measure (\<lambda>(handle, request_buffer, st). length request_buffer)")
    (auto dest!: find_sub_bound)

declare drain_buffer.simps [simp del]

text \<open>The outer loop.\<close>

fun serve_chunks ::
  "(string \<Rightarrow> 's \<Rightarrow> 's option) \<Rightarrow> string list \<Rightarrow> string \<Rightarrow> 's \<Rightarrow> (string \<times> 's) option" where
  "serve_chunks handle [] request_buffer st = Some (request_buffer, st)"
| "serve_chunks handle (request_chunk # chunks) request_buffer st = do {
     (request_buffer', st') \<leftarrow> drain_buffer handle (request_buffer @ request_chunk) st;
     serve_chunks handle chunks request_buffer' st'
   }"

subsection \<open>The messages of a stream\<close>

function messages_of :: "string \<Rightarrow> string list" where
  "messages_of s =
     (case find_sub final_mark s of
        None \<Rightarrow> [] | Some i \<Rightarrow> take (i + 7) s # messages_of (drop (i + 7) s))"
  by pat_completeness auto
termination
  by (relation "measure length") (auto dest!: find_sub_bound)

declare messages_of.simps [simp del]

function remainder_of :: "string \<Rightarrow> string" where
  "remainder_of s =
     (case find_sub final_mark s of None \<Rightarrow> s | Some i \<Rightarrow> remainder_of (drop (i + 7) s))"
  by pat_completeness auto
termination
  by (relation "measure length") (auto dest!: find_sub_bound)

declare remainder_of.simps [simp del]

lemma messages_remainder: "concat (messages_of s) @ remainder_of s = s"
proof (induction s rule: messages_of.induct)
  case (1 s)
  show ?case
  proof (cases "find_sub final_mark s")
    case None
    then show ?thesis by (simp add: messages_of.simps [of s] remainder_of.simps [of s])
  next
    case (Some i)
    with 1 [OF Some] show ?thesis
      by (simp add: messages_of.simps [of s] remainder_of.simps [of s])
  qed
qed

lemma remainder_unfinished: "find_sub final_mark (remainder_of s) = None"
proof (induction s rule: messages_of.induct)
  case (1 s)
  then show ?case
    by (cases "find_sub final_mark s") (simp_all add: remainder_of.simps [of s])
qed

lemma messages_finished:
  "m \<in> set (messages_of s) \<Longrightarrow> find_sub final_mark m = Some (length m - 7) \<and> suffix final_mark m"
proof (induction s rule: messages_of.induct)
  case (1 s)
  show ?case
  proof (cases "find_sub final_mark s")
    case None
    with 1 show ?thesis by (simp add: messages_of.simps [of s])
  next
    case (Some i)
    have b: "i + 7 \<le> length s" using find_sub_bound [OF Some] by simp
    have t: "take (i + 7) s = take i s @ final_mark"
      using find_sub_take [OF Some] by (simp add: take_add)
    have "find_sub final_mark (take (i + 7) s) = Some i"
    proof -
      have "prefix final_mark (drop j s)" if "j < i" "prefix final_mark (drop j (take (i + 7) s))" for j
        using that by (simp add: drop_take) (metis prefix_order.trans take_is_prefix)
      then show ?thesis
        using Some b t by (auto simp: find_sub_Some_iff)
    qed
    with b t have "find_sub final_mark (take (i + 7) s) = Some (length (take (i + 7) s) - 7) \<and>
        suffix final_mark (take (i + 7) s)"
      by (simp add: suffix_def)
    with 1 Some show ?thesis by (auto simp: messages_of.simps [of s])
  qed
qed

text \<open>Appending to a stream only adds messages at its end.\<close>

lemma messages_append:
  "messages_of (s @ t) = messages_of s @ messages_of (remainder_of s @ t) \<and>
   remainder_of (s @ t) = remainder_of (remainder_of s @ t)"
proof (induction s rule: messages_of.induct)
  case (1 s)
  show ?case
  proof (cases "find_sub final_mark s")
    case None
    then show ?thesis by (simp add: messages_of.simps [of s] remainder_of.simps [of s])
  next
    case (Some i)
    then have b: "i + 7 \<le> length s" and a: "find_sub final_mark (s @ t) = Some i"
      using find_sub_bound [OF Some] find_sub_append [OF Some] by simp_all
    show ?thesis
      using 1 [OF Some] Some b a
      by (simp add: messages_of.simps [of s] remainder_of.simps [of s]
          messages_of.simps [of "s @ t"] remainder_of.simps [of "s @ t"])
  qed
qed

lemma messages_of_message:
  assumes "find_sub final_mark (m @ final_mark) = Some (length m)"
  shows "messages_of (m @ final_mark @ s) = (m @ final_mark) # messages_of s"
    and "remainder_of (m @ final_mark @ s) = remainder_of s"
proof -
  have "find_sub final_mark (m @ final_mark @ s) = Some (length m)"
    using find_sub_append [OF assms, of s] by simp
  then show "messages_of (m @ final_mark @ s) = (m @ final_mark) # messages_of s"
    "remainder_of (m @ final_mark @ s) = remainder_of s"
    by (simp_all add: messages_of.simps [of "m @ final_mark @ s"]
        remainder_of.simps [of "m @ final_mark @ s"])
qed

subsection \<open>Handling them\<close>

fun handle_all :: "(string \<Rightarrow> 's \<Rightarrow> 's option) \<Rightarrow> string list \<Rightarrow> 's \<Rightarrow> 's option" where
  "handle_all handle [] st = Some st"
| "handle_all handle (m # ms) st = do { st' \<leftarrow> handle m st; handle_all handle ms st' }"

lemma handle_all_append:
  "handle_all handle (xs @ ys) st = do { st' \<leftarrow> handle_all handle xs st; handle_all handle ys st' }"
  by (induction xs arbitrary: st) (auto split: bind_split)

lemma drain_buffer_eq:
  "drain_buffer handle b st = map_option (Pair (remainder_of b)) (handle_all handle (messages_of b) st)"
proof (induction handle b st rule: drain_buffer.induct)
  case (1 handle b st)
  show ?case
  proof (cases "find_sub final_mark b")
    case None
    then show ?thesis
      by (simp add: drain_buffer.simps [of _ b] messages_of.simps [of b] remainder_of.simps [of b])
  next
    case (Some i)
    show ?thesis
    proof (cases "handle (take (i + 7) b) st")
      case None
      with Some show ?thesis
        by (simp add: drain_buffer.simps [of _ b] messages_of.simps [of b] Let_def str_substr_def)
    next
      case st': (Some st')
      with Some show ?thesis
        using 1 [of i "i + 7" "take (i + 7) b" st']
        by (simp add: drain_buffer.simps [of _ b] messages_of.simps [of b] remainder_of.simps [of b]
            Let_def str_substr_def)
    qed
  qed
qed

lemma serve_chunks_eq:
  "find_sub final_mark b = None \<Longrightarrow>
   serve_chunks handle chunks b st =
     map_option (Pair (remainder_of (b @ concat chunks)))
       (handle_all handle (messages_of (b @ concat chunks)) st)"
proof (induction handle chunks b st rule: serve_chunks.induct)
  case (1 handle b st)
  then show ?case by (simp add: messages_of.simps [of b] remainder_of.simps [of b])
next
  case (2 handle c chunks b st)
  have m: "messages_of (b @ c @ concat chunks) =
      messages_of (b @ c) @ messages_of (remainder_of (b @ c) @ concat chunks)"
    "remainder_of (b @ c @ concat chunks) = remainder_of (remainder_of (b @ c) @ concat chunks)"
    using messages_append [of "b @ c" "concat chunks"] by simp_all
  show ?case
  proof (cases "handle_all handle (messages_of (b @ c)) st")
    case None
    then show ?thesis by (simp add: drain_buffer_eq m handle_all_append)
  next
    case (Some st')
    then show ?thesis
      using 2 remainder_unfinished [of "b @ c"]
      by (simp add: drain_buffer_eq m handle_all_append)
  qed
qed

subsection \<open>The contract of a message handler\<close>

locale message_handler =
  fixes handle :: "string \<Rightarrow> 's \<Rightarrow> 's option"
    and inv :: "'s \<Rightarrow> bool"
  assumes handle_total: "inv st \<Longrightarrow> \<exists>st'. handle m st = Some st'"
    and handle_inv: "inv st \<Longrightarrow> handle m st = Some st' \<Longrightarrow> inv st'"
begin

lemma handle_all_total:
  "inv st \<Longrightarrow> \<exists>st'. handle_all handle ms st = Some st' \<and> inv st'"
proof (induction ms arbitrary: st)
  case Nil
  then show ?case by simp
next
  case (Cons m ms)
  then show ?case using handle_total [of st m] handle_inv by fastforce
qed

text \<open>A connection handles the messages of its stream, in order, and never stops early.\<close>

lemma serve_total:
  "inv st \<Longrightarrow>
   \<exists>st'. serve_chunks handle chunks [] st = Some (remainder_of (concat chunks), st') \<and> inv st' \<and>
     handle_all handle (messages_of (concat chunks)) st = Some st'"
  using handle_all_total [of st "messages_of (concat chunks)"]
  by (auto simp: serve_chunks_eq final_mark_def)

text \<open>How the stream was cut into chunks does not matter.\<close>

lemma chunks_irrelevant:
  "concat chunks = concat chunks' \<Longrightarrow>
   serve_chunks handle chunks [] st = serve_chunks handle chunks' [] st"
  by (simp add: serve_chunks_eq final_mark_def)

end

subsection \<open>Properties\<close>

text \<open>
  Framing loses nothing and invents nothing: the messages of a stream and the rest of the buffer
  are the stream; each message ends at its only end mark and the rest holds none.
\<close>

theorem framing_exact:
  "(\<exists>b. serve_chunks (\<lambda>m ms. Some (ms @ [m])) chunks [] [] = Some (b, messages_of (concat chunks)) \<and>
     concat (messages_of (concat chunks)) @ b = concat chunks \<and> find_sub final_mark b = None) \<and>
   list_all (\<lambda>m. find_sub final_mark m = Some (length m - 7) \<and> suffix final_mark m)
     (messages_of (concat chunks))"
proof -
  have "handle_all (\<lambda>m ms. Some (ms @ [m])) xs acc = Some (acc @ xs)" for xs and acc :: "string list"
    by (induction xs arbitrary: acc) simp_all
  then show ?thesis
    using messages_remainder remainder_unfinished messages_finished
    by (auto simp: serve_chunks_eq final_mark_def list_all_iff)
qed

end
