(* ===== verification/Player_Search.thy ===== *)
theory Player_Search
  imports Sessions Message_Stream
begin

section \<open>The player search (\<^verbatim>\<open>src/server_discovery.cpp\<close>)\<close>

text \<open>
  A connection of the player search reads requests that end with the end mark and answers each with the
  sessions of the profiles it asks for. The pruning and the search each hold the mutex of the registry;
  they are taken here without a step of another thread in between. The steady clock is read once per
  request.
\<close>

text \<open>The loop that cuts the list of profile ids at the bars.\<close>

function opid_loop :: "string \<Rightarrow> nat \<Rightarrow> string list option" where
  "opid_loop opids start =
     (if start \<le> length opids
      then
        let separator = str_find opids ''|'' start
        in do {
          opid \<leftarrow> str_substr opids start (count_to separator start);
          let pushed = (if opid \<noteq> [] then [opid] else []);
          (case separator of
             None \<Rightarrow> Some pushed
           | Some s \<Rightarrow> do { rest \<leftarrow> opid_loop opids (s + 1); Some (pushed @ rest) })
        }
      else Some [])"
  by pat_completeness auto
termination
  by (relation "measure (\<lambda>(opids, start). Suc (length opids) - start)") (auto dest!: str_find_bound [OF sym])

declare opid_loop.simps [simp del]

definition requested_profiles :: "string \<Rightarrow> string list option" where
  "requested_profiles request =
     (case str_find request (slashed ''opids'') 0 of
        None \<Rightarrow> Some []
      | Some opids_marker \<Rightarrow>
          let value_start = opids_marker + 7;
              value_end = str_find request [backslash] value_start
          in do {
            opids \<leftarrow> str_substr request value_start (count_to value_end value_start);
            opid_loop opids 0
          })"

definition session_entry :: "online_session \<Rightarrow> string" where
  "session_entry session =
     slashed ''o'' @ os_profile_id session @ slashed ''uniquenick'' @ os_unique_nick session"

definition player_search_response ::
  "(u32, int) layout \<Rightarrow> (u32, online_session) layout \<Rightarrow> int \<Rightarrow> string \<Rightarrow> session_store \<Rightarrow>
   (string \<times> session_store) option" where
  "player_search_response lay lay' now request st =
     (let st' = prune_online_sessions lay now (seconds 61) st
      in do {
        profiles \<leftarrow> requested_profiles request;
        Some (slashed ''otherslist'' @
          concat (map session_entry (online_sessions_for_profiles lay' profiles st')) @
          slashed ''oldone'' @ slashed ''final'', st')
      })"

record search_conn =
  search_sessions :: session_store
  search_clock :: "nat \<Rightarrow> int"
  search_reads :: nat
  search_sent :: "string list"

definition handle_search_request ::
  "(u32, int) layout \<Rightarrow> (u32, online_session) layout \<Rightarrow> string \<Rightarrow> search_conn \<Rightarrow>
   search_conn option" where
  "handle_search_request lay lay' request c = do {
     (response, st) \<leftarrow> player_search_response lay lay' (search_clock c (search_reads c)) request
       (search_sessions c);
     Some (c\<lparr>search_sessions := st, search_reads := Suc (search_reads c),
             search_sent := search_sent c @ [response]\<rparr>)
   }"

definition handle_player_search_connection ::
  "(u32, int) layout \<Rightarrow> (u32, online_session) layout \<Rightarrow> int \<Rightarrow> string list \<Rightarrow> search_conn \<Rightarrow>
   search_conn option" where
  "handle_player_search_connection lay lay' fd chunks c =
     (if fd < 0 then Some c
      else map_option snd (serve_chunks (handle_search_request lay lay') chunks [] c))"

subsection \<open>The profiles a request asks for\<close>

lemma opid_loop_split:
  "start \<le> length opids \<Longrightarrow>
   opid_loop opids start = Some (filter (\<lambda>p. p \<noteq> []) (split_on (CHR ''|'') (drop start opids)))"
proof (induction opids start rule: opid_loop.induct)
  case (1 opids start)
  show ?case
  proof (cases "find_sub ''|'' (drop start opids)")
    case None
    then have f: "str_find opids ''|'' start = None" using 1 by (simp add: str_find_def)
    have "takeWhile (\<lambda>d. d \<noteq> CHR ''|'') (drop start opids) = drop start opids"
      using None by (auto simp: find_sub_single_None takeWhile_eq_all_conv)
    with f None 1(2) show ?thesis
      by (simp add: opid_loop.simps [of opids start] str_substr_in
          split_on_unfold [of _ "drop start opids"] Let_def del: takeWhile_eq_all_conv)
  next
    case (Some i)
    then have f: "str_find opids ''|'' start = Some (start + i)" using 1 by (simp add: str_find_def)
    have b: "start + i + 1 \<le> length opids" using find_sub_bound [OF Some] 1(2) by simp
    have t: "str_substr opids start (count_to (str_find opids ''|'' start) start) =
        Some (takeWhile (\<lambda>d. d \<noteq> CHR ''|'') (drop start opids))"
      by (rule str_substr_until [OF 1(2)])
    have r: "opid_loop opids (start + i + 1) =
        Some (filter (\<lambda>p. p \<noteq> []) (split_on (CHR ''|'') (drop (start + i + 1) opids)))"
      using 1(1) [OF 1(2) refl t refl f] b by simp
    show ?thesis
      using f t r 1(2) Some
      by (simp add: opid_loop.simps [of opids start] split_on_unfold [of _ "drop start opids"] Let_def
          add_ac)
  qed
qed

lemma requested_profiles_eq:
  "requested_profiles request = Some (filter (\<lambda>p. p \<noteq> [])
     (split_on (CHR ''|'') (field_after (slashed ''opids'') backslash request)))"
proof (cases "find_sub (slashed ''opids'') request")
  case None
  then show ?thesis by (simp add: requested_profiles_def field_after_def)
next
  case (Some i)
  have b: "i + 7 \<le> length request" using find_sub_bound [OF Some] by (simp add: slashed_def)
  have l: "length (slashed ''opids'') = 7" by (simp add: slashed_def)
  from Some b show ?thesis
    by (simp add: requested_profiles_def field_after_def Let_def str_substr_until opid_loop_split l)
qed

subsection \<open>The connection\<close>

definition search_inv :: "search_conn \<Rightarrow> bool" where
  "search_inv c \<longleftrightarrow> sessions_inv (search_sessions c)"

definition render_sessions :: "online_session list \<Rightarrow> string" where
  "render_sessions sessions =
     slashed ''otherslist'' @ concat (map session_entry sessions) @
     slashed ''oldone'' @ slashed ''final''"

definition asked_profiles :: "string \<Rightarrow> string list" where
  "asked_profiles request =
     filter (\<lambda>p. p \<noteq> []) (split_on (CHR ''|'') (field_after (slashed ''opids'') backslash request))"

lemma handle_search_request_eq:
  "handle_search_request lay lay' request c =
   (let st = prune_online_sessions lay (search_clock c (search_reads c)) (seconds 61) (search_sessions c)
    in Some (c\<lparr>search_sessions := st, search_reads := Suc (search_reads c),
      search_sent := search_sent c @
        [render_sessions (online_sessions_for_profiles lay' (asked_profiles request) st)]\<rparr>))"
  by (simp add: handle_search_request_def player_search_response_def requested_profiles_eq
      asked_profiles_def render_sessions_def Let_def)

interpretation player_search: message_handler "handle_search_request lay lay'" search_inv
  for lay lay'
  by unfold_locales
    (auto simp: handle_search_request_eq Let_def search_inv_def registry.prune_inv)

text \<open>One request is answered with exactly the sessions of the profiles it asks for that were seen lately.\<close>

lemma search_answer:
  assumes "sessions_inv st"
  shows "set (online_sessions_for_profiles lay' profiles (prune_online_sessions lay now (seconds 61) st)) =
    {s. \<exists>k seen. live st k = Some (s, seen) \<and> now - seconds 61 < seen \<and> os_profile_id s \<in> set profiles}"
proof (rule set_eqI, rule iffI)
  fix s assume "s \<in> set (online_sessions_for_profiles lay' profiles (prune_online_sessions lay now (seconds 61) st))"
  then show "s \<in> {s. \<exists>k seen. live st k = Some (s, seen) \<and> now - seconds 61 < seen \<and> os_profile_id s \<in> set profiles}"
    using registry.query_prune_fresh [OF assms] by blast
next
  fix s assume "s \<in> {s. \<exists>k seen. live st k = Some (s, seen) \<and> now - seconds 61 < seen \<and> os_profile_id s \<in> set profiles}"
  then show "s \<in> set (online_sessions_for_profiles lay' profiles (prune_online_sessions lay now (seconds 61) st))"
    using registry.query_prune_complete [OF assms] by blast
qed

text \<open>A request as a client writes it: the ids with bars between them.\<close>

fun bars :: "string list \<Rightarrow> string" where
  "bars [] = []"
| "bars [p] = p"
| "bars (p # q # ps) = p @ CHR ''|'' # bars (q # ps)"

lemma split_bars:
  "ids \<noteq> [] \<Longrightarrow> \<forall>p \<in> set ids. CHR ''|'' \<notin> set p \<Longrightarrow> split_on (CHR ''|'') (bars ids) = ids"
  by (induction ids rule: bars.induct) (simp_all add: split_on_single split_on_append)

lemma bars_chars: "set (bars ids) \<subseteq> insert (CHR ''|'') (\<Union> (set (map set ids)))"
  by (induction ids rule: bars.induct) auto

definition search_request :: "string \<Rightarrow> string list \<Rightarrow> string \<Rightarrow> string" where
  "search_request before ids rest = before @ slashed ''opids'' @ bars ids @ [backslash] @ rest"

lemma asked_of_request:
  assumes "ids \<noteq> []" and "\<forall>p \<in> set ids. p \<noteq> [] \<and> CHR ''|'' \<notin> set p \<and> backslash \<notin> set p"
    and "find_sub (slashed ''opids'') (before @ slashed ''opids'') = Some (length before)"
  shows "asked_profiles (search_request before ids rest) = ids"
proof -
  have b: "backslash \<notin> set (bars ids)" using bars_chars [of ids] assms(2) by auto
  have "find_sub (slashed ''opids'') (search_request before ids rest) = Some (length before)"
    using find_sub_append [OF assms(3), of "bars ids @ [backslash] @ rest"]
    by (simp add: search_request_def)
  then have "field_after (slashed ''opids'') backslash (search_request before ids rest) =
      takeWhile (\<lambda>d. d \<noteq> backslash) (bars ids @ backslash # rest)"
    by (simp add: field_after_def search_request_def)
  also have "\<dots> = bars ids" using b by (subst takeWhile_append2) auto
  finally have "asked_profiles (search_request before ids rest) = filter (\<lambda>p. p \<noteq> []) ids"
    using assms by (simp add: asked_profiles_def split_bars)
  also have "\<dots> = ids" using assms(2) by (simp add: filter_True)
  finally show ?thesis .
qed

lemma search_connection_answers:
  assumes "search_inv c" and "0 \<le> fd"
    and "concat chunks = search_request before ids rest"
    and "messages_of (search_request before ids rest) = [search_request before ids rest]"
    and "ids \<noteq> []" and "\<forall>p \<in> set ids. p \<noteq> [] \<and> CHR ''|'' \<notin> set p \<and> backslash \<notin> set p"
    and "find_sub (slashed ''opids'') (before @ slashed ''opids'') = Some (length before)"
  shows "\<exists>c' sessions. handle_player_search_connection lay lay' fd chunks c = Some c' \<and> search_inv c' \<and>
    search_sent c' = search_sent c @ [render_sessions sessions] \<and>
    set sessions = {s. \<exists>k seen. live (search_sessions c) k = Some (s, seen) \<and>
      search_clock c (search_reads c) - seconds 61 < seen \<and> os_profile_id s \<in> set ids}"
proof -
  let ?st = "prune_online_sessions lay (search_clock c (search_reads c)) (seconds 61) (search_sessions c)"
  obtain c' where s: "serve_chunks (handle_search_request lay lay') chunks [] c =
      Some (remainder_of (concat chunks), c')" and i: "search_inv c'"
    and h: "handle_all (handle_search_request lay lay') (messages_of (concat chunks)) c = Some c'"
    using player_search.serve_total [OF assms(1)] by blast
  from h have "search_sent c' = search_sent c @
      [render_sessions (online_sessions_for_profiles lay' ids ?st)]"
    using assms(4) asked_of_request [OF assms(5-7)]
    by (simp add: assms(3) handle_search_request_eq Let_def) auto
  moreover have "handle_player_search_connection lay lay' fd chunks c = Some c'"
    using s assms(2) by (simp add: handle_player_search_connection_def)
  ultimately show ?thesis
    using i search_answer assms(1) unfolding search_inv_def by blast
qed

subsection \<open>Properties\<close>

text \<open>
  C20. A player search connection that receives one request, in whatever chunks, is answered once, with
  exactly the sessions of the profiles the request asks for that were seen in the last 61 seconds.
\<close>

theorem player_search_lists_fresh:
  assumes "search_inv c" and "0 \<le> fd"
    and "concat chunks = search_request before ids rest"
    and "messages_of (search_request before ids rest) = [search_request before ids rest]"
    and "ids \<noteq> []" and "\<forall>p \<in> set ids. p \<noteq> [] \<and> CHR ''|'' \<notin> set p \<and> backslash \<notin> set p"
    and "find_sub (slashed ''opids'') (before @ slashed ''opids'') = Some (length before)"
  shows "\<exists>c' sessions. handle_player_search_connection lay lay' fd chunks c = Some c' \<and> search_inv c' \<and>
    search_sent c' = search_sent c @ [render_sessions sessions] \<and>
    set sessions = {s. \<exists>k seen. live (search_sessions c) k = Some (s, seen) \<and>
      search_clock c (search_reads c) - seconds 61 < seen \<and> os_profile_id s \<in> set ids}"
  by (rule search_connection_answers [OF assms])

theorem player_search_lists_fresh_witness:
  "\<exists>c' sessions. handle_player_search_connection insertion_order insertion_order 4
      [slashed ''opids'' @ ''102|1'', ''01'' @ [backslash], ''final'' @ [backslash]]
      \<lparr>search_sessions = upsert_online_session 5 sample_session no_sessions,
       search_clock = (\<lambda>n. 7), search_reads = 0, search_sent = []\<rparr> = Some c' \<and>
    search_sent c' = [render_sessions sessions] \<and> set sessions = {sample_session}"
proof -
  have "live (upsert_online_session 5 sample_session no_sessions) = [7 \<mapsto> (sample_session, 5)]"
    by (simp add: registry.reg_upsert sample_session_def)
  then have l: "{s. \<exists>k seen. live (upsert_online_session 5 sample_session no_sessions) k = Some (s, seen) \<and>
      (7::int) - seconds 61 < seen \<and> os_profile_id s \<in> set [''102'', ''101'']} = {sample_session}"
    by (auto simp: seconds_def sample_session_def split: if_splits)
  have m: "messages_of (search_request [] [''102'', ''101''] (''final'' @ [backslash])) =
      [search_request [] [''102'', ''101''] (''final'' @ [backslash])]"
    by code_simp
  have f: "find_sub (slashed ''opids'') ([] @ slashed ''opids'') = Some (length ([]::string))"
    by (simp add: find_sub_0_iff)
  have "search_inv \<lparr>search_sessions = upsert_online_session 5 sample_session no_sessions,
       search_clock = (\<lambda>n. 7), search_reads = 0, search_sent = []\<rparr>"
    by (simp add: search_inv_def inv_upsert)
  from player_search_lists_fresh [OF this _ _ m _ _ f, of 4
      "[slashed ''opids'' @ ''102|1'', ''01'' @ [backslash], ''final'' @ [backslash]]"
      insertion_order insertion_order] l
  show ?thesis by (simp add: search_request_def) blast
qed

end
