(* ===== verification/Discovery.thy ===== *)
theory Discovery
  imports Server_Qr Player_Search
begin

section \<open>QR socket and player search side by side\<close>

text \<open>
  The main thread handles QR packets while the threads of the player search prune and read the same
  registry; each access holds the mutex of the registry, so each is a step. The relation
  \<open>discovery_step\<close> has one rule for each: a packet, the pruning of a search, and its query with the
  sessions it returns. \<open>discovery_run\<close> is any interleaving of them.
\<close>

datatype discovery_event = Packet datagram qr_clock | Prune int | Query "string list" "online_session list"

inductive discovery_step ::
  "string \<Rightarrow> qr_server \<Rightarrow> discovery_event \<Rightarrow> qr_server \<Rightarrow> bool" for secret_key where
  packet: "handle_qr_packet lay secret_key clock incoming st = Some (out, st') \<Longrightarrow>
    discovery_step secret_key st (Packet incoming clock) st'"
| prune: "discovery_step secret_key st (Prune now)
    (st\<lparr>qr_sessions := prune_online_sessions lay now (seconds 61) (qr_sessions st)\<rparr>)"
| query: "discovery_step secret_key st
    (Query ids (online_sessions_for_profiles lay ids (qr_sessions st))) st"

inductive discovery_run ::
  "string \<Rightarrow> qr_server \<Rightarrow> discovery_event list \<Rightarrow> qr_server \<Rightarrow> bool" for secret_key where
  start: "discovery_run secret_key st [] st"
| next_step: "discovery_run secret_key st es st' \<Longrightarrow> discovery_step secret_key st' e st'' \<Longrightarrow>
    discovery_run secret_key st (es @ [e]) st''"

inductive_cases discovery_step_cases:
  "discovery_step secret_key st (Packet incoming clock) st'"
  "discovery_step secret_key st (Prune now) st'"

inductive_simps discovery_query_iff: "discovery_step secret_key st (Query ids found) st'"

definition fresh_discovery :: "rng \<Rightarrow> qr_server" where
  "fresh_discovery g = \<lparr>qr_challenges = [], qr_sessions = no_sessions, qr_generator = g\<rparr>"

subsection \<open>What a step does to the registry\<close>

text \<open>A datagram that opens a session, or keeps it open: a heartbeat that does not close it.\<close>

definition opens_session :: "datagram \<Rightarrow> u32 \<Rightarrow> online_session \<Rightarrow> bool" where
  "opens_session incoming k s \<longleftrightarrow>
     (\<exists>datagram client. incoming = Some (datagram, client) \<and>
        is_mariokartwii_heartbeat (take 2048 datagram) = Some True \<and>
        qr_field_value (take 2048 datagram) ''statechanged'' \<noteq> Some ''2'' \<and>
        k = packet_session (take 2048 datagram) \<and>
        s = described_session (take 2048 datagram) k client)"

lemma refreshed_live:
  assumes "sessions_inv st" and "live (qr_refreshed lay clock packet k st) j = Some (s, t)"
  shows "\<exists>t'. live st j = Some (s, t')"
  using assms
  by (auto simp: qr_refreshed_def registry.reg_prune registry.invs registry.reg_touch
      split: option.splits if_splits)

lemma issue_challenge_sessions:
  "issue_challenge k client st = Some (out, st') \<Longrightarrow> qr_sessions st' = qr_sessions st"
  by (auto simp: issue_challenge_eq split: if_splits)

lemma packet_live:
  assumes inv: "qr_inv st" and step: "handle_qr_packet lay secret_key clock incoming st = Some (out, st')"
    and l: "live (qr_sessions st') j = Some (s, t)"
  shows "(\<exists>t'. live (qr_sessions st) j = Some (s, t')) \<or> opens_session incoming j s"
proof (cases incoming)
  case None
  then show ?thesis using step l by (auto simp: handle_qr_packet_def recvfrom_def)
next
  case (Some p)
  obtain datagram client where p: "p = (datagram, client)" by (cases p)
  define packet where "packet = take 2048 datagram"
  define k where "k = packet_session packet"
  define refreshed where "refreshed = qr_refreshed lay clock packet k (qr_sessions st)"
  have si: "sessions_inv (qr_sessions st)" "sessions_inv refreshed"
    using inv refreshed_inv by (auto simp: qr_inv_def refreshed_def)
  have old: "\<exists>t'. live (qr_sessions st) j = Some (s, t')" if "live refreshed j = Some (s, t)"
    using refreshed_live [OF si(1)] that unfolding refreshed_def by blast
  show ?thesis
  proof (cases "qr_sessions st' = refreshed")
    case True
    then show ?thesis using old l by simp
  next
    case False
    then have hb: "is_mariokartwii_heartbeat packet = Some True"
      and h: "handle_heartbeat clock packet k client (st\<lparr>qr_sessions := refreshed\<rparr>) = Some (out, st')"
      using step unfolding Some p handle_qr_packet_cases packet_def [symmetric] k_def [symmetric]
        refreshed_def [symmetric]
      by (auto split: if_splits)
    obtain v where v: "qr_field_value packet ''statechanged'' = Some v"
      using qr_field_value_total by blast
    have "qr_sessions st' = (if v = ''2'' then remove_online_session k refreshed
        else upsert_online_session (insert_time clock) (described_session packet k client) refreshed)"
      using h v issue_challenge_sessions by (fastforce simp: handle_heartbeat_eq split: if_splits)
    then show ?thesis
      using l old si(2) hb v
      by (auto simp: registry.reg_remove registry.reg_upsert described_session_fields opens_session_def
          Some p packet_def k_def split: if_splits)
  qed
qed

lemma discovery_step_inv: "discovery_step secret_key st e st' \<Longrightarrow> qr_inv st \<Longrightarrow> qr_inv st'"
proof (induction rule: discovery_step.induct)
  case (packet lay clock incoming st out st')
  then show ?case using qr_packet_steps [OF packet.prems, of lay secret_key clock incoming] by auto
next
  case (prune st now lay)
  then show ?case by (simp add: qr_inv_def registry.prune_inv)
qed simp

lemma discovery_run_inv: "discovery_run secret_key st es st' \<Longrightarrow> qr_inv st \<Longrightarrow> qr_inv st'"
  by (induction rule: discovery_run.induct) (blast intro: discovery_step_inv)+

text \<open>Only a heartbeat adds a session.\<close>

lemma step_live:
  assumes "discovery_step secret_key st e st'" and "qr_inv st" and "live (qr_sessions st') j = Some (s, t)"
  shows "(\<exists>t'. live (qr_sessions st) j = Some (s, t')) \<or>
    (\<exists>incoming clock. e = Packet incoming clock \<and> opens_session incoming j s)"
  using assms
proof (induction rule: discovery_step.induct)
  case (packet lay clock incoming st out st')
  then show ?case using packet_live by blast
next
  case (prune st now lay)
  then show ?case by (auto simp: qr_inv_def registry.reg_prune split: option.splits if_splits)
qed simp

lemma run_live:
  assumes "discovery_run secret_key st es st'" and "qr_inv st" and "live (qr_sessions st') j = Some (s, t)"
  shows "(\<exists>t'. live (qr_sessions st) j = Some (s, t')) \<or>
    (\<exists>incoming clock. Packet incoming clock \<in> set es \<and> opens_session incoming j s)"
  using assms
proof (induction arbitrary: t rule: discovery_run.induct)
  case (start st)
  then show ?case by blast
next
  case (next_step st es st' e st'')
  note i = discovery_run_inv [OF next_step.hyps(1) next_step.prems(1)]
  show ?case
    using step_live [OF next_step.hyps(2) i next_step.prems(2)] next_step.IH [OF next_step.prems(1)]
    by (elim disjE exE conjE) (force, force)
qed

lemma query_live:
  assumes "qr_inv st" and "discovery_step secret_key st (Query ids found) st'" and "s \<in> set found"
  shows "\<exists>t. live (qr_sessions st) (os_session_id s) = Some (s, t) \<and> os_profile_id s \<in> set ids"
proof -
  have i: "sessions_inv (qr_sessions st)" using assms(1) by (simp add: qr_inv_def)
  then obtain k t where "live (qr_sessions st) k = Some (s, t)" "os_profile_id s \<in> set ids"
    using assms(2,3) by (auto simp: discovery_query_iff registry.set_query_reg)
  with registry.reg_id [OF i] show ?thesis by blast
qed

lemma fresh_inv: "qr_inv (fresh_discovery g)" "live (qr_sessions (fresh_discovery g)) = Map.empty"
  by (simp_all add: qr_inv_def fresh_discovery_def um_valid_def um_find_def)

subsection \<open>Properties\<close>

text \<open>
  Whatever the interleaving of QR packets and searches, a search returns only sessions it asked
  for that announced themselves: for each there was a heartbeat, with the session's id, from the
  address and with the profile that are listed, and it was not a closing one.
\<close>

theorem search_returns_announced:
  assumes "discovery_run secret_key (fresh_discovery g) es st"
    and "discovery_step secret_key st (Query ids found) st'" and "s \<in> set found"
  shows "os_profile_id s \<in> set ids \<and>
    (\<exists>incoming clock. Packet incoming clock \<in> set es \<and> opens_session incoming (os_session_id s) s)"
proof -
  have "qr_inv st" using discovery_run_inv [OF assms(1)] fresh_inv by blast
  then obtain t where t: "live (qr_sessions st) (os_session_id s) = Some (s, t)" "os_profile_id s \<in> set ids"
    using query_live assms(2,3) by blast
  from run_live [OF assms(1) fresh_inv(1) t(1)] t(2) show ?thesis by (simp add: fresh_inv)
qed

theorem search_returns_announced_witness:
  "\<exists>st found s. discovery_run ''9r3Rmy'' (fresh_discovery \<lparr>draws = (\<lambda>n. n), drawn = 0\<rparr>)
      [Packet (Some (sample_heartbeat ''1'', sample_client)) sample_clock] st \<and>
    discovery_step ''9r3Rmy'' st (Query [''7''] found) st \<and> s \<in> set found \<and>
    opens_session (Some (sample_heartbeat ''1'', sample_client)) (os_session_id s) s"
proof -
  let ?g = "\<lparr>draws = (\<lambda>n. n), drawn = 0\<rparr>" and ?d = "described_session (sample_heartbeat ''1'') 7 sample_client"
  have n: "um_find (qr_challenges (fresh_discovery ?g)) 7 = None" by (simp add: fresh_discovery_def um_find_def)
  obtain out st where h: "handle_qr_packet insertion_order ''9r3Rmy'' sample_clock
      (Some (sample_heartbeat ''1'', sample_client)) (fresh_discovery ?g) = Some (out, st)"
    and l: "live (qr_sessions st) 7 = Some (?d, insert_time sample_clock)"
    using handshake_runs [OF fresh_inv(1) _ _ _ _ _ n, of "''9r3Rmy''" "sample_heartbeat ''1''"
        insertion_order sample_clock sample_client]
    by (simp add: sample_heartbeat_ok sample_heartbeat_state sample_heartbeat_session) blast
  have r: "discovery_run ''9r3Rmy'' (fresh_discovery ?g)
      [Packet (Some (sample_heartbeat ''1'', sample_client)) sample_clock] st"
    using discovery_run.next_step [OF discovery_run.start discovery_step.packet [OF h]] by simp
  have q: "discovery_step ''9r3Rmy'' st
      (Query [''7''] (online_sessions_for_profiles insertion_order [''7''] (qr_sessions st))) st"
    by (rule discovery_step.query)
  have "sessions_inv (qr_sessions st)" using discovery_run_inv [OF r fresh_inv(1)] by (simp add: qr_inv_def)
  moreover have "os_profile_id ?d = ''7''" by code_simp
  ultimately have m: "?d \<in> set (online_sessions_for_profiles insertion_order [''7''] (qr_sessions st))"
    using l by (auto simp: registry.set_query_reg)
  from search_returns_announced [OF r q m] r q m show ?thesis by auto
qed

text \<open>
  A closed session stays closed: after its closing heartbeat no search returns a session with its
  id, whatever happens in between, until it sends a heartbeat that opens it again.
\<close>

theorem closed_session_not_returned:
  assumes "qr_inv st" and "length heartbeat \<le> 2048"
    and "is_mariokartwii_heartbeat heartbeat = Some True"
    and "qr_field_value heartbeat ''statechanged'' = Some ''2''"
    and "discovery_step secret_key st (Packet (Some (heartbeat, client)) clock) st1"
    and "discovery_run secret_key st1 es st2"
    and "\<not> (\<exists>incoming c s. Packet incoming c \<in> set es \<and> opens_session incoming (packet_session heartbeat) s)"
    and "discovery_step secret_key st2 (Query ids found) st3"
  shows "packet_session heartbeat \<notin> os_session_id ` set found"
proof
  assume "packet_session heartbeat \<in> os_session_id ` set found"
  then obtain s where s: "s \<in> set found" "os_session_id s = packet_session heartbeat" by auto
  have i: "qr_inv st1" "qr_inv st2"
    using discovery_step_inv [OF assms(5,1)] discovery_run_inv [OF assms(6)] by blast+
  obtain t where "live (qr_sessions st2) (packet_session heartbeat) = Some (s, t)"
    using query_live [OF i(2) assms(8) s(1)] s(2) by auto
  then obtain t' where l: "live (qr_sessions st1) (packet_session heartbeat) = Some (s, t')"
    using run_live [OF assms(6) i(1)] assms(7) by blast
  from assms(5) obtain lay out where h: "handle_qr_packet lay secret_key clock (Some (heartbeat, client)) st = Some (out, st1)"
    by (auto elim: discovery_step_cases)
  have "live (qr_sessions st1) (packet_session heartbeat) = None"
    using closing_runs [OF assms(1-4) refl, of lay secret_key clock client] h by auto
  with l show False by simp
qed

theorem closed_session_not_returned_witness:
  "\<exists>st1 found. discovery_step ''9r3Rmy'' sample_qr
      (Packet (Some (sample_heartbeat ''2'', sample_client)) sample_clock) st1 \<and>
    discovery_step ''9r3Rmy'' st1 (Query [''101''] found) st1 \<and> 7 \<notin> os_session_id ` set found"
proof -
  obtain out st1 where h: "handle_qr_packet insertion_order ''9r3Rmy'' sample_clock
      (Some (sample_heartbeat ''2'', sample_client)) sample_qr = Some (out, st1)"
    using qr_packet_steps [OF sample_qr_inv] by blast
  have q: "discovery_step ''9r3Rmy'' st1
      (Query [''101''] (online_sessions_for_profiles insertion_order [''101''] (qr_sessions st1))) st1"
    by (rule discovery_step.query)
  from closed_session_not_returned [OF sample_qr_inv _ _ _ discovery_step.packet [OF h] discovery_run.start _ q]
    discovery_step.packet [OF h] q
  show ?thesis
    by (auto simp: sample_heartbeat_ok sample_heartbeat_state sample_heartbeat_session)
qed

end
