(* ===== verification/Machine.thy ===== *)
theory Machine
  imports Main
begin

section \<open>Machines: runs, invariants and components\<close>

text \<open>
  A machine answers an event with an output and a new state, or fails. The locales hold what is proved
  of machines in general: a machine that never fails and keeps an invariant, a fact that lasts while
  nothing disturbs it, and a component of a machine, which runs inside the whole as it runs alone.
\<close>

fun run_events :: "('e \<Rightarrow> 's \<Rightarrow> ('o \<times> 's) option) \<Rightarrow> 'e list \<Rightarrow> 's \<Rightarrow> ('o list \<times> 's) option" where
  "run_events step [] s = Some ([], s)"
| "run_events step (e # es) s =
     (case step e s of
        None \<Rightarrow> None
      | Some (out, s') \<Rightarrow>
          (case run_events step es s' of
             None \<Rightarrow> None
           | Some (outs, s'') \<Rightarrow> Some (out # outs, s'')))"

lemma run_events_Cons_iff:
  "run_events step (e # es) s = Some (outs, s'') \<longleftrightarrow>
   (\<exists>out outs' s'. step e s = Some (out, s') \<and> run_events step es s' = Some (outs', s'') \<and>
      outs = out # outs')"
  by (auto split: option.splits)

lemma run_events_append:
  "run_events step (es @ es') s =
   (case run_events step es s of
      None \<Rightarrow> None
    | Some (outs, s') \<Rightarrow>
        (case run_events step es' s' of
           None \<Rightarrow> None
         | Some (outs', s'') \<Rightarrow> Some (outs @ outs', s'')))"
  by (induction es arbitrary: s) (auto split: option.splits)

lemma run_events_length: "run_events step es s = Some (outs, s') \<Longrightarrow> length outs = length es"
  by (induction es arbitrary: s outs) (auto split: option.splits)

subsection \<open>A machine that never fails\<close>

locale total_machine =
  fixes step :: "'e \<Rightarrow> 's \<Rightarrow> ('o \<times> 's) option"
    and inv :: "'s \<Rightarrow> bool"
    and possible :: "'e \<Rightarrow> bool"
  assumes step_total: "inv s \<Longrightarrow> possible e \<Longrightarrow> \<exists>out s'. step e s = Some (out, s') \<and> inv s'"
begin

lemma step_inv: "inv s \<Longrightarrow> possible e \<Longrightarrow> step e s = Some (out, s') \<Longrightarrow> inv s'"
  using step_total by fastforce

lemma run_total:
  "inv s \<Longrightarrow> list_all possible es \<Longrightarrow>
   \<exists>outs s'. run_events step es s = Some (outs, s') \<and> inv s' \<and> length outs = length es"
proof (induction es arbitrary: s)
  case Nil
  then show ?case by simp
next
  case (Cons e es)
  then obtain out s1 where "step e s = Some (out, s1)" "inv s1" using step_total by fastforce
  moreover from Cons.IH [OF this(2)] Cons.prems
  obtain outs s2 where "run_events step es s1 = Some (outs, s2)" "inv s2" "length outs = length es"
    by auto
  ultimately show ?case by simp
qed

lemma run_inv:
  "inv s \<Longrightarrow> list_all possible es \<Longrightarrow> run_events step es s = Some (outs, s') \<Longrightarrow> inv s'"
  using run_total by fastforce

end

subsection \<open>A fact that lasts\<close>

text \<open>\<open>quiet e\<close> says that the event does not disturb the fact.\<close>

locale lasting_fact = total_machine step inv possible
  for step :: "'e \<Rightarrow> 's \<Rightarrow> ('o \<times> 's) option" and inv possible +
  fixes fact :: "'s \<Rightarrow> bool"
    and quiet :: "'e \<Rightarrow> bool"
  assumes step_keeps: "inv s \<Longrightarrow> possible e \<Longrightarrow> fact s \<Longrightarrow> quiet e \<Longrightarrow> step e s = Some (out, s') \<Longrightarrow> fact s'"
begin

lemma run_keeps:
  "inv s \<Longrightarrow> list_all possible es \<Longrightarrow> fact s \<Longrightarrow> list_all quiet es \<Longrightarrow>
   run_events step es s = Some (outs, s') \<Longrightarrow> fact s'"
proof (induction es arbitrary: s outs)
  case Nil
  then show ?case by simp
next
  case (Cons e es)
  then obtain out outs' s1 where s1: "step e s = Some (out, s1)" "run_events step es s1 = Some (outs', s')"
    by (auto simp: run_events_Cons_iff simp del: run_events.simps)
  have "inv s1" "fact s1"
    using Cons.prems s1(1) step_inv [of s e] step_keeps [of s e] by auto
  with Cons.IH [of s1] Cons.prems s1(2) show ?case by simp
qed

end

text \<open>
  Whether an event disturbs a fact may depend on the state it meets: \<open>run_within\<close> says that every event of
  a run is allowed where it happens.
\<close>

fun run_within ::
  "('e \<Rightarrow> 's \<Rightarrow> bool) \<Rightarrow> ('e \<Rightarrow> 's \<Rightarrow> ('o \<times> 's) option) \<Rightarrow> 'e list \<Rightarrow> 's \<Rightarrow> bool" where
  "run_within allowed step [] s \<longleftrightarrow> True"
| "run_within allowed step (e # es) s \<longleftrightarrow>
     allowed e s \<and> (case step e s of None \<Rightarrow> True | Some (out, s') \<Rightarrow> run_within allowed step es s')"

lemma run_within_always: "list_all quiet es \<Longrightarrow> run_within (\<lambda>e s. quiet e) step es s"
  by (induction es arbitrary: s) (auto split: option.split)

locale guarded_fact = total_machine step inv possible
  for step :: "'e \<Rightarrow> 's \<Rightarrow> ('o \<times> 's) option" and inv possible +
  fixes fact :: "'s \<Rightarrow> bool"
    and allowed :: "'e \<Rightarrow> 's \<Rightarrow> bool"
  assumes step_guards: "inv s \<Longrightarrow> possible e \<Longrightarrow> fact s \<Longrightarrow> allowed e s \<Longrightarrow>
    step e s = Some (out, s') \<Longrightarrow> fact s'"
begin

lemma run_guards:
  "inv s \<Longrightarrow> list_all possible es \<Longrightarrow> fact s \<Longrightarrow> run_within allowed step es s \<Longrightarrow>
   run_events step es s = Some (outs, s') \<Longrightarrow> fact s'"
proof (induction es arbitrary: s outs)
  case Nil
  then show ?case by simp
next
  case (Cons e es)
  then obtain out outs' s1 where s1: "step e s = Some (out, s1)" "run_events step es s1 = Some (outs', s')"
    by (auto simp: run_events_Cons_iff simp del: run_events.simps)
  have "inv s1" "fact s1" "run_within allowed step es s1"
    using Cons.prems s1(1) step_inv [of s e] step_guards [of s e] by auto
  with Cons.IH [of s1] Cons.prems s1(2) show ?case by simp
qed

end

text \<open>A fact that lasts through quiet events is guarded by their being quiet.\<close>

sublocale lasting_fact \<subseteq> quiet_guard: guarded_fact step inv possible fact "\<lambda>e s. quiet e"
  using step_keeps by unfold_locales

subsection \<open>A component\<close>

text \<open>
  \<open>part\<close> is the component's share of the state, \<open>mine\<close> the component's event in an event of the whole.
\<close>

fun outputs_of :: "('e \<Rightarrow> 'f option) \<Rightarrow> 'e list \<Rightarrow> 'o list \<Rightarrow> 'o list" where
  "outputs_of mine (e # es) (out # outs) =
     (if mine e = None then outputs_of mine es outs else out # outputs_of mine es outs)"
| "outputs_of mine _ _ = []"

locale component =
  fixes step :: "'e \<Rightarrow> 's \<Rightarrow> ('o \<times> 's) option"
    and alone :: "'f \<Rightarrow> 't \<Rightarrow> ('p \<times> 't) option"
    and part :: "'s \<Rightarrow> 't"
    and mine :: "'e \<Rightarrow> 'f option"
    and wrap :: "'p \<Rightarrow> 'o"
  assumes step_mine: "mine e = Some f \<Longrightarrow> step e s = Some (out, s') \<Longrightarrow>
      \<exists>p. alone f (part s) = Some (p, part s') \<and> out = wrap p"
    and step_others: "mine e = None \<Longrightarrow> step e s = Some (out, s') \<Longrightarrow> part s' = part s"
begin

lemma run_alone:
  "run_events step es s = Some (outs, s') \<Longrightarrow>
   \<exists>ps. run_events alone (List.map_filter mine es) (part s) = Some (ps, part s') \<and>
     outputs_of mine es outs = map wrap ps"
proof (induction es arbitrary: s outs)
  case Nil
  then show ?case by (simp add: List.map_filter_def)
next
  case (Cons e es)
  then obtain out outs' s1 where s1: "step e s = Some (out, s1)"
    "run_events step es s1 = Some (outs', s')" "outs = out # outs'"
    by (auto simp: run_events_Cons_iff simp del: run_events.simps)
  show ?case
  proof (cases "mine e")
    case None
    with s1 Cons.IH [OF s1(2)] step_others [OF None s1(1)] show ?thesis
      by (simp add: List.map_filter_def)
  next
    case (Some f)
    with s1 Cons.IH [OF s1(2)] step_mine [OF Some s1(1)] show ?thesis
      by (auto simp: List.map_filter_def)
  qed
qed

text \<open>What the others do is not seen: equal events of its own, equal answers.\<close>

lemma others_unseen:
  assumes "run_events step es s = Some (outs, s')" and "run_events step es' r = Some (outs', r')"
    and "List.map_filter mine es = List.map_filter mine es'" and "part s = part r"
  shows "outputs_of mine es outs = outputs_of mine es' outs' \<and> part s' = part r'"
  using run_alone [OF assms(1)] run_alone [OF assms(2)] assms(3,4) by auto

end

end
