(* ===== verification/Discovery_Threads.thy ===== *)
theory Discovery_Threads
  imports Discovery Machine
begin

section \<open>QR packets and searches in their critical sections (\<^verbatim>\<open>src/server_discovery.cpp\<close>)\<close>

text \<open>
  The registry of sessions is guarded by a mutex that each of its operations takes for itself. A QR
  packet touches a session, prunes, and then inserts or removes; a search prunes and then asks. Here
  each of these is a step, so that the searches of any number of threads fall between the accesses of
  the main thread. The handlers taken as one step are these sections in a row.
\<close>

subsection \<open>The sections of a QR packet\<close>

definition qr_touch :: "int \<Rightarrow> packet \<Rightarrow> qr_server \<Rightarrow> qr_server option" where
  "qr_touch now packet st = do {
     session_id \<leftarrow> qr_session_id packet;
     availability \<leftarrow> has_command 0x09 packet;
     Some (if 5 \<le> length packet \<and> \<not> availability
       then st\<lparr>qr_sessions := touch_online_session now session_id (qr_sessions st)\<rparr>
       else st)
   }"

definition qr_prune :: "(u32, int) layout \<Rightarrow> int \<Rightarrow> qr_server \<Rightarrow> qr_server" where
  "qr_prune lay now st =
     st\<lparr>qr_sessions := prune_online_sessions lay now (seconds 61) (qr_sessions st)\<rparr>"

text \<open>A clock that shows one time.\<close>

definition at_time :: "int \<Rightarrow> qr_clock" where
  "at_time now = \<lparr>touch_time = now, prune_time = now, insert_time = now\<rparr>"

definition qr_respond ::
  "string \<Rightarrow> int \<Rightarrow> packet \<Rightarrow> sockaddr_in \<Rightarrow> qr_server \<Rightarrow> (sent \<times> qr_server) option" where
  "qr_respond secret_key now packet client_address st = do {
     session_id \<leftarrow> qr_session_id packet;
     keepalive \<leftarrow> has_command 0x08 packet;
     (if keepalive then Some ([], st)
      else do {
        answers \<leftarrow> has_command 0x01 packet;
        matches \<leftarrow> (if \<not> answers then Some False
          else case um_find (qr_challenges st) session_id of
              None \<Rightarrow> Some False
            | Some challenge \<Rightarrow> qr_challenge_matches packet challenge secret_key);
        (if matches
         then Some ([(client_address, qr_registered_response session_id)],
           st\<lparr>qr_challenges := um_erase session_id (qr_challenges st)\<rparr>)
         else do {
           heartbeat \<leftarrow> is_mariokartwii_heartbeat packet;
           (if heartbeat then handle_heartbeat (at_time now) packet session_id client_address st
            else do {
              available \<leftarrow> is_mariokartwii_availability_request packet;
              Some (if available then [(client_address, availability_response)] else [], st)
            })
         })
      })
   }"

text \<open>
  The QR handler is its three sections, one after the other: touching, pruning, and the answer with
  the insertion or the removal.
\<close>

theorem qr_sections_equivalent:
  "handle_qr_packet lay secret_key clock incoming st =
     (case recvfrom 2048 incoming of
        None \<Rightarrow> Some ([], st)
      | Some (packet, client_address) \<Rightarrow> do {
          st' \<leftarrow> qr_touch (touch_time clock) packet st;
          qr_respond secret_key (insert_time clock) packet client_address
            (qr_prune lay (prune_time clock) st')
        })"
proof -
  have h: "handle_heartbeat clock p k c s = handle_heartbeat (at_time (insert_time clock)) p k c s" for p k c s
    by (simp add: handle_heartbeat_eq at_time_def cong: if_cong)
  show ?thesis
  proof (cases "recvfrom 2048 incoming")
    case None
    then show ?thesis by (simp add: handle_qr_packet_def)
  next
    case (Some pc)
    then show ?thesis
      by (cases pc; cases "5 \<le> length (fst pc) \<and> fst pc ! 0 \<noteq> 0x09")
        (simp_all add: handle_qr_packet_def qr_touch_def qr_prune_def qr_respond_def has_command_eq
          qr_session_id_packet Let_def h cong: if_cong)
  qed
qed

subsection \<open>The sections of a search\<close>

definition search_prune :: "(u32, int) layout \<Rightarrow> int \<Rightarrow> session_store \<Rightarrow> session_store" where
  "search_prune lay now st = prune_online_sessions lay now (seconds 61) st"

definition search_answer :: "(u32, online_session) layout \<Rightarrow> string \<Rightarrow> session_store \<Rightarrow> string option" where
  "search_answer lay request st = do {
     profiles \<leftarrow> requested_profiles request;
     Some (slashed ''otherslist'' @
       concat (map session_entry (online_sessions_for_profiles lay profiles st)) @
       slashed ''oldone'' @ slashed ''final'')
   }"

lemma search_sections:
  "player_search_response lay lay' now request st =
   (case search_answer lay' request (search_prune lay now st) of
      None \<Rightarrow> None | Some response \<Rightarrow> Some (response, search_prune lay now st))"
  by (simp add: player_search_response_def search_answer_def search_prune_def requested_profiles_eq Let_def)

lemma search_answer_eq:
  "search_answer lay request st =
   Some (render_sessions (online_sessions_for_profiles lay (asked_profiles request) st))"
  by (simp add: search_answer_def requested_profiles_eq asked_profiles_def render_sessions_def)

subsection \<open>The threads\<close>

datatype qr_main = Qr_Idle | Qr_Touched packet sockaddr_in | Qr_Pruned packet sockaddr_in

datatype search_worker = Search_Received string | Search_Pruned string

record discovery =
  d_main :: qr_main
  d_server :: qr_server
  d_searches :: "int \<Rightarrow> search_worker option"

datatype discovery_input =
    Qr_Receive int datagram
  | Qr_Prune "(u32, int) layout" int
  | Qr_Respond int
  | Search_Request int string
  | Search_Prune int "(u32, int) layout" int
  | Search_Answer int "(u32, online_session) layout"

datatype discovery_output = Silent | Datagrams sent | Answer string

text \<open>An event whose thread is not at this point does nothing.\<close>

fun discovery_serve ::
  "string \<Rightarrow> discovery_input \<Rightarrow> discovery \<Rightarrow> (discovery_output \<times> discovery) option" where
  "discovery_serve secret_key (Qr_Receive now incoming) d =
     (case d_main d of
        Qr_Idle \<Rightarrow>
          (case recvfrom 2048 incoming of
             None \<Rightarrow> Some (Silent, d)
           | Some (packet, client) \<Rightarrow> do {
               st \<leftarrow> qr_touch now packet (d_server d);
               Some (Silent, d\<lparr>d_main := Qr_Touched packet client, d_server := st\<rparr>)
             })
      | _ \<Rightarrow> Some (Silent, d))"
| "discovery_serve secret_key (Qr_Prune lay now) d =
     (case d_main d of
        Qr_Touched packet client \<Rightarrow>
          Some (Silent, d\<lparr>d_main := Qr_Pruned packet client, d_server := qr_prune lay now (d_server d)\<rparr>)
      | _ \<Rightarrow> Some (Silent, d))"
| "discovery_serve secret_key (Qr_Respond now) d =
     (case d_main d of
        Qr_Pruned packet client \<Rightarrow> do {
          (out, st) \<leftarrow> qr_respond secret_key now packet client (d_server d);
          Some (Datagrams out, d\<lparr>d_main := Qr_Idle, d_server := st\<rparr>)
        }
      | _ \<Rightarrow> Some (Silent, d))"
| "discovery_serve secret_key (Search_Request fd request) d =
     Some (Silent, if d_searches d fd \<noteq> None then d
       else d\<lparr>d_searches := (d_searches d)(fd \<mapsto> Search_Received request)\<rparr>)"
| "discovery_serve secret_key (Search_Prune fd lay now) d =
     (case d_searches d fd of
        Some (Search_Received request) \<Rightarrow>
          Some (Silent, d\<lparr>d_searches := (d_searches d)(fd \<mapsto> Search_Pruned request),
            d_server := (d_server d)\<lparr>qr_sessions := search_prune lay now (qr_sessions (d_server d))\<rparr>\<rparr>)
      | _ \<Rightarrow> Some (Silent, d))"
| "discovery_serve secret_key (Search_Answer fd lay) d =
     (case d_searches d fd of
        Some (Search_Pruned request) \<Rightarrow> do {
          response \<leftarrow> search_answer lay request (qr_sessions (d_server d));
          Some (Answer response, d\<lparr>d_searches := (d_searches d)(fd := None)\<rparr>)
        }
      | _ \<Rightarrow> Some (Silent, d))"

definition discovery_start :: "rng \<Rightarrow> discovery" where
  "discovery_start g = \<lparr>d_main = Qr_Idle, d_server = fresh_discovery g, d_searches = Map.empty\<rparr>"

subsection \<open>What a section does to the registry\<close>

definition registry_of :: "discovery \<Rightarrow> u32 \<Rightarrow> (online_session \<times> int) option" where
  "registry_of d = live (qr_sessions (d_server d))"

definition discovery_inv :: "discovery \<Rightarrow> bool" where
  "discovery_inv d \<longleftrightarrow> qr_inv (d_server d)"

text \<open>A packet that opens, or keeps open, a session; a packet that is a heartbeat of it.\<close>

definition opens :: "packet \<Rightarrow> sockaddr_in \<Rightarrow> u32 \<Rightarrow> online_session \<Rightarrow> bool" where
  "opens packet client k s \<longleftrightarrow>
     is_mariokartwii_heartbeat packet = Some True \<and>
     qr_field_value packet ''statechanged'' \<noteq> Some ''2'' \<and>
     k = packet_session packet \<and> s = described_session packet k client"

definition heartbeat_of :: "u32 \<Rightarrow> packet \<Rightarrow> bool" where
  "heartbeat_of k packet \<longleftrightarrow> is_mariokartwii_heartbeat packet = Some True \<and> packet_session packet = k"

lemma qr_touch_eq:
  "qr_touch now packet st = Some (if 5 \<le> length packet \<and> packet ! 0 \<noteq> 0x09
     then st\<lparr>qr_sessions := touch_online_session now (packet_session packet) (qr_sessions st)\<rparr> else st)"
  by (simp add: qr_touch_def qr_session_id_packet has_command_eq)

lemma qr_respond_eq:
  "qr_respond secret_key now packet client st =
    (if 5 \<le> length packet \<and> packet ! 0 = 0x08 then Some ([], st)
     else if answers_challenge secret_key packet (um_find (qr_challenges st) (packet_session packet))
       then Some ([(client, qr_registered_response (packet_session packet))],
         st\<lparr>qr_challenges := um_erase (packet_session packet) (qr_challenges st)\<rparr>)
     else if is_mariokartwii_heartbeat packet = Some True
       then handle_heartbeat (at_time now) packet (packet_session packet) client st
     else Some (if is_mariokartwii_availability_request packet = Some True
         then [(client, availability_response)] else [], st))"
proof -
  obtain hb where hb: "is_mariokartwii_heartbeat packet = Some hb" by (simp add: heartbeat_eq)
  obtain av where av: "is_mariokartwii_availability_request packet = Some av"
    by (simp add: availability_request_iff)
  show ?thesis
    by (cases "um_find (qr_challenges st) (packet_session packet)")
      (simp_all add: qr_respond_def qr_session_id_packet has_command_eq hb av Let_def
        answers_challenge_def qr_challenge_matches_eq)
qed

text \<open>The answer to a packet changes the registry at its session only, and only if it is a heartbeat.\<close>

lemma qr_respond_steps:
  assumes "qr_inv st"
  shows "\<exists>out st'. qr_respond secret_key now packet client st = Some (out, st') \<and> qr_inv st' \<and>
    (out = [] \<or> (\<exists>response. out = [(client, response)])) \<and>
    live (qr_sessions st') =
      (if is_mariokartwii_heartbeat packet \<noteq> Some True then live (qr_sessions st)
       else if qr_field_value packet ''statechanged'' = Some ''2''
       then (live (qr_sessions st))(packet_session packet := None)
       else (live (qr_sessions st))(packet_session packet \<mapsto>
         (described_session packet (packet_session packet) client, now)))"
proof (cases "is_mariokartwii_heartbeat packet = Some True")
  case False
  then show ?thesis
    using assms inv_erase_challenge [OF assms, of "packet_session packet"]
    by (simp add: qr_respond_eq)
next
  case True
  let ?k = "packet_session packet"
  have i: "sessions_inv (qr_sessions st)" using assms by (simp add: qr_inv_def)
  have "\<not> answers_challenge secret_key packet c" for c
    using answers_challenge_command heartbeat_command_cases [OF True] by fastforce
  then have r: "qr_respond secret_key now packet client st =
      handle_heartbeat (at_time now) packet ?k client st"
    using True heartbeat_command_cases [OF True] by (simp add: qr_respond_eq)
  obtain out st' where h: "handle_heartbeat (at_time now) packet ?k client st = Some (out, st')"
    "qr_inv st'" "out = [] \<or> (\<exists>p. out = [(client, p)])"
    using handle_heartbeat_safe [OF assms] by blast
  obtain v where v: "qr_field_value packet ''statechanged'' = Some v"
    using qr_field_value_total by blast
  have "qr_sessions st' = (if v = ''2'' then remove_online_session ?k (qr_sessions st)
      else upsert_online_session now (described_session packet ?k client) (qr_sessions st))"
    using h(1) v issue_challenge_sessions by (fastforce simp: handle_heartbeat_eq at_time_def split: if_splits)
  then show ?thesis
    using True r h v i
    by (auto simp: registry.reg_remove registry.reg_upsert described_session_fields)
qed

lemma touch_inv: "qr_inv st \<Longrightarrow> qr_inv (st\<lparr>qr_sessions := touch_online_session now k (qr_sessions st)\<rparr>)"
  and prune_inv: "qr_inv st \<Longrightarrow> qr_inv (st\<lparr>qr_sessions := prune_online_sessions lay now age (qr_sessions st)\<rparr>)"
  by (simp_all add: qr_inv_def registry.touch_inv registry.prune_inv)

lemma touched_registry:
  "qr_inv st \<Longrightarrow> live (touch_online_session now k (qr_sessions st)) j =
   (case live (qr_sessions st) j of None \<Rightarrow> None | Some (s, t) \<Rightarrow> Some (s, if j = k then now else t))"
  by (auto simp: qr_inv_def registry.reg_touch split: option.splits)

lemma pruned_registry:
  "qr_inv st \<Longrightarrow> live (prune_online_sessions lay now age (qr_sessions st)) j =
   (case live (qr_sessions st) j of None \<Rightarrow> None
    | Some (s, t) \<Rightarrow> if t \<le> now - age then None else Some (s, t))"
  by (simp add: qr_inv_def registry.reg_prune)

text \<open>The packet the main thread holds.\<close>

fun in_hand :: "qr_main \<Rightarrow> (packet \<times> sockaddr_in) option" where
  "in_hand Qr_Idle = None"
| "in_hand (Qr_Touched packet client) = Some (packet, client)"
| "in_hand (Qr_Pruned packet client) = Some (packet, client)"

text \<open>One event: it is handled, and what it may do to the entry of a session.\<close>

definition moved_on :: "discovery_input \<Rightarrow> discovery \<Rightarrow> discovery \<Rightarrow> bool" where
  "moved_on e d d' \<longleftrightarrow>
     (\<forall>j. registry_of d' j = registry_of d j \<or>
       (\<exists>now incoming s t. e = Qr_Receive now incoming \<and> registry_of d j = Some (s, t) \<and>
          registry_of d' j = Some (s, now)) \<or>
       (\<exists>now s t. (\<exists>lay fd. e = Qr_Prune lay now \<or> e = Search_Prune fd lay now) \<and>
          registry_of d j = Some (s, t) \<and> t \<le> now - seconds 61 \<and> registry_of d' j = None) \<or>
       (\<exists>now packet client. e = Qr_Respond now \<and> in_hand (d_main d) = Some (packet, client) \<and>
          heartbeat_of j packet \<and>
          (registry_of d' j = None \<or>
           (\<exists>s. opens packet client j s \<and> registry_of d' j = Some (s, now)))))"

lemma movedE:
  assumes "moved_on e d d'"
  obtains (same) "registry_of d' j = registry_of d j"
  | (touched) now incoming s t where "e = Qr_Receive now incoming" "registry_of d j = Some (s, t)"
      "registry_of d' j = Some (s, now)"
  | (pruned) now s t where "\<exists>lay fd. e = Qr_Prune lay now \<or> e = Search_Prune fd lay now"
      "registry_of d j = Some (s, t)" "t \<le> now - seconds 61" "registry_of d' j = None"
  | (answered) now packet client where "e = Qr_Respond now" "in_hand (d_main d) = Some (packet, client)"
      "heartbeat_of j packet" "registry_of d' j = None \<or>
       (\<exists>s. opens packet client j s \<and> registry_of d' j = Some (s, now))"
  using assms [unfolded moved_on_def, THEN spec, of j] by (elim disjE exE conjE) (blast+)

lemma discovery_steps:
  assumes "discovery_inv d"
  shows "\<exists>out d'. discovery_serve secret_key e d = Some (out, d') \<and> discovery_inv d' \<and> moved_on e d d'"
proof (cases e)
  case (Qr_Receive now incoming)
  then show ?thesis
    using assms touch_inv
    by (auto simp: discovery_inv_def moved_on_def registry_of_def qr_touch_eq touched_registry
        split: qr_main.splits option.splits)
next
  case (Qr_Prune lay now)
  then show ?thesis
    using assms prune_inv
    by (auto simp: discovery_inv_def moved_on_def registry_of_def qr_prune_def pruned_registry
        split: qr_main.splits option.splits)
next
  case (Qr_Respond now)
  show ?thesis
  proof (cases "\<exists>packet client. d_main d = Qr_Pruned packet client")
    case False
    then show ?thesis using assms Qr_Respond by (cases "d_main d") (auto simp: moved_on_def)
  next
    case True
    then obtain packet client where m: "d_main d = Qr_Pruned packet client" by blast
    then show ?thesis
      using qr_respond_steps [of "d_server d" secret_key now packet client] assms Qr_Respond
      by (auto simp: discovery_inv_def moved_on_def registry_of_def heartbeat_of_def opens_def)
  qed
next
  case (Search_Request fd request)
  then show ?thesis using assms by (auto simp: discovery_inv_def moved_on_def registry_of_def)
next
  case (Search_Prune fd lay now)
  then show ?thesis
    using assms prune_inv
    by (auto simp: discovery_inv_def moved_on_def registry_of_def search_prune_def pruned_registry
        split: search_worker.splits option.splits)
next
  case (Search_Answer fd lay)
  then show ?thesis
    using assms
    by (auto simp: discovery_inv_def moved_on_def registry_of_def search_answer_eq
        split: search_worker.splits option.splits)
qed

interpretation discovery_threads: total_machine "discovery_serve secret_key" discovery_inv "\<lambda>_. True"
  for secret_key
  using discovery_steps by unfold_locales blast

lemma discovery_start_inv: "discovery_inv (discovery_start g)" "registry_of (discovery_start g) = Map.empty"
  by (simp_all add: discovery_inv_def registry_of_def discovery_start_def fresh_inv)

lemma moved_step:
  "discovery_inv d \<Longrightarrow> discovery_serve secret_key e d = Some (out, d') \<Longrightarrow> moved_on e d d'"
  using discovery_steps [of d secret_key e] by auto

lemma in_hand_step:
  "discovery_serve secret_key e d = Some (out, d') \<Longrightarrow>
   in_hand (d_main d') = in_hand (d_main d) \<or> in_hand (d_main d') = None \<or>
   (\<exists>now incoming. e = Qr_Receive now incoming \<and> in_hand (d_main d') = recvfrom 2048 incoming)"
  by (cases e)
    (auto split: qr_main.splits option.splits search_worker.splits bind_splits prod.splits if_splits)

text \<open>The answer of a search lists the registry at this moment.\<close>

lemma search_lists_registry:
  assumes "discovery_inv d" and "d_searches d fd = Some (Search_Pruned request)"
  shows "\<exists>sessions. discovery_serve secret_key (Search_Answer fd lay) d =
      Some (Answer (render_sessions sessions), d\<lparr>d_searches := (d_searches d)(fd := None)\<rparr>) \<and>
    set sessions = {s. \<exists>k t. registry_of d k = Some (s, t) \<and> os_profile_id s \<in> set (asked_profiles request)}"
proof -
  have "sessions_inv (qr_sessions (d_server d))" using assms(1) by (simp add: discovery_inv_def qr_inv_def)
  then have "set (online_sessions_for_profiles lay (asked_profiles request) (qr_sessions (d_server d))) =
      {s. \<exists>k t. registry_of d k = Some (s, t) \<and> os_profile_id s \<in> set (asked_profiles request)}"
    by (simp add: registry.set_query_reg registry_of_def)
  then show ?thesis using assms(2) by (simp add: search_answer_eq) blast
qed

subsection \<open>A session stays listed for 61 seconds\<close>

definition listed_since :: "u32 \<Rightarrow> online_session \<Rightarrow> int \<Rightarrow> discovery \<Rightarrow> bool" where
  "listed_since k s since d \<longleftrightarrow>
     (\<exists>t. since \<le> t \<and> registry_of d k = Some (s, t)) \<and>
     (\<forall>packet client. in_hand (d_main d) = Some (packet, client) \<longrightarrow> \<not> heartbeat_of k packet)"

definition holds_heartbeat :: "u32 \<Rightarrow> datagram \<Rightarrow> bool" where
  "holds_heartbeat k incoming \<longleftrightarrow>
     (case recvfrom 2048 incoming of None \<Rightarrow> False | Some (packet, client) \<Rightarrow> heartbeat_of k packet)"

text \<open>Less than 61 seconds after a time, without another heartbeat of the session.\<close>

fun meanwhile :: "u32 \<Rightarrow> int \<Rightarrow> discovery_input \<Rightarrow> bool" where
  "meanwhile k since (Qr_Receive now incoming) \<longleftrightarrow> since \<le> now \<and> \<not> holds_heartbeat k incoming"
| "meanwhile k since (Qr_Prune lay now) \<longleftrightarrow> now < since + seconds 61"
| "meanwhile k since (Search_Prune fd lay now) \<longleftrightarrow> now < since + seconds 61"
| "meanwhile k since e \<longleftrightarrow> True"

interpretation listing_lasts: lasting_fact "discovery_serve secret_key" discovery_inv "\<lambda>_. True"
  "listed_since k s since" "meanwhile k since" for secret_key k s since
proof
  fix d e out d'
  assume i: "discovery_inv d" and f: "listed_since k s since d" and q: "meanwhile k since e"
    and x: "discovery_serve secret_key e d = Some (out, d')"
  obtain t where t: "since \<le> t" "registry_of d k = Some (s, t)" using f by (auto simp: listed_since_def)
  have h: "\<not> heartbeat_of k packet" if "in_hand (d_main d) = Some (packet, client)" for packet client
    using f that by (auto simp: listed_since_def)
  have "\<not> heartbeat_of k packet" if "in_hand (d_main d') = Some (packet, client)" for packet client
    using in_hand_step [OF x]
  proof (elim disjE exE conjE)
    fix now incoming
    assume "e = Qr_Receive now incoming" and "in_hand (d_main d') = recvfrom 2048 incoming"
    with that q show ?thesis by (simp add: holds_heartbeat_def)
  qed (use that h [of packet client] in auto)
  moreover have "\<exists>t. since \<le> t \<and> registry_of d' k = Some (s, t)"
    using moved_step [OF i x] by (cases rule: movedE [where j = k]) (use t q h in auto)
  ultimately show "listed_since k s since d'" by (simp add: listed_since_def)
qed

lemma announced_is_listed:
  assumes "discovery_inv d" and "d_main d = Qr_Pruned packet client" and "opens packet client k s"
  shows "\<exists>out d1. discovery_serve secret_key (Qr_Respond now) d = Some (Datagrams out, d1) \<and>
    discovery_inv d1 \<and> listed_since k s now d1"
  using qr_respond_steps [of "d_server d" secret_key now packet client] assms
  by (auto simp: discovery_inv_def listed_since_def registry_of_def opens_def)

subsection \<open>A closed session stays closed\<close>

definition unlisted :: "u32 \<Rightarrow> discovery \<Rightarrow> bool" where
  "unlisted k d \<longleftrightarrow> registry_of d k = None \<and>
     (\<forall>packet client s. in_hand (d_main d) = Some (packet, client) \<longrightarrow> \<not> opens packet client k s)"

fun no_opening :: "u32 \<Rightarrow> discovery_input \<Rightarrow> bool" where
  "no_opening k (Qr_Receive now incoming) \<longleftrightarrow>
     (case recvfrom 2048 incoming of
        None \<Rightarrow> True
      | Some (packet, client) \<Rightarrow> \<not> opens packet client k (described_session packet k client))"
| "no_opening k e \<longleftrightarrow> True"

lemma opens_described: "opens packet client k s \<longleftrightarrow>
    opens packet client k (described_session packet k client) \<and> s = described_session packet k client"
  by (auto simp: opens_def)

interpretation unlisted_lasts: lasting_fact "discovery_serve secret_key" discovery_inv "\<lambda>_. True"
  "unlisted k" "no_opening k" for secret_key k
proof
  fix d e out d'
  assume i: "discovery_inv d" and f: "unlisted k d" and q: "no_opening k e"
    and x: "discovery_serve secret_key e d = Some (out, d')"
  have h: "\<not> opens packet client k s" if "in_hand (d_main d) = Some (packet, client)" for packet client s
    using f that by (auto simp: unlisted_def)
  have "\<not> opens packet client k s" if "in_hand (d_main d') = Some (packet, client)" for packet client s
    using in_hand_step [OF x] that h [of packet client s] q opens_described [of packet client k s]
    by (auto split: option.splits)
  moreover have "registry_of d' k = None"
    using moved_step [OF i x] by (cases rule: movedE [where j = k]) (use f h in \<open>auto simp: unlisted_def\<close>)
  ultimately show "unlisted k d'" by (simp add: unlisted_def)
qed

subsection \<open>Only heartbeats list sessions\<close>

lemma listed_announced:
  assumes "run_events (discovery_serve secret_key) es d = Some (outs, d')" and "discovery_inv d"
    and "registry_of d' k = Some (s, t)"
  shows "(\<exists>t. registry_of d k = Some (s, t)) \<or>
    (\<exists>packet client. in_hand (d_main d) = Some (packet, client) \<and> opens packet client k s) \<or>
    (\<exists>now incoming packet client. Qr_Receive now incoming \<in> set es \<and>
       recvfrom 2048 incoming = Some (packet, client) \<and> opens packet client k s)"
  using assms
proof (induction es arbitrary: d outs)
  case Nil
  then show ?case by simp
next
  case (Cons e es)
  then obtain out outs' d1 where x: "discovery_serve secret_key e d = Some (out, d1)"
    and r: "run_events (discovery_serve secret_key) es d1 = Some (outs', d')"
    by (auto simp: run_events_Cons_iff simp del: run_events.simps)
  have i: "discovery_inv d1" using discovery_threads.step_inv [OF Cons.prems(2) _ x] by simp
  consider (listed) t1 where "registry_of d1 k = Some (s, t1)"
    | (held) packet client where "in_hand (d_main d1) = Some (packet, client)" "opens packet client k s"
    | (later) now incoming packet client where "Qr_Receive now incoming \<in> set es"
        "recvfrom 2048 incoming = Some (packet, client)" "opens packet client k s"
    using Cons.IH [OF r i Cons.prems(3)] by blast
  then show ?case
  proof cases
    case listed
    have "(\<exists>t. registry_of d k = Some (s, t)) \<or>
      (\<exists>packet client. in_hand (d_main d) = Some (packet, client) \<and> opens packet client k s)"
      using moved_step [OF Cons.prems(2) x] by (cases rule: movedE [where j = k]) (use listed in \<open>auto dest: sym\<close>)
    then show ?thesis by blast
  next
    case held
    then show ?thesis using in_hand_step [OF x] by fastforce
  next
    case later
    then show ?thesis by (meson list.set_intros(2))
  qed
qed

end
