(* ===== verification/Natneg.thy ===== *)
theory Natneg
  imports Cpp_String
begin

section \<open>The NATNEG protocol (\<^verbatim>\<open>src/gamespy_natneg.cpp\<close>)\<close>

text \<open>
  Parsing of the initialisation packet and building of the four replies. The replies are copies of a
  prefix of the packet with some bytes overwritten, modelled with the checked accesses; an empty vector
  means ``no reply''.
\<close>

record natneg_client =
  nn_session_id :: u32
  nn_client_index :: u8
  nn_game_name :: string
  nn_address :: u32
  nn_port :: u16

definition no_client :: natneg_client where
  "no_client = \<lparr>nn_session_id = 0, nn_client_index = 0, nn_game_name = [], nn_address = 0, nn_port = 0\<rparr>"

definition natneg_magic :: "u8 list" where
  "natneg_magic = [0xfd, 0xfc, 0x1e, 0x66, 0x6a, 0xb2]"

definition minimum_init_size :: nat where
  "minimum_init_size = 22"

definition has_natneg_header :: "packet \<Rightarrow> bool option" where
  "has_natneg_header packet =
     (if length packet < 14 then Some False
      else do {
        head \<leftarrow> iter_range packet 0 (length natneg_magic);
        (if head \<noteq> natneg_magic then Some False
         else do { version \<leftarrow> rd packet 6; Some (version = 0x03) })
      })"

definition read_u32_le :: "packet \<Rightarrow> nat \<Rightarrow> u32 option" where
  "read_u32_le packet offset = do {
     b0 \<leftarrow> rd packet offset;
     b1 \<leftarrow> rd packet (offset + 1);
     b2 \<leftarrow> rd packet (offset + 2);
     b3 \<leftarrow> rd packet (offset + 3);
     Some (le_u32 b0 b1 b2 b3)
   }"

definition is_natneg_init :: "packet \<Rightarrow> bool option" where
  "is_natneg_init packet = do {
     header \<leftarrow> has_natneg_header packet;
     (if \<not> header then Some False
      else do {
        command \<leftarrow> rd packet 7;
        Some (command = 0x00 \<and> minimum_init_size \<le> length packet)
      })
   }"

text \<open>The result and the client, which is an out parameter of the code.\<close>

definition parse_natneg_init :: "packet \<Rightarrow> natneg_client \<Rightarrow> (bool \<times> natneg_client) option" where
  "parse_natneg_init packet client = do {
     init \<leftarrow> is_natneg_init packet;
     (if \<not> init then Some (False, client)
      else do {
        session_id \<leftarrow> read_u32_le packet 8;
        client_index \<leftarrow> rd packet 13;
        address \<leftarrow> read_u32_le packet 15;
        high \<leftarrow> rd packet 19;
        low \<leftarrow> rd packet 20;
        game \<leftarrow> iter_range packet 21 (length packet);
        let name = bytes_str (takeWhile (\<lambda>b. b \<noteq> 0x00) game)
        in Some (name \<noteq> [],
             client\<lparr>nn_session_id := session_id, nn_client_index := client_index,
                    nn_address := address, nn_port := be_u16 high low, nn_game_name := name\<rparr>)
      })
   }"

definition natneg_init_ack :: "packet \<Rightarrow> packet option" where
  "natneg_init_ack init_packet = do {
     init \<leftarrow> is_natneg_init init_packet;
     (if \<not> init then Some []
      else do {
        copied \<leftarrow> iter_range init_packet 0 14;
        response \<leftarrow> wr copied 7 0x01;
        Some (response @ [0xff, 0xff, 0x6d, 0x16, 0xb5, 0x7d, 0xea])
      })
   }"

definition natneg_connect :: "packet \<Rightarrow> natneg_client \<Rightarrow> packet option" where
  "natneg_connect init_packet peer = do {
     init \<leftarrow> is_natneg_init init_packet;
     (if \<not> init then Some []
      else do {
        copied \<leftarrow> iter_range init_packet 0 12;
        response \<leftarrow> wr copied 7 0x05;
        Some (response @ u32_le (nn_address peer) @ u16_be (nn_port peer) @ [0x42, 0x00])
      })
   }"

definition natneg_connect_ack :: "packet \<Rightarrow> packet option" where
  "natneg_connect_ack packet = do {
     header \<leftarrow> has_natneg_header packet;
     (if \<not> header then Some []
      else do {
        command \<leftarrow> rd packet 7;
        (if command \<noteq> 0x06 then Some [] else wr packet 7 0x06)
      })
   }"

definition natneg_address_reply :: "packet \<Rightarrow> u32 \<Rightarrow> u16 \<Rightarrow> packet option" where
  "natneg_address_reply packet address port = do {
     header \<leftarrow> has_natneg_header packet;
     (if \<not> header then Some []
      else do {
        command \<leftarrow> rd packet 7;
        (if command \<noteq> 0x0a \<or> length packet < 21 then Some []
         else wr_all packet
           [(7, 0x0b),
            (15, ucast (address AND 0xff)), (16, ucast (drop_bit 8 address AND 0xff)),
            (17, ucast (drop_bit 16 address AND 0xff)), (18, ucast (drop_bit 24 address AND 0xff)),
            (19, ucast (drop_bit 8 port AND 0xff)), (20, ucast (port AND 0xff))])
      })
   }"

subsection \<open>What the functions compute\<close>

definition natneg_header :: "packet \<Rightarrow> bool" where
  "natneg_header packet \<longleftrightarrow> 14 \<le> length packet \<and> take 6 packet = natneg_magic \<and> packet ! 6 = 0x03"

definition natneg_init :: "packet \<Rightarrow> bool" where
  "natneg_init packet \<longleftrightarrow> natneg_header packet \<and> packet ! 7 = 0x00 \<and> 22 \<le> length packet"

lemma length_natneg_magic [simp]: "length natneg_magic = 6"
  by (simp add: natneg_magic_def)

lemma rd_at: "n < length xs \<Longrightarrow> i < n \<Longrightarrow> rd xs i = Some (xs ! i)"
  by (simp add: rd_in)

lemma has_natneg_header_eq: "has_natneg_header packet = Some (natneg_header packet)"
proof (cases "length packet < 14")
  case True
  then show ?thesis by (simp add: has_natneg_header_def natneg_header_def)
next
  case False
  then have "rd packet 6 = Some (packet ! 6)" by (intro rd_in) linarith
  with False show ?thesis
    by (simp add: has_natneg_header_def natneg_header_def iter_range_in)
qed

lemma natneg_header_rd7: "natneg_header packet \<Longrightarrow> rd packet 7 = Some (packet ! 7)"
  by (intro rd_in) (auto simp: natneg_header_def)

lemma is_natneg_init_eq: "is_natneg_init packet = Some (natneg_init packet)"
  by (simp add: is_natneg_init_def has_natneg_header_eq natneg_init_def natneg_header_rd7
      minimum_init_size_def)

definition le_at :: "packet \<Rightarrow> nat \<Rightarrow> u32" where
  "le_at p i = le_u32 (p ! i) (p ! (i + 1)) (p ! (i + 2)) (p ! (i + 3))"

lemma read_u32_le_in: "i + 3 < length p \<Longrightarrow> read_u32_le p i = Some (le_at p i)"
  by (simp add: read_u32_le_def rd_in le_at_def)

definition natneg_name :: "packet \<Rightarrow> string" where
  "natneg_name packet = bytes_str (takeWhile (\<lambda>b. b \<noteq> 0x00) (drop 21 packet))"

definition natneg_parsed :: "packet \<Rightarrow> natneg_client" where
  "natneg_parsed packet =
     \<lparr>nn_session_id = le_at packet 8, nn_client_index = packet ! 13,
      nn_game_name = natneg_name packet, nn_address = le_at packet 15,
      nn_port = be_u16 (packet ! 19) (packet ! 20)\<rparr>"

lemma parse_natneg_init_eq:
  "parse_natneg_init packet client =
   Some (if natneg_init packet then (natneg_name packet \<noteq> [], natneg_parsed packet)
         else (False, client))"
proof (cases "natneg_init packet")
  case False
  then show ?thesis by (simp add: parse_natneg_init_def is_natneg_init_eq)
next
  case True
  then have "22 \<le> length packet" by (simp add: natneg_init_def)
  then have "rd packet 13 = Some (packet ! 13)" "rd packet 19 = Some (packet ! 19)"
    "rd packet 20 = Some (packet ! 20)" "read_u32_le packet 8 = Some (le_at packet 8)"
    "read_u32_le packet 15 = Some (le_at packet 15)"
    "iter_range packet 21 (length packet) = Some (drop 21 packet)"
    by (simp_all add: rd_in read_u32_le_in iter_range_in)
  with True show ?thesis
    by (simp add: parse_natneg_init_def is_natneg_init_eq natneg_parsed_def natneg_name_def Let_def)
qed

lemma natneg_init_ack_eq:
  "natneg_init_ack packet =
   Some (if natneg_init packet
         then (take 14 packet)[7 := 0x01] @ [0xff, 0xff, 0x6d, 0x16, 0xb5, 0x7d, 0xea] else [])"
  by (auto simp: natneg_init_ack_def is_natneg_init_eq natneg_init_def iter_range_in wr_in)

lemma natneg_connect_eq:
  "natneg_connect packet peer =
   Some (if natneg_init packet
         then (take 12 packet)[7 := 0x05] @ u32_le (nn_address peer) @ u16_be (nn_port peer) @ [0x42, 0x00]
         else [])"
  by (auto simp: natneg_connect_def is_natneg_init_eq natneg_init_def iter_range_in wr_in)

lemma natneg_connect_ack_eq:
  "natneg_connect_ack packet =
   Some (if natneg_header packet \<and> packet ! 7 = 0x06 then packet else [])"
proof -
  have "wr packet 7 (packet ! 7) = Some packet" if "natneg_header packet"
    using that by (simp add: wr_def natneg_header_def)
  then show ?thesis
    using natneg_header_rd7 [of packet]
    by (auto simp: natneg_connect_ack_def has_natneg_header_eq)
qed

lemma natneg_address_reply_eq:
  "natneg_address_reply packet address port =
   Some (if natneg_header packet \<and> packet ! 7 = 0x0a \<and> 21 \<le> length packet
         then (take 15 packet)[7 := 0x0b] @ u32_le address @ u16_be port @ drop 21 packet else [])"
proof (cases "natneg_header packet \<and> packet ! 7 = 0x0a \<and> 21 \<le> length packet")
  case False
  then show ?thesis
    by (auto simp: natneg_address_reply_def has_natneg_header_eq natneg_header_rd7)
next
  case True
  then have "length (take 6 (drop 15 packet)) = 6" by (auto simp: min_def)
  then obtain a b c d e f where six: "take 6 (drop 15 packet) = [a, b, c, d, e, f]"
    by (auto simp: numeral_eq_Suc length_Suc_conv simp del: length_take)
  define front where "front = take 15 packet"
  have "packet = front @ take 6 (drop 15 packet) @ drop 6 (drop 15 packet)"
    by (simp only: front_def append_take_drop_id)
  then have p: "packet = front @ [a, b, c, d, e, f] @ drop 21 packet"
    by (simp only: six drop_drop) simp
  have l: "length front = 15" using True by (simp add: front_def)
  have "wr_all (front @ [a, b, c, d, e, f] @ drop 21 packet)
      [(7, 0x0b), (15, w1), (16, w2), (17, w3), (18, w4), (19, w5), (20, w6)] =
      Some (front[7 := 0x0b] @ [w1, w2, w3, w4, w5, w6] @ drop 21 packet)" for w1 w2 w3 w4 w5 w6
    using l by (simp add: wr_all_in list_update_append)
  then have "wr_all packet
      [(7, 0x0b), (15, w1), (16, w2), (17, w3), (18, w4), (19, w5), (20, w6)] =
      Some (front[7 := 0x0b] @ [w1, w2, w3, w4, w5, w6] @ drop 21 packet)" for w1 w2 w3 w4 w5 w6
    using p by simp
  with True show ?thesis
    by (simp add: natneg_address_reply_def has_natneg_header_eq natneg_header_rd7 front_def
        u32_le_def u16_be_def)
qed

subsection \<open>Properties\<close>

text \<open>The packet a client sends to announce itself; \<open>x\<close> and \<open>y\<close> are bytes the server ignores.\<close>

definition init_packet_of :: "natneg_client \<Rightarrow> u8 \<Rightarrow> u8 \<Rightarrow> packet \<Rightarrow> packet" where
  "init_packet_of c x y rest =
     natneg_magic @ [0x03, 0x00] @ u32_le (nn_session_id c) @ [x, nn_client_index c, y] @
     u32_le (nn_address c) @ u16_be (nn_port c) @ str_bytes (nn_game_name c) @ [0] @ rest"

lemma init_packet_of_natneg_init:
  "natneg_init (init_packet_of c x y rest)"
  by (simp add: natneg_init_def natneg_header_def init_packet_of_def natneg_magic_def u32_le_def
      u16_be_def)

lemma takeWhile_str_bytes:
  "CHR 0x00 \<notin> set s \<Longrightarrow> takeWhile (\<lambda>b. b \<noteq> 0) (str_bytes s @ 0 # rest) = str_bytes s"
  by (induction s) auto

lemma natneg_parsed_init:
  assumes "CHR 0x00 \<notin> set (nn_game_name c)"
  shows "natneg_parsed (init_packet_of c x y rest) = c"
proof -
  have "natneg_name (init_packet_of c x y rest) = nn_game_name c"
    using assms by (simp add: natneg_name_def init_packet_of_def natneg_magic_def u32_le_def
        u16_be_def takeWhile_str_bytes comp_def)
  then show ?thesis
    by (cases c) (simp add: natneg_parsed_def init_packet_of_def natneg_magic_def le_at_def
        u32_le_def u16_be_def le_u32_u32_le be_u16_u16_be)
qed

text \<open>
  None of the NATNEG functions leaves its packet, whatever bytes arrive; and each reply is exactly
  the prefix of the packet the protocol asks for with the record type replaced and the endpoint of the
  peer, or of the sender, in little-endian address and big-endian port order.
\<close>

theorem natneg_replies:
  "parse_natneg_init packet client =
     Some (if natneg_init packet then (natneg_name packet \<noteq> [], natneg_parsed packet)
           else (False, client)) \<and>
   natneg_init_ack packet =
     Some (if natneg_init packet
           then (take 14 packet)[7 := 0x01] @ [0xff, 0xff, 0x6d, 0x16, 0xb5, 0x7d, 0xea] else []) \<and>
   natneg_connect packet peer =
     Some (if natneg_init packet
           then (take 12 packet)[7 := 0x05] @ u32_le (nn_address peer) @ u16_be (nn_port peer) @ [0x42, 0]
           else []) \<and>
   natneg_connect_ack packet =
     Some (if natneg_header packet \<and> packet ! 7 = 0x06 then packet else []) \<and>
   natneg_address_reply packet address port =
     Some (if natneg_header packet \<and> packet ! 7 = 0x0a \<and> 21 \<le> length packet
           then (take 15 packet)[7 := 0x0b] @ u32_le address @ u16_be port @ drop 21 packet else [])"
  by (intro conjI parse_natneg_init_eq natneg_init_ack_eq natneg_connect_eq natneg_connect_ack_eq
      natneg_address_reply_eq)

text \<open>
  The initialisation packet of any client with a non-empty name without zero bytes parses back to
  that client, its acknowledgement repeats its session id and index, and the connect packet built from it
  for a peer carries the client's session and the peer's address and port.
\<close>

theorem natneg_init_roundtrip:
  assumes "nn_game_name c \<noteq> []" and "CHR 0x00 \<notin> set (nn_game_name c)"
  shows "parse_natneg_init (init_packet_of c x y rest) old = Some (True, c) \<and>
    natneg_init_ack (init_packet_of c x y rest) =
      Some (natneg_magic @ [0x03, 0x01] @ u32_le (nn_session_id c) @ [x, nn_client_index c] @
        [0xff, 0xff, 0x6d, 0x16, 0xb5, 0x7d, 0xea]) \<and>
    natneg_connect (init_packet_of c x y rest) peer =
      Some (natneg_magic @ [0x03, 0x05] @ u32_le (nn_session_id c) @ u32_le (nn_address peer) @
        u16_be (nn_port peer) @ [0x42, 0])"
proof -
  have "natneg_name (init_packet_of c x y rest) = nn_game_name c"
    using natneg_parsed_init [OF assms(2), of x y rest] by (metis natneg_client.select_convs(3) natneg_parsed_def)
  then show ?thesis using assms
    by (simp add: parse_natneg_init_eq natneg_init_ack_eq natneg_connect_eq
        init_packet_of_natneg_init natneg_parsed_init)
      (simp add: init_packet_of_def natneg_magic_def u32_le_def)
qed

theorem natneg_init_roundtrip_witness:
  "parse_natneg_init (init_packet_of \<lparr>nn_session_id = 0x7100f13d, nn_client_index = 1,
      nn_game_name = ''mariokartwii'', nn_address = 0xe201000a, nn_port = 0\<rparr> 0 1 []) no_client =
   Some (True, \<lparr>nn_session_id = 0x7100f13d, nn_client_index = 1,
      nn_game_name = ''mariokartwii'', nn_address = 0xe201000a, nn_port = 0\<rparr>)"
  using natneg_init_roundtrip [of "\<lparr>nn_session_id = 0x7100f13d, nn_client_index = 1,
      nn_game_name = ''mariokartwii'', nn_address = 0xe201000a, nn_port = 0\<rparr>" 0 1 "[]" no_client]
  by simp

end
