(* ===== verification/Browser.thy ===== *)
theory Browser
  imports Cpp_String
begin

section \<open>The server browser protocol (\<^verbatim>\<open>src/gamespy_browser.cpp\<close>)\<close>

text \<open>
  The parser of a server-list request walks the packet with an offset that its string reader moves, and
  fills an out parameter as it goes; both are explicit here. The reply is the empty server list. The
  address conversion \<^verbatim>\<open>inet_pton\<close> is a parameter: the four bytes of a valid address.
\<close>

record browser_request =
  br_game_name :: string
  br_challenge :: string
  br_filter :: string
  br_fields :: "string list"

definition no_request :: browser_request where
  "no_request = \<lparr>br_game_name = [], br_challenge = [], br_filter = [], br_fields = []\<rparr>"

function scan_to_nul :: "packet \<Rightarrow> nat \<Rightarrow> nat option" where
  "scan_to_nul packet offset =
     (if offset < length packet then do {
        b \<leftarrow> rd packet offset;
        (if b \<noteq> 0 then scan_to_nul packet (offset + 1) else Some offset)
      } else Some offset)"
  by pat_completeness auto
termination
  by (relation "measure (\<lambda>(packet, offset). length packet - offset)") auto

declare scan_to_nul.simps [simp del]

text \<open>The string and the offset after it.\<close>

definition read_c_string :: "packet \<Rightarrow> nat \<Rightarrow> (string \<times> nat) option" where
  "read_c_string packet start = do {
     offset \<leftarrow> scan_to_nul packet start;
     (if offset = length packet then Some ([], offset)
      else let offset' = offset + 1
           in do {
             body \<leftarrow> iter_range packet start (offset' - 1);
             Some (bytes_str body, offset')
           })
   }"

function split_fields :: "string \<Rightarrow> nat \<Rightarrow> string list \<Rightarrow> string list option" where
  "split_fields field_text field_start fs =
     (if field_start < length field_text then
        let separator = str_find field_text [CHR 0x5C] field_start
        in do {
          field \<leftarrow> str_substr field_text field_start (count_to separator field_start);
          let fs' = (if field \<noteq> [] then fs @ [field] else fs)
          in (case separator of
                None \<Rightarrow> Some fs'
              | Some s \<Rightarrow> split_fields field_text (s + 1) fs')
        }
      else Some fs)"
  by pat_completeness auto
termination
  by (relation "measure (\<lambda>(field_text, field_start, fs). length field_text - field_start)")
    (auto dest: str_find_bound [OF sym])

declare split_fields.simps [simp del]

definition parse_browser_request ::
  "packet \<Rightarrow> browser_request \<Rightarrow> (bool \<times> browser_request) option" where
  "parse_browser_request packet request =
     (if length packet < 15 then Some (False, request)
      else do {
        b2 \<leftarrow> rd packet 2;
        (if b2 \<noteq> 0x00 then Some (False, request)
         else do {
           b0 \<leftarrow> rd packet 0;
           b1 \<leftarrow> rd packet 1;
           let declared_size = unat b0 * 256 + unat b1
           in if declared_size \<noteq> length packet then Some (False, request)
              else do {
                (query_game, offset1) \<leftarrow> read_c_string packet (3 + 1 + 1 + 4);
                (game_name, offset2) \<leftarrow> read_c_string packet offset1;
                let request1 = request\<lparr>br_game_name := game_name\<rparr>
                in if query_game = [] \<or> game_name = [] \<or> length packet < offset2 + 8
                   then Some (False, request1)
                   else do {
                     challenge \<leftarrow> iter_range packet offset2 (offset2 + 8);
                     (filter_text, offset3) \<leftarrow> read_c_string packet (offset2 + 8);
                     (field_text, offset4) \<leftarrow> read_c_string packet offset3;
                     let request2 = request1\<lparr>br_challenge := bytes_str challenge,
                                             br_filter := filter_text\<rparr>
                     in if length packet < offset4 + 4 then Some (False, request2)
                        else do {
                          fs \<leftarrow> split_fields field_text 0 (br_fields request2);
                          Some (True, request2\<lparr>br_fields := fs\<rparr>)
                        }
                   }
              }
         })
      })"

definition append_u16_be :: "packet \<Rightarrow> u16 \<Rightarrow> packet" where
  "append_u16_be output v = output @ [ucast (drop_bit 8 v), ucast (v AND 0xff)]"

definition browser_empty_server_list ::
  "(string \<Rightarrow> (u8 \<times> u8 \<times> u8 \<times> u8) option) \<Rightarrow> browser_request \<Rightarrow> string \<Rightarrow> u16 \<Rightarrow> packet" where
  "browser_empty_server_list inet_pton request address port =
     (case inet_pton address of
        None \<Rightarrow> []
      | Some (a, b, c, d) \<Rightarrow>
          let response = [a, b, c, d] @ [ucast (drop_bit 8 port AND 0xff), ucast (port AND 0xff)];
              response1 = append_u16_be response (word_of_nat (length (br_fields request)));
              response2 = fold (\<lambda>field out. out @ str_bytes field @ [0x00] @ [0x00])
                            (br_fields request) response1
          in response2 @ [0x00] @ [0xff, 0xff, 0xff, 0xff])"

subsection \<open>The readers stay inside the packet\<close>

lemma scan_to_nul_in:
  "start \<le> length packet \<Longrightarrow>
   \<exists>e. scan_to_nul packet start = Some e \<and> start \<le> e \<and> e \<le> length packet"
proof (induction packet start rule: scan_to_nul.induct)
  case (1 packet offset)
  show ?case
  proof (cases "offset < length packet \<and> packet ! offset \<noteq> 0")
    case True
    then have "rd packet offset = Some (packet ! offset)" by (simp add: rd_in)
    with True 1 show ?thesis
      by (fastforce simp: scan_to_nul.simps [of packet offset])
  next
    case False
    with "1.prems" show ?thesis by (auto simp: scan_to_nul.simps [of packet offset] rd_in)
  qed
qed

lemma read_c_string_in:
  assumes "start \<le> length packet"
  shows "\<exists>s e. read_c_string packet start = Some (s, e) \<and> start \<le> e \<and> e \<le> length packet"
proof -
  obtain k where "scan_to_nul packet start = Some k" "start \<le> k" "k \<le> length packet"
    using scan_to_nul_in [OF assms] by blast
  then show ?thesis
    by (cases "k = length packet") (auto simp: read_c_string_def iter_range_in)
qed

lemma scan_to_nul_found:
  "0 \<notin> set s \<Longrightarrow> scan_to_nul (p @ s @ 0 # rest) (length p) = Some (length p + length s)"
proof (induction s arbitrary: p)
  case Nil
  then show ?case by (simp add: scan_to_nul.simps rd_in nth_append)
next
  case (Cons b s)
  then have "scan_to_nul (p @ (b # s) @ 0 # rest) (length p) =
      scan_to_nul ((p @ [b]) @ s @ 0 # rest) (length (p @ [b]))"
    by (subst scan_to_nul.simps) (simp add: rd_in nth_append)
  with Cons.IH [of "p @ [b]"] Cons.prems show ?case by simp
qed

lemma read_c_string_found:
  assumes "CHR 0x00 \<notin> set s"
  shows "read_c_string (p @ str_bytes s @ 0 # rest) (length p) = Some (s, length p + length s + 1)"
proof -
  have "0 \<notin> set (str_bytes s)" using assms by auto
  then have "scan_to_nul (p @ str_bytes s @ 0 # rest) (length p) = Some (length p + length s)"
    using scan_to_nul_found [of "str_bytes s" p rest] by simp
  then show ?thesis by (simp add: read_c_string_def iter_range_in comp_def)
qed

lemma split_fields_eq:
  "field_start \<le> length field_text \<Longrightarrow>
   split_fields field_text field_start fs =
     Some (fs @ filter (\<lambda>f. f \<noteq> []) (split_on (CHR 0x5C) (drop field_start field_text)))"
proof (induction field_text field_start fs rule: split_fields.induct)
  case (1 field_text field_start fs)
  show ?case
  proof (cases "field_start < length field_text")
    case False
    with 1 show ?thesis by (simp add: split_fields.simps)
  next
    case True
    define tl where "tl = drop field_start field_text"
    have sub: "str_substr field_text field_start
        (count_to (str_find field_text [CHR 0x5C] field_start) field_start) =
        Some (takeWhile (\<lambda>d. d \<noteq> CHR 0x5C) tl)"
      using True by (simp add: str_substr_until tl_def)
    show ?thesis
    proof (cases "find_sub [CHR 0x5C] tl")
      case None
      then have "str_find field_text [CHR 0x5C] field_start = None"
        using True by (simp add: str_find_def tl_def)
      moreover have "split_on (CHR 0x5C) tl = [takeWhile (\<lambda>d. d \<noteq> CHR 0x5C) tl]"
        using None by (subst split_on_unfold) simp
      ultimately show ?thesis
        using True sub by (simp add: split_fields.simps [of _ field_start] flip: tl_def)
    next
      case (Some i)
      then have f: "str_find field_text [CHR 0x5C] field_start = Some (field_start + i)"
        using True by (simp add: str_find_def tl_def)
      then have "field_start + i + 1 \<le> length field_text"
        using str_find_bound [OF f] by simp
      moreover have "split_on (CHR 0x5C) tl =
          takeWhile (\<lambda>d. d \<noteq> CHR 0x5C) tl # split_on (CHR 0x5C) (drop (field_start + i + 1) field_text)"
        using Some by (subst split_on_unfold) (simp add: tl_def add_ac)
      ultimately show ?thesis
        using True sub f 1 by (simp add: split_fields.simps [of _ field_start] flip: tl_def)
    qed
  qed
qed

text \<open>The reply as one concatenation.\<close>

lemma fold_append_fields:
  "fold (\<lambda>field out. out @ str_bytes field @ [0, 0]) fs out =
   out @ concat (map (\<lambda>field. str_bytes field @ [0, 0]) fs)"
  by (induction fs arbitrary: out) simp_all

lemma browser_empty_server_list_eq:
  "inet_pton address = Some (a, b, c, d) \<Longrightarrow>
   browser_empty_server_list inet_pton request address port =
     [a, b, c, d] @ u16_be port @ u16_be (word_of_nat (length (br_fields request))) @
     concat (map (\<lambda>field. str_bytes field @ [0, 0]) (br_fields request)) @
     [0, 0xff, 0xff, 0xff, 0xff]"
proof -
  have hi: "(ucast (drop_bit 8 v) :: u8) = ucast (drop_bit 8 v AND 0xff)" for v :: u16
    by (rule bit_word_eqI) (auto simp: ff_mask16 bit_ucast_iff bit_and_iff bit_mask_iff)
  show "inet_pton address = Some (a, b, c, d) \<Longrightarrow> ?thesis"
    by (simp add: browser_empty_server_list_def append_u16_be_def u16_be_def Let_def
        fold_append_fields hi)
qed

lemma parse_browser_total:
  "\<exists>ok request'. parse_browser_request packet request = Some (ok, request') \<and>
     (ok = False \<or> 15 \<le> length packet \<and>
        length packet = unat (packet ! 0) * 256 + unat (packet ! 1))"
proof (cases "length packet < 15")
  case True
  then show ?thesis by (auto simp: parse_browser_request_def)
next
  case False
  then have nine: "9 \<le> length packet" and reads: "rd packet 2 = Some (packet ! 2)"
    "rd packet 1 = Some (packet ! 1)" "rd packet 0 = Some (packet ! 0)"
    by (auto simp: rd_def)
  obtain q e1 where e1: "read_c_string packet 9 = Some (q, e1)" "e1 \<le> length packet"
    using read_c_string_in [OF nine] by blast
  obtain g e2 where e2: "read_c_string packet e1 = Some (g, e2)" "e2 \<le> length packet"
    using read_c_string_in [OF e1(2)] by blast
  show ?thesis
  proof (cases "e2 + 8 \<le> length packet")
    case False
    moreover have "\<exists>ok. \<not> ok" by blast
    ultimately show ?thesis
      using reads e1 e2 by (simp add: parse_browser_request_def not_le)
  next
    case True
    then obtain f e3 where e3: "read_c_string packet (e2 + 8) = Some (f, e3)" "e3 \<le> length packet"
      using read_c_string_in by blast
    obtain t e4 where e4: "read_c_string packet e3 = Some (t, e4)"
      using read_c_string_in [OF e3(2)] by blast
    moreover have "\<exists>ok. \<not> ok" "\<exists>ok :: bool. ok" by blast+
    ultimately show ?thesis
      using False True reads e1 e2 e3
      by (simp add: parse_browser_request_def iter_range_in Let_def split_fields_eq)
  qed
qed

subsection \<open>Properties\<close>

text \<open>
  The parser of a server-list request never leaves the packet and always returns; when it
  accepts, the size the packet declares is its real size.
\<close>

theorem parse_browser_request_safe:
  "\<exists>ok request'. parse_browser_request packet request = Some (ok, request') \<and>
     (ok = False \<or> 15 \<le> length packet \<and>
        length packet = unat (packet ! 0) * 256 + unat (packet ! 1))"
  by (rule parse_browser_total)

text \<open>The request a client sends: sizes, options, two names, a challenge, a filter and the field list.\<close>

definition browser_body :: "u8 list \<Rightarrow> string \<Rightarrow> browser_request \<Rightarrow> string \<Rightarrow> packet \<Rightarrow> packet" where
  "browser_body options query_game r field_text rest =
     [0x00] @ options @ str_bytes query_game @ [0] @ str_bytes (br_game_name r) @ [0] @
     str_bytes (br_challenge r) @ str_bytes (br_filter r) @ [0] @ str_bytes field_text @ [0] @ rest"

definition browser_packet :: "u8 list \<Rightarrow> string \<Rightarrow> browser_request \<Rightarrow> string \<Rightarrow> packet \<Rightarrow> packet" where
  "browser_packet options query_game r field_text rest =
     (let body = browser_body options query_game r field_text rest; n = length body + 2
      in [word_of_nat (n div 256), word_of_nat (n mod 256)] @ body)"

lemma browser_request_parses:
  assumes "length options = 6" and "query_game \<noteq> []" and "br_game_name r \<noteq> []"
    and "length (br_challenge r) = 8" and "4 \<le> length rest"
    and "CHR 0x00 \<notin> set query_game" and "CHR 0x00 \<notin> set (br_game_name r)"
    and "CHR 0x00 \<notin> set (br_filter r)" and "CHR 0x00 \<notin> set field_text"
    and "length (browser_packet options query_game r field_text rest) < 65536"
  shows "parse_browser_request (browser_packet options query_game r field_text rest) request =
    Some (True, \<lparr>br_game_name = br_game_name r, br_challenge = br_challenge r,
      br_filter = br_filter r,
      br_fields = br_fields request @ filter (\<lambda>f. f \<noteq> []) (split_on (CHR 0x5C) field_text)\<rparr>)"
proof -
  let ?P = "browser_packet options query_game r field_text rest"
  define n where "n = length (browser_body options query_game r field_text rest) + 2"
  define h where "h = [word_of_nat (n div 256), word_of_nat (n mod 256), 0x00 :: u8] @ options"
  define h1 where "h1 = h @ str_bytes query_game @ [0]"
  define h2 where "h2 = h1 @ str_bytes (br_game_name r) @ [0]"
  define h3 where "h3 = h2 @ str_bytes (br_challenge r)"
  define h4 where "h4 = h3 @ str_bytes (br_filter r) @ [0]"
  define t5 where "t5 = str_bytes field_text @ 0 # rest"
  define t4 where "t4 = str_bytes (br_filter r) @ 0 # t5"
  define t3 where "t3 = str_bytes (br_challenge r) @ t4"
  define t2 where "t2 = str_bytes (br_game_name r) @ 0 # t3"
  have P: "?P = h @ str_bytes query_game @ 0 # t2"
    "?P = h1 @ str_bytes (br_game_name r) @ 0 # t3"
    "?P = h2 @ str_bytes (br_challenge r) @ t4"
    "?P = h3 @ str_bytes (br_filter r) @ 0 # t5"
    "?P = h4 @ str_bytes field_text @ 0 # rest"
    by (simp_all add: browser_packet_def browser_body_def n_def h_def h1_def h2_def h3_def h4_def
        t2_def t3_def t4_def t5_def Let_def)
  have len: "length ?P = n" by (simp add: browser_packet_def n_def Let_def)
  then have n: "n < 65536" using assms(10) by simp
  have lens: "length h = 9" "length h1 = 9 + length query_game + 1"
    "length h2 = length h1 + length (br_game_name r) + 1" "length h3 = length h2 + 8"
    "length h4 = length h3 + length (br_filter r) + 1"
    using assms by (simp_all add: h_def h1_def h2_def h3_def h4_def)
  have n4: "n = length h4 + length field_text + 1 + length rest"
    using arg_cong [OF P(5), of length] len by simp
  have r: "read_c_string ?P 9 = Some (query_game, length h1)"
    "read_c_string ?P (length h1) = Some (br_game_name r, length h2)"
    "read_c_string ?P (length h2 + 8) = Some (br_filter r, length h4)"
    "read_c_string ?P (length h4) = Some (field_text, length h4 + length field_text + 1)"
    using read_c_string_found [OF assms(6), of h t2]
      read_c_string_found [OF assms(7), of h1 t3]
      read_c_string_found [OF assms(8), of h3 t5]
      read_c_string_found [OF assms(9), of h4 rest] lens
    by (simp_all flip: P)
  have ch: "take 8 (drop (length h2) ?P) = str_bytes (br_challenge r)"
    using assms(4) by (subst P(3)) simp
  have b: "rd ?P 2 = Some 0" "rd ?P 0 = Some (word_of_nat (n div 256))"
    "rd ?P 1 = Some (word_of_nat (n mod 256))"
    by (simp_all add: rd_def browser_packet_def browser_body_def n_def Let_def nth_append)
  have u: "unat (word_of_nat (n div 256) :: u8) * 256 + unat (word_of_nat (n mod 256) :: u8) = n"
    using n by (simp add: unat_of_nat)
  have big: "15 \<le> n" "length h2 + 8 \<le> n" "length h4 + length field_text + 5 \<le> n"
    using assms(5) lens n4 by linarith+
  have c: "iter_range ?P (length h2) (length h2 + 8) = Some (str_bytes (br_challenge r))"
    using big len ch by (subst iter_range_in) auto
  show ?thesis
    using assms(2,3) r b u c big len
    by (cases request) (simp add: parse_browser_request_def split_fields_eq Let_def comp_def)
qed

text \<open>
  A well-formed request parses to the game name, challenge and filter it carries, and to the
  non-empty parts of its field list in order, appended to the fields the caller's record already held.
\<close>

theorem browser_request_roundtrip:
  assumes "length options = 6" and "query_game \<noteq> []" and "br_game_name r \<noteq> []"
    and "length (br_challenge r) = 8" and "4 \<le> length rest"
    and "CHR 0x00 \<notin> set query_game" and "CHR 0x00 \<notin> set (br_game_name r)"
    and "CHR 0x00 \<notin> set (br_filter r)" and "CHR 0x00 \<notin> set field_text"
    and "length (browser_packet options query_game r field_text rest) < 65536"
  shows "parse_browser_request (browser_packet options query_game r field_text rest) request =
    Some (True, \<lparr>br_game_name = br_game_name r, br_challenge = br_challenge r,
      br_filter = br_filter r,
      br_fields = br_fields request @ filter (\<lambda>f. f \<noteq> []) (split_on (CHR 0x5C) field_text)\<rparr>)"
  using assms by (rule browser_request_parses)

theorem browser_request_roundtrip_witness:
  "parse_browser_request
     (browser_packet [1, 3, 0, 0, 0, 0] ''mkw''
        \<lparr>br_game_name = ''mkw'', br_challenge = ''gS.k{HX?'', br_filter = ''pid = 1'', br_fields = []\<rparr>
        ''ab'' [0, 0, 0, 0]) no_request =
   Some (True, \<lparr>br_game_name = ''mkw'', br_challenge = ''gS.k{HX?'', br_filter = ''pid = 1'',
     br_fields = [''ab'']\<rparr>)"
  using browser_request_roundtrip [of "[1, 3, 0, 0, 0, 0]" "''mkw''"
      "\<lparr>br_game_name = ''mkw'', br_challenge = ''gS.k{HX?'', br_filter = ''pid = 1'', br_fields = []\<rparr>"
      "[0, 0, 0, 0]" "''ab''" no_request]
  by (simp add: browser_packet_def browser_body_def no_request_def Let_def)

end
