(* ===== verification/Server_Game.thy ===== *)
theory Server_Game
  imports Natneg Browser Sessions Net_Address
begin

section \<open>NATNEG and the server browser (\<^verbatim>\<open>src/server_game.cpp\<close>)\<close>

text \<open>
  The NATNEG handler runs on the main thread; its sessions are two nested ordered maps under a mutex
  that nobody else takes. The handler reads the clock once. The browser connection reads one
  length-prefixed request and answers it with the empty list. The console messages are in
  \<open>Server_Console\<close>.
\<close>

record natneg_session_client =
  ns_client :: natneg_client
  ns_init_packet :: packet
  ns_endpoint :: sockaddr_in
  ns_last_seen :: int

type_synonym natneg_session = "(u8, natneg_session_client) omap"
type_synonym natneg_sessions = "(u32, natneg_session) omap"

subsection \<open>The handler of a datagram\<close>

text \<open>The inner loop of the pruning: is some client of the session recent?\<close>

fun session_active :: "int \<Rightarrow> natneg_session \<Rightarrow> bool" where
  "session_active now [] = False"
| "session_active now ((index, stored_client) # rest) =
     (if now - ns_last_seen stored_client < seconds 30 then True else session_active now rest)"

text \<open>The outer loop erases as it walks.\<close>

definition prune_natneg_sessions :: "int \<Rightarrow> natneg_sessions \<Rightarrow> natneg_sessions" where
  "prune_natneg_sessions now sessions =
     erase_walk um_erase (\<lambda>e. \<not> session_active now (snd e)) sessions sessions"

text \<open>\<^verbatim>\<open>natneg_sessions[id]\<close>, which inserts an empty session where there is none.\<close>

definition session_of :: "u32 \<Rightarrow> natneg_sessions \<Rightarrow> natneg_session" where
  "session_of session_id sessions =
     (case um_find sessions session_id of None \<Rightarrow> [] | Some s \<Rightarrow> s)"

definition connect_pair :: "natneg_session \<Rightarrow> sent option" where
  "connect_pair session =
     (case session of
        [(i, first), (j, second)] \<Rightarrow> do {
          first_connect \<leftarrow> natneg_connect (ns_init_packet first) (ns_client second);
          second_connect \<leftarrow> natneg_connect (ns_init_packet second) (ns_client first);
          Some [(ns_endpoint first, first_connect), (ns_endpoint second, second_connect)]
        }
      | _ \<Rightarrow> Some [])"

text \<open>A datagram that is no initialisation.\<close>

definition handle_other_natneg :: "packet \<Rightarrow> sockaddr_in \<Rightarrow> sent option" where
  "handle_other_natneg packet client_address =
     (if length packet < 8 then Some []
      else do {
        record_type \<leftarrow> rd packet 7;
        (if record_type = 0x06
         then do {
           response \<leftarrow> natneg_connect_ack packet;
           Some [(client_address, response)]
         }
         else if record_type = 0x0a
         then do {
           response \<leftarrow> natneg_address_reply packet (sin_addr client_address)
             (ntohs (sin_port client_address));
           Some (if response \<noteq> [] then [(client_address, response)] else [])
         }
         else Some [])
      })"

definition handle_natneg_packet ::
  "int \<Rightarrow> datagram \<Rightarrow> natneg_sessions \<Rightarrow> (sent \<times> natneg_sessions) option" where
  "handle_natneg_packet now incoming sessions =
     (case recvfrom 2048 incoming of
        None \<Rightarrow> Some ([], sessions)
      | Some (packet, client_address) \<Rightarrow>
          if packet = [] then Some ([], sessions)
          else do {
            (parsed, client) \<leftarrow> parse_natneg_init packet no_client;
            (if \<not> parsed
             then do { out \<leftarrow> handle_other_natneg packet client_address; Some (out, sessions) }
             else do {
               let client' = client\<lparr>nn_address := sin_addr client_address,
                                    nn_port := ntohs (sin_port client_address)\<rparr>;
               response \<leftarrow> natneg_init_ack packet;
               let sessions1 = prune_natneg_sessions now sessions;
               let session = om_set (nn_client_index client')
                 \<lparr>ns_client = client', ns_init_packet = packet, ns_endpoint = client_address,
                  ns_last_seen = now\<rparr> (session_of (nn_session_id client') sessions1);
               connects \<leftarrow> connect_pair session;
               Some ((client_address, response) # connects,
                 om_set (nn_session_id client') session sessions1)
             })
          })"

subsection \<open>The browser connection\<close>

definition handle_game_connection ::
  "(string \<Rightarrow> (u8 \<times> u8 \<times> u8 \<times> u8) option) \<Rightarrow> packet \<Rightarrow> packet list option" where
  "handle_game_connection inet_pton incoming =
     (let (length_bytes, incoming') = recv_waitall 2 incoming
      in if length length_bytes \<noteq> 2 then Some []
         else do {
           b0 \<leftarrow> rd length_bytes 0;
           b1 \<leftarrow> rd length_bytes 1;
           let packet_size = unat b0 * 256 + unat b1;
           (if packet_size < 3 \<or> 2048 < packet_size then Some []
            else
              let (body, rest) = recv_waitall (packet_size - 2) incoming'
              in if length body \<noteq> packet_size - 2 then Some []
                 else do {
                   let packet = [b0, b1] @ body;
                   (parsed, request) \<leftarrow> parse_browser_request packet no_request;
                   Some (if parsed
                     then
                       let response = browser_empty_server_list inet_pton request ''0.0.0.0'' 0
                       in if response \<noteq> [] then [response] else []
                     else [])
                 })
         })"

subsection \<open>The invariant of the sessions\<close>

text \<open>
  Both levels are ordered maps; no session is empty; and a stored client is what its stored
  initialisation says, at the endpoint the packet came from.
\<close>

definition client_ok :: "u32 \<Rightarrow> u8 \<Rightarrow> natneg_session_client \<Rightarrow> bool" where
  "client_ok session_id index c \<longleftrightarrow>
     natneg_init (ns_init_packet c) \<and>
     nn_session_id (ns_client c) = session_id \<and> nn_client_index (ns_client c) = index \<and>
     ns_client c = (natneg_parsed (ns_init_packet c))
       \<lparr>nn_address := sin_addr (ns_endpoint c), nn_port := ntohs (sin_port (ns_endpoint c))\<rparr>"

definition session_ok :: "u32 \<Rightarrow> natneg_session \<Rightarrow> bool" where
  "session_ok session_id session \<longleftrightarrow>
     om_valid session \<and> (\<forall>i c. um_find session i = Some c \<longrightarrow> client_ok session_id i c)"

definition natneg_inv :: "natneg_sessions \<Rightarrow> bool" where
  "natneg_inv sessions \<longleftrightarrow>
     om_valid sessions \<and> (\<forall>k s. um_find sessions k = Some s \<longrightarrow> session_ok k s \<and> s \<noteq> [])"

lemma session_active_iff:
  "session_active now s \<longleftrightarrow> (\<exists>c \<in> snd ` set s. now - ns_last_seen c < seconds 30)"
  by (induction now s rule: session_active.induct) auto

lemma find_pruned:
  assumes "om_valid sessions"
  shows "um_find (prune_natneg_sessions now sessions) k =
    (case um_find sessions k of None \<Rightarrow> None
     | Some s \<Rightarrow> if session_active now s then Some s else None)"
  unfolding prune_natneg_sessions_def
  using om.erase_walk_all [OF assms refl, of "\<lambda>e. \<not> session_active now (snd e)" k]
  by (auto split: option.splits)

lemma pruned_inv: "natneg_inv sessions \<Longrightarrow> natneg_inv (prune_natneg_sessions now sessions)"
  unfolding natneg_inv_def using find_pruned om.erase_walk_valid
  by (auto simp: prune_natneg_sessions_def split: option.splits if_splits)

lemma session_of_ok: "natneg_inv sessions \<Longrightarrow> session_ok k (session_of k sessions)"
  by (auto simp: natneg_inv_def session_of_def session_ok_def om_valid_def um_find_def
      split: option.splits)

lemma om_set_nonempty: "om_set k v m \<noteq> []"
  by (induction k v m rule: om_set.induct) auto

lemma session_ok_set:
  "session_ok k s \<Longrightarrow> client_ok k i c \<Longrightarrow> session_ok k (om_set i c s)"
  by (auto simp: session_ok_def om.find_set)

lemma natneg_inv_set:
  "natneg_inv sessions \<Longrightarrow> session_ok k s \<Longrightarrow> s \<noteq> [] \<Longrightarrow> natneg_inv (om_set k s sessions)"
  by (auto simp: natneg_inv_def om.find_set)

text \<open>The two connect messages of a complete session: each client is sent the address of the other.\<close>

definition connect_message :: "natneg_session_client \<Rightarrow> natneg_session_client \<Rightarrow> packet" where
  "connect_message c peer = (take 12 (ns_init_packet c))[7 := 0x05] @
     u32_le (sin_addr (ns_endpoint peer)) @ u16_be (ntohs (sin_port (ns_endpoint peer))) @ [0x42, 0x00]"

definition connects :: "natneg_session \<Rightarrow> sent" where
  "connects session = (case session of
      [(i, c), (j, d)] \<Rightarrow> [(ns_endpoint c, connect_message c d), (ns_endpoint d, connect_message d c)]
    | _ \<Rightarrow> [])"

lemma connect_pair_eq:
  assumes "session_ok k s"
  shows "connect_pair s = Some (connects s)"
proof (cases "\<exists>i c j d. s = [(i, c), (j, d)]")
  case False
  then show ?thesis by (auto simp: connect_pair_def connects_def split: list.splits prod.splits)
next
  case True
  then obtain i c j d where s: "s = [(i, c), (j, d)]" by blast
  have f: "um_find s i = Some c" "um_find s j = Some d"
    using om.two_entries [of s "(i, c)" "(j, d)"] assms s by (simp_all add: session_ok_def)
  then have "client_ok k i c" "client_ok k j d" using assms by (simp_all add: session_ok_def)
  then have "natneg_init (ns_init_packet c)" "natneg_init (ns_init_packet d)"
    "nn_address (ns_client c) = sin_addr (ns_endpoint c)"
    "nn_address (ns_client d) = sin_addr (ns_endpoint d)"
    "nn_port (ns_client c) = ntohs (sin_port (ns_endpoint c))"
    "nn_port (ns_client d) = ntohs (sin_port (ns_endpoint d))"
    unfolding client_ok_def by (metis natneg_client.select_convs natneg_client.surjective
        natneg_client.update_convs)+
  with s show ?thesis by (simp add: connect_pair_def natneg_connect_eq connect_message_def connects_def)
qed

lemma handle_other_natneg_eq:
  "handle_other_natneg packet ca = Some
     (if length packet < 8 then []
      else if packet ! 7 = 0x06 then [(ca, if natneg_header packet then packet else [])]
      else if packet ! 7 = 0x0a \<and> natneg_header packet \<and> 21 \<le> length packet
        then [(ca, (take 15 packet)[7 := 0x0b] @ u32_le (sin_addr ca) @ u16_be (ntohs (sin_port ca)) @
          drop 21 packet)]
      else [])"
proof (cases "length packet < 8")
  case True
  then show ?thesis by (simp add: handle_other_natneg_def)
next
  case False
  then have "rd packet 7 = Some (packet ! 7)" by (simp add: rd_def)
  with False show ?thesis
    by (auto simp: handle_other_natneg_def natneg_connect_ack_eq natneg_address_reply_eq u32_le_def)
qed

text \<open>What an initialisation stores, and the session it is stored in.\<close>

definition announced :: "int \<Rightarrow> packet \<Rightarrow> sockaddr_in \<Rightarrow> natneg_session_client" where
  "announced now packet ca =
     \<lparr>ns_client = (natneg_parsed packet)\<lparr>nn_address := sin_addr ca, nn_port := ntohs (sin_port ca)\<rparr>,
      ns_init_packet = packet, ns_endpoint = ca, ns_last_seen = now\<rparr>"

definition announces :: "packet \<Rightarrow> bool" where
  "announces packet \<longleftrightarrow> natneg_init packet \<and> natneg_name packet \<noteq> []"

definition joined_session ::
  "int \<Rightarrow> packet \<Rightarrow> sockaddr_in \<Rightarrow> natneg_sessions \<Rightarrow> natneg_session" where
  "joined_session now packet ca sessions = om_set (packet ! 13) (announced now packet ca)
     (session_of (le_at packet 8) (prune_natneg_sessions now sessions))"

definition init_ack :: "packet \<Rightarrow> packet" where
  "init_ack packet = (take 14 packet)[7 := 0x01] @ [0xff, 0xff, 0x6d, 0x16, 0xb5, 0x7d, 0xea]"

lemma client_ok_announced:
  "natneg_init packet \<Longrightarrow> client_ok (le_at packet 8) (packet ! 13) (announced now packet ca)"
  by (simp add: client_ok_def announced_def natneg_parsed_def)

lemma joined_ok:
  "natneg_inv sessions \<Longrightarrow> natneg_init packet \<Longrightarrow>
   session_ok (le_at packet 8) (joined_session now packet ca sessions)"
  unfolding joined_session_def
  by (intro session_ok_set session_of_ok pruned_inv client_ok_announced)

lemma handle_natneg_packet_eq:
  fixes datagram ca now sessions
  defines "packet \<equiv> take 2048 datagram"
  assumes "natneg_inv sessions"
  shows "handle_natneg_packet now (Some (datagram, ca)) sessions =
    (if announces packet
     then Some ((ca, init_ack packet) # connects (joined_session now packet ca sessions),
       om_set (le_at packet 8) (joined_session now packet ca sessions)
         (prune_natneg_sessions now sessions))
     else map_option (\<lambda>out. (out, sessions)) (handle_other_natneg packet ca))"
proof (cases "announces packet")
  case True
  then have i: "natneg_init packet" "natneg_name packet \<noteq> []" "packet \<noteq> []"
    by (auto simp: announces_def natneg_init_def)
  have id: "nn_session_id (natneg_parsed packet) = le_at packet 8"
    "nn_client_index (natneg_parsed packet) = packet ! 13"
    by (simp_all add: natneg_parsed_def)
  note c = connect_pair_eq [OF joined_ok [OF assms(2) i(1), of now ca]]
  show ?thesis
    using True i c
    by (simp add: handle_natneg_packet_def recvfrom_def packet_def [symmetric] parse_natneg_init_eq
        natneg_init_ack_eq init_ack_def joined_session_def announced_def id Let_def)
next
  case False
  then show ?thesis
    by (auto simp: handle_natneg_packet_def recvfrom_def packet_def [symmetric] parse_natneg_init_eq
        announces_def handle_other_natneg_eq)
qed

lemma connects_endpoints:
  "connects s = [] \<or> (\<exists>i c j d. s = [(i, c), (j, d)] \<and>
     connects s = [(ns_endpoint c, connect_message c d), (ns_endpoint d, connect_message d c)])"
  by (auto simp: connects_def split: list.splits prod.splits)

text \<open>The session of two clients that announced themselves one after the other.\<close>

lemma two_announced:
  assumes "natneg_inv sessions" and "announces p1" and "announces p2"
    and "length p1 \<le> 2048" and "length p2 \<le> 2048"
    and "le_at p1 8 = le_at p2 8" and "p1 ! 13 \<noteq> p2 ! 13"
    and "um_find sessions (le_at p1 8) = None" and "t2 - t1 < seconds 30"
  shows "\<exists>sessions1 pair sessions2.
    handle_natneg_packet t1 (Some (p1, a1)) sessions = Some ([(a1, init_ack p1)], sessions1) \<and>
    handle_natneg_packet t2 (Some (p2, a2)) sessions1 = Some ((a2, init_ack p2) # pair, sessions2) \<and>
    set pair = {(a1, connect_message (announced t1 p1 a1) (announced t2 p2 a2)),
                (a2, connect_message (announced t2 p2 a2) (announced t1 p1 a1))}"
proof -
  let ?k = "le_at p2 8" and ?e1 = "announced t1 p1 a1" and ?e2 = "announced t2 p2 a2"
  define s1 where "s1 = om_set ?k [(p1 ! 13, ?e1)] (prune_natneg_sessions t1 sessions)"
  have i1: "natneg_init p1" using assms(2) by (simp add: announces_def)
  have v: "om_valid sessions" "om_valid (prune_natneg_sessions t1 sessions)"
    using assms(1) pruned_inv [OF assms(1), of t1] unfolding natneg_inv_def by blast+
  have "um_find (prune_natneg_sessions t1 sessions) ?k = None"
    using assms(6,8) by (simp add: find_pruned [OF v(1)])
  then have j1: "joined_session t1 p1 a1 sessions = [(p1 ! 13, ?e1)]"
    using assms(6) by (simp add: joined_session_def session_of_def)
  have 1: "handle_natneg_packet t1 (Some (p1, a1)) sessions = Some ([(a1, init_ack p1)], s1)"
    using assms(2,4,6) by (simp add: handle_natneg_packet_eq [OF assms(1)] j1 connects_def s1_def)
  have n1: "natneg_inv s1" unfolding s1_def
    by (rule natneg_inv_set [OF pruned_inv [OF assms(1)]])
      (use joined_ok [OF assms(1) i1, of t1 a1] j1 assms(6) in simp_all)
  have "um_find s1 ?k = Some [(p1 ! 13, ?e1)]"
    using v by (simp add: s1_def om.find_set)
  moreover have "session_active t2 [(p1 ! 13, ?e1)]"
    using assms(9) by (simp add: announced_def)
  ultimately have "um_find (prune_natneg_sessions t2 s1) ?k = Some [(p1 ! 13, ?e1)]"
    using n1 by (simp add: find_pruned natneg_inv_def)
  then have "joined_session t2 p2 a2 s1 =
      (if p2 ! 13 < p1 ! 13 then [(p2 ! 13, ?e2), (p1 ! 13, ?e1)] else [(p1 ! 13, ?e1), (p2 ! 13, ?e2)])"
    using assms(7) by (simp add: joined_session_def session_of_def)
  then have "set (connects (joined_session t2 p2 a2 s1)) =
      {(a1, connect_message ?e1 ?e2), (a2, connect_message ?e2 ?e1)}"
    by (auto simp: connects_def announced_def)
  moreover have "handle_natneg_packet t2 (Some (p2, a2)) s1 = Some
      ((a2, init_ack p2) # connects (joined_session t2 p2 a2 s1),
       om_set ?k (joined_session t2 p2 a2 s1) (prune_natneg_sessions t2 s1))"
    using assms(3,5) by (simp add: handle_natneg_packet_eq [OF n1])
  ultimately show ?thesis using 1 by blast
qed

text \<open>One datagram, whatever it is.\<close>

lemma natneg_packet_steps:
  assumes "natneg_inv sessions"
  shows "\<exists>out sessions'. handle_natneg_packet now incoming sessions = Some (out, sessions') \<and>
    natneg_inv sessions' \<and>
    (out = [] \<or> (\<exists>datagram client reply pair. incoming = Some (datagram, client) \<and>
      out = (client, reply) # pair \<and>
      (pair = [] \<or> (\<exists>i c j d. um_find sessions' (le_at datagram 8) = Some [(i, c), (j, d)] \<and> i < j \<and>
        pair = [(ns_endpoint c, connect_message c d), (ns_endpoint d, connect_message d c)]))))"
proof (cases incoming)
  case None
  then show ?thesis using assms by (simp add: handle_natneg_packet_def recvfrom_def)
next
  case (Some p)
  obtain datagram ca where p: "incoming = Some (datagram, ca)" using Some by (cases p) simp
  define packet where "packet = take 2048 datagram"
  show ?thesis
  proof (cases "announces packet")
    case False
    then show ?thesis using assms
      by (auto simp: p handle_natneg_packet_eq packet_def handle_other_natneg_eq)
  next
    case True
    define s where "s = joined_session now packet ca sessions"
    have i: "natneg_init packet" using True by (simp add: announces_def)
    then have "le_at packet 8 = le_at datagram 8"
      by (simp add: le_at_def packet_def natneg_init_def)
    moreover have ok: "session_ok (le_at packet 8) s" unfolding s_def by (rule joined_ok [OF assms i])
    have "natneg_inv (om_set (le_at packet 8) s (prune_natneg_sessions now sessions))"
      by (intro natneg_inv_set pruned_inv assms ok) (simp add: s_def joined_session_def om_set_nonempty)
    moreover have "um_find (om_set (le_at packet 8) s (prune_natneg_sessions now sessions))
        (le_at packet 8) = Some s"
      using pruned_inv [OF assms, of now] by (simp add: natneg_inv_def om.find_set)
    moreover have "i < j" if "s = [(i, c), (j, d)]" for i c j d
      using om.two_entries [of s "(i, c)" "(j, d)"] ok that by (simp add: session_ok_def)
    ultimately show ?thesis
      using connects_endpoints [of s] True assms
      unfolding p handle_natneg_packet_eq [OF assms] packet_def [symmetric] s_def [symmetric] by auto
  qed
qed

subsection \<open>Properties\<close>



text \<open>
  Two clients that announce themselves under the same session id with different indexes, less than
  30 seconds apart, are introduced to each other: both announcements are acknowledged, and on the second
  each client is sent a connect message that carries the other's public address and port.
\<close>

theorem natneg_introduces_clients:
  assumes "natneg_inv sessions" and "announces p1" and "announces p2"
    and "length p1 \<le> 2048" and "length p2 \<le> 2048"
    and "le_at p1 8 = le_at p2 8" and "p1 ! 13 \<noteq> p2 ! 13"
    and "um_find sessions (le_at p1 8) = None" and "t2 - t1 < seconds 30"
  shows "\<exists>sessions1 pair sessions2.
    handle_natneg_packet t1 (Some (p1, a1)) sessions = Some ([(a1, init_ack p1)], sessions1) \<and>
    handle_natneg_packet t2 (Some (p2, a2)) sessions1 = Some ((a2, init_ack p2) # pair, sessions2) \<and>
    set pair =
      {(a1, (take 12 p1)[7 := 0x05] @ u32_le (sin_addr a2) @ u16_be (ntohs (sin_port a2)) @ [0x42, 0x00]),
       (a2, (take 12 p2)[7 := 0x05] @ u32_le (sin_addr a1) @ u16_be (ntohs (sin_port a1)) @ [0x42, 0x00])}"
  using two_announced [OF assms, of a1 a2] by (simp add: connect_message_def announced_def)

definition sample_init :: "u8 \<Rightarrow> packet" where
  "sample_init index = init_packet_of \<lparr>nn_session_id = 0x7100f13d, nn_client_index = index,
     nn_game_name = ''mariokartwii'', nn_address = 0, nn_port = 0\<rparr> 0 1 []"

lemma sample_init_facts:
  "announces (sample_init i)" "length (sample_init i) \<le> 2048" "le_at (sample_init i) 8 = 0x7100f13d"
  "sample_init i ! 13 = i" "take 12 (sample_init i) = natneg_magic @ [0x03, 0x00] @ u32_le 0x7100f13d"
proof -
  have "natneg_parsed (sample_init i) = \<lparr>nn_session_id = 0x7100f13d, nn_client_index = i,
     nn_game_name = ''mariokartwii'', nn_address = 0, nn_port = 0\<rparr>"
    unfolding sample_init_def by (rule natneg_parsed_init) simp
  then show "announces (sample_init i)" "le_at (sample_init i) 8 = 0x7100f13d" "sample_init i ! 13 = i"
    by (simp_all add: announces_def natneg_parsed_def sample_init_def init_packet_of_natneg_init)
qed (simp_all add: sample_init_def init_packet_of_def natneg_magic_def u32_le_def u16_be_def)

theorem natneg_introduces_clients_witness:
  "\<exists>sessions1 pair sessions2.
    handle_natneg_packet 5 (Some (sample_init 0, \<lparr>sin_addr = 1, sin_port = 2\<rparr>)) [] =
      Some ([(\<lparr>sin_addr = 1, sin_port = 2\<rparr>, init_ack (sample_init 0))], sessions1) \<and>
    handle_natneg_packet 6 (Some (sample_init 1, \<lparr>sin_addr = 3, sin_port = 4\<rparr>)) sessions1 =
      Some ((\<lparr>sin_addr = 3, sin_port = 4\<rparr>, init_ack (sample_init 1)) # pair, sessions2) \<and>
    (\<lparr>sin_addr = 1, sin_port = 2\<rparr>,
      (natneg_magic @ [0x03, 0x00] @ u32_le 0x7100f13d)[7 := 0x05] @ u32_le 3 @ u16_be (ntohs 4) @
        [0x42, 0x00]) \<in> set pair"
proof -
  have e: "natneg_inv []" by (simp add: natneg_inv_def om_valid_def um_find_def)
  show ?thesis
    using natneg_introduces_clients [OF e, of "sample_init 0" "sample_init 1" 6 5
        "\<lparr>sin_addr = 1, sin_port = 2\<rparr>" "\<lparr>sin_addr = 3, sin_port = 4\<rparr>"]
    by (simp add: sample_init_facts um_find_def seconds_def) blast
qed

text \<open>
  A datagram whose eighth byte is the type of a connect acknowledgement but that has no NATNEG
  header is answered with an empty datagram; every other datagram without a header is ignored.
\<close>

theorem headerless_connect_ack:
  assumes "natneg_inv sessions" and "8 \<le> length datagram" and "length datagram \<le> 2048"
    and "\<not> natneg_header datagram"
  shows "handle_natneg_packet now (Some (datagram, client)) sessions =
    Some (if datagram ! 7 = 0x06 then [(client, [])] else [], sessions)"
  using assms by (simp add: handle_natneg_packet_eq announces_def natneg_init_def handle_other_natneg_eq)

theorem headerless_connect_ack_witness:
  "handle_natneg_packet 5 (Some ([0, 0, 0, 0, 0, 0, 0, 6], \<lparr>sin_addr = 1, sin_port = 2\<rparr>)) [] =
    Some ([(\<lparr>sin_addr = 1, sin_port = 2\<rparr>, [])], [])"
  using headerless_connect_ack [of "[]" "[0, 0, 0, 0, 0, 0, 0, 6]" 5 "\<lparr>sin_addr = 1, sin_port = 2\<rparr>"]
  by (simp add: natneg_inv_def om_valid_def um_find_def natneg_header_def)

text \<open>
  C38. A browser connection that receives a well-formed request of at most 2048 bytes answers it once,
  with the empty list at the address 0.0.0.0: the number of the fields asked for and their names.
\<close>

theorem browser_connection_answers:
  assumes "inet_pton ''0.0.0.0'' = Some (0, 0, 0, 0)"
    and "length options = 6" and "query_game \<noteq> []" and "br_game_name r \<noteq> []"
    and "length (br_challenge r) = 8" and "4 \<le> length rest"
    and "CHR 0x00 \<notin> set query_game" and "CHR 0x00 \<notin> set (br_game_name r)"
    and "CHR 0x00 \<notin> set (br_filter r)" and "CHR 0x00 \<notin> set field_text"
    and "length (browser_packet options query_game r field_text rest) \<le> 2048"
    and "names = filter (\<lambda>f. f \<noteq> []) (split_on (CHR 0x5C) field_text)"
  shows "handle_game_connection inet_pton (browser_packet options query_game r field_text rest @ further) =
    Some [[0, 0, 0, 0] @ u16_be 0 @ u16_be (word_of_nat (length names)) @
      concat (map (\<lambda>field. str_bytes field @ [0, 0]) names) @ [0, 0xff, 0xff, 0xff, 0xff]]"
proof -
  let ?P = "browser_packet options query_game r field_text rest"
  obtain b0 b1 body where P: "?P = [b0, b1] @ body"
    by (simp add: browser_packet_def Let_def)
  have parse: "parse_browser_request ?P no_request = Some (True, \<lparr>br_game_name = br_game_name r,
      br_challenge = br_challenge r, br_filter = br_filter r, br_fields = names\<rparr>)"
    using browser_request_parses [of options query_game r rest field_text no_request] assms
    by (simp add: no_request_def)
  have "length ?P = unat (?P ! 0) * 256 + unat (?P ! 1)" "15 \<le> length ?P"
    using parse_browser_total [of ?P no_request] parse by auto
  then have n: "unat b0 * 256 + unat b1 = length body + 2" "15 \<le> length body + 2" "body \<noteq> []"
    unfolding P by (simp, simp, force)
  show ?thesis
    using assms(1,11) n parse unfolding P
    by (simp add: handle_game_connection_def recv_waitall_def rd_def numeral_2_eq_2
        browser_empty_server_list_eq Let_def)
qed

theorem browser_connection_answers_witness:
  "handle_game_connection (\<lambda>a. if a = ''0.0.0.0'' then Some (0, 0, 0, 0) else None)
     (browser_packet [1, 3, 0, 0, 0, 0] ''mkw''
        \<lparr>br_game_name = ''mkw'', br_challenge = ''gS.k{HX?'', br_filter = ''pid = 1'', br_fields = []\<rparr>
        ''ab'' [0, 0, 0, 0]) =
   Some [[0, 0, 0, 0, 0, 0, 0, 1, 0x61, 0x62, 0, 0, 0, 0xff, 0xff, 0xff, 0xff]]"
  using browser_connection_answers [of "\<lambda>a. if a = ''0.0.0.0'' then Some (0, 0, 0, 0) else None"
      "[1, 3, 0, 0, 0, 0]" "''mkw''"
      "\<lparr>br_game_name = ''mkw'', br_challenge = ''gS.k{HX?'', br_filter = ''pid = 1'', br_fields = []\<rparr>"
      "[0, 0, 0, 0]" "''ab''" "[''ab'']" "[]"]
  by (simp add: browser_packet_def browser_body_def u16_be_def char_byte_def Let_def)

end
