(* ===== verification/Natneg_Runs.thy ===== *)
theory Natneg_Runs
  imports Server_Game Machine
begin

section \<open>Runs of the NATNEG handler\<close>

text \<open>
  The NATNEG handler as a machine: its events are the datagrams with the time at which they are
  handled. A client that waits for its peer waits through any other traffic.
\<close>

type_synonym natneg_event = "int \<times> datagram"

definition natneg_serve :: "natneg_event \<Rightarrow> natneg_sessions \<Rightarrow> (sent \<times> natneg_sessions) option" where
  "natneg_serve e sessions = handle_natneg_packet (fst e) (snd e) sessions"

interpretation natneg_machine: total_machine natneg_serve natneg_inv "\<lambda>_. True"
  using natneg_packet_steps by unfold_locales (fastforce simp: natneg_serve_def)

lemma natneg_start_inv: "natneg_inv []"
  by (simp add: natneg_inv_def om_valid_def um_find_def)

subsection \<open>A waiting client\<close>

definition awaits_peer :: "packet \<Rightarrow> sockaddr_in \<Rightarrow> int \<Rightarrow> natneg_sessions \<Rightarrow> bool" where
  "awaits_peer p a since sessions \<longleftrightarrow>
     (\<exists>t. since \<le> t \<and> um_find sessions (le_at p 8) = Some [(p ! 13, announced t p a)])"

text \<open>
  Other traffic, less than 30 seconds after a time: datagrams that do not announce the session, and the
  client's own announcement, sent again.
\<close>

definition other_traffic :: "packet \<Rightarrow> sockaddr_in \<Rightarrow> int \<Rightarrow> natneg_event \<Rightarrow> bool" where
  "other_traffic p a since e \<longleftrightarrow>
     since \<le> fst e \<and> fst e < since + seconds 30 \<and>
     (case snd e of
        None \<Rightarrow> True
      | Some (datagram, client) \<Rightarrow>
          \<not> (announces (take 2048 datagram) \<and> le_at (take 2048 datagram) 8 = le_at p 8) \<or>
          take 2048 datagram = p \<and> client = a)"

lemma waiting_survives:
  assumes "natneg_inv sessions" and "awaits_peer p a since sessions" and "now < since + seconds 30"
  shows "awaits_peer p a since (prune_natneg_sessions now sessions)"
proof -
  have v: "om_valid sessions" using assms(1) by (simp add: natneg_inv_def)
  obtain t where t: "since \<le> t" "um_find sessions (le_at p 8) = Some [(p ! 13, announced t p a)]"
    using assms(2) by (auto simp: awaits_peer_def)
  then show ?thesis
    using assms(3) by (auto simp: awaits_peer_def find_pruned [OF v] announced_def)
qed

lemma waiting_session:
  "awaits_peer p a since sessions \<Longrightarrow>
   \<exists>t. since \<le> t \<and> session_of (le_at p 8) sessions = [(p ! 13, announced t p a)]"
  by (auto simp: awaits_peer_def session_of_def)

interpretation peer_waits: lasting_fact natneg_serve natneg_inv "\<lambda>_. True"
  "awaits_peer p a since" "other_traffic p a since" for p a since
proof
  fix sessions e out sessions'
  assume i: "natneg_inv sessions" and f: "awaits_peer p a since sessions" and q: "other_traffic p a since e"
    and x: "natneg_serve e sessions = Some (out, sessions')"
  obtain now incoming where e: "e = (now, incoming)" by fastforce
  show "awaits_peer p a since sessions'"
  proof (cases "\<exists>datagram client. incoming = Some (datagram, client) \<and> announces (take 2048 datagram)")
    case False
    then have "sessions' = sessions"
      using x i by (cases incoming)
        (auto simp: e natneg_serve_def handle_natneg_packet_eq handle_other_natneg_eq
          handle_natneg_packet_def [of _ None] recvfrom_def)
    with f show ?thesis by simp
  next
    case True
    then obtain datagram client where d: "incoming = Some (datagram, client)" "announces (take 2048 datagram)"
      by blast
    let ?p = "take 2048 datagram"
    let ?pruned = "prune_natneg_sessions now sessions"
    have w: "awaits_peer p a since ?pruned"
      using waiting_survives [OF i f] q by (simp add: other_traffic_def e)
    have v: "om_valid ?pruned" using pruned_inv [OF i] by (simp add: natneg_inv_def)
    have s: "sessions' = om_set (le_at ?p 8) (joined_session now ?p client sessions) ?pruned"
      using x d i by (simp add: e natneg_serve_def handle_natneg_packet_eq)
    show ?thesis
    proof (cases "le_at ?p 8 = le_at p 8")
      case False
      then show ?thesis using w v by (simp add: s awaits_peer_def om.find_set)
    next
      case True
      then have p: "?p = p" "client = a" "since \<le> now"
        using q d by (simp_all add: other_traffic_def e)
      obtain t where "session_of (le_at p 8) ?pruned = [(p ! 13, announced t p a)]"
        using waiting_session [OF w] by blast
      then have "joined_session now p a sessions = [(p ! 13, announced now p a)]"
        by (simp add: joined_session_def)
      then show ?thesis
        using p v by (auto simp: s awaits_peer_def om.find_set)
    qed
  qed
qed

text \<open>An announcement of a new session leaves its client waiting; the peer's ends the wait.\<close>

lemma announcement_waits:
  assumes "natneg_inv sessions" and "announces p" and "length p \<le> 2048"
    and "um_find sessions (le_at p 8) = None"
  shows "\<exists>sessions'. natneg_serve (now, Some (p, a)) sessions = Some ([(a, init_ack p)], sessions') \<and>
    natneg_inv sessions' \<and> awaits_peer p a now sessions'"
proof -
  let ?pruned = "prune_natneg_sessions now sessions"
  have v: "om_valid sessions" "om_valid ?pruned"
    using assms(1) pruned_inv [OF assms(1), of now] by (simp_all add: natneg_inv_def)
  have "um_find ?pruned (le_at p 8) = None"
    using assms(4) by (simp add: find_pruned [OF v(1)])
  then have j: "joined_session now p a sessions = [(p ! 13, announced now p a)]"
    by (simp add: joined_session_def session_of_def)
  have x: "natneg_serve (now, Some (p, a)) sessions =
      Some ([(a, init_ack p)], om_set (le_at p 8) [(p ! 13, announced now p a)] ?pruned)"
    using assms(2,3) by (simp add: natneg_serve_def handle_natneg_packet_eq [OF assms(1)] j connects_def)
  moreover have "natneg_inv (om_set (le_at p 8) [(p ! 13, announced now p a)] ?pruned)"
    using natneg_machine.step_inv [OF assms(1) _ x] by simp
  ultimately show ?thesis using v(2) by (auto simp: awaits_peer_def om.find_set)
qed

lemma peer_meets:
  assumes "natneg_inv sessions" and "awaits_peer p1 a1 since sessions" and "announces p2"
    and "length p2 \<le> 2048" and "le_at p2 8 = le_at p1 8" and "p2 ! 13 \<noteq> p1 ! 13"
    and "now < since + seconds 30"
  shows "\<exists>pair sessions'.
    natneg_serve (now, Some (p2, a2)) sessions = Some ((a2, init_ack p2) # pair, sessions') \<and>
    set pair =
      {(a1, (take 12 p1)[7 := 0x05] @ u32_le (sin_addr a2) @ u16_be (ntohs (sin_port a2)) @ [0x42, 0x00]),
       (a2, (take 12 p2)[7 := 0x05] @ u32_le (sin_addr a1) @ u16_be (ntohs (sin_port a1)) @ [0x42, 0x00])}"
proof -
  obtain t where t: "session_of (le_at p1 8) (prune_natneg_sessions now sessions) =
      [(p1 ! 13, announced t p1 a1)]"
    using waiting_session [OF waiting_survives [OF assms(1,2,7)]] by blast
  then have j: "joined_session now p2 a2 sessions =
      (if p2 ! 13 < p1 ! 13 then [(p2 ! 13, announced now p2 a2), (p1 ! 13, announced t p1 a1)]
       else [(p1 ! 13, announced t p1 a1), (p2 ! 13, announced now p2 a2)])"
    using assms(6) by (simp add: joined_session_def assms(5))
  then have "set (connects (joined_session now p2 a2 sessions)) =
      {(a1, connect_message (announced t p1 a1) (announced now p2 a2)),
       (a2, connect_message (announced now p2 a2) (announced t p1 a1))}"
    by (auto simp: connects_def announced_def)
  then show ?thesis
    using assms(3,4)
    by (simp add: natneg_serve_def handle_natneg_packet_eq [OF assms(1)] connect_message_def announced_def)
qed

subsection \<open>Properties\<close>



end
