(* ===== verification/Nas_Request.thy ===== *)
theory Nas_Request
  imports Cpp_String
begin

section \<open>Reading a NAS request (\<^verbatim>\<open>src/nas_http.cpp\<close>)\<close>

text \<open>
  The helpers that take a value out of the text of an HTTP request: form parameters after the blank
  line, XML elements of a SAKE body and the action of its SOAP header. All search the text with
  \<^verbatim>\<open>find\<close>; where the blank line is missing the search for a parameter starts at \<^verbatim>\<open>npos\<close> and fails.
\<close>

definition blank_line :: string where
  "blank_line = [CHR 0x0D, CHR 0x0A, CHR 0x0D, CHR 0x0A]"

definition crlf :: string where
  "crlf = [CHR 0x0D, CHR 0x0A]"

definition request_user_id :: "string \<Rightarrow> string option" where
  "request_user_id request =
     (let body_start = str_find request blank_line 0;
          user_id_start = str_find_opt request ''userid='' body_start
      in case user_id_start of
           None \<Rightarrow> Some []
         | Some u \<Rightarrow>
             let value_start = u + 7;
                 value_end = str_find request ''&'' value_start
             in str_substr request value_start (count_to value_end value_start))"

definition request_body :: "string \<Rightarrow> string option" where
  "request_body request =
     (case str_find request blank_line 0 of
        None \<Rightarrow> Some []
      | Some body_start \<Rightarrow> str_substr request (body_start + 4) None)"

definition request_parameter :: "string \<Rightarrow> string \<Rightarrow> string option" where
  "request_parameter request name =
     (let marker = name @ ''='';
          value_start = str_find_opt request marker (str_find request blank_line 0)
      in case value_start of
           None \<Rightarrow> Some []
         | Some v \<Rightarrow>
             let first = v + length marker;
                 endp = str_find request ''&'' first
             in str_substr request first (count_to endp first))"

definition xml_value :: "string \<Rightarrow> string \<Rightarrow> string option" where
  "xml_value xml name =
     (let open_tag = ''<'' @ name @ ''>''; close_tag = ''</'' @ name @ ''>''
      in case str_find xml open_tag 0 of
           None \<Rightarrow> Some []
         | Some value_start \<Rightarrow>
             let content_start = value_start + length open_tag
             in case str_find xml close_tag content_start of
                  None \<Rightarrow> Some []
                | Some value_end \<Rightarrow> str_substr xml content_start (Some (value_end - content_start)))"

definition sake_action :: "string \<Rightarrow> string option" where
  "sake_action request =
     (let marker = ''SOAPAction:''
      in case str_find request marker 0 of
           None \<Rightarrow> Some []
         | Some marker_start \<Rightarrow>
             (case str_find_first_not_of request [CHR '' '', CHR 0x09, CHR 0x22]
                     (marker_start + length marker) of
                None \<Rightarrow> Some []
              | Some value_start \<Rightarrow> do {
                  let value_end =
                    str_find_first_of request [CHR 0x22, CHR 0x0D, CHR 0x0A] value_start;
                  v \<leftarrow> str_substr request value_start (count_to value_end value_start);
                  (case str_rfind_char v (CHR ''/'') of
                     None \<Rightarrow> Some v
                   | Some separator \<Rightarrow> str_substr v (separator + 1) None)
                }))"

subsection \<open>What they read\<close>

definition form_part :: "string \<Rightarrow> string" where
  "form_part request =
     (case find_sub blank_line request of None \<Rightarrow> [] | Some b \<Rightarrow> drop b request)"

lemma request_parameter_eq:
  "request_parameter request name = Some (field_after (name @ ''='') (CHR ''&'') (form_part request))"
proof (cases "find_sub blank_line request")
  case None
  then show ?thesis
    by (auto simp: request_parameter_def form_part_def field_after_def Let_def)
next
  case (Some b)
  then have b: "b \<le> length request" using find_sub_bound by fastforce
  show ?thesis
  proof (cases "find_sub (name @ ''='') (drop b request)")
    case None
    with Some b show ?thesis
      by (simp add: request_parameter_def form_part_def field_after_def Let_def str_find_def)
  next
    case i: (Some i)
    then have "b + i + length (name @ ''='') \<le> length request"
      using find_sub_bound [OF i] b by simp
    with Some b i show ?thesis
      using str_substr_until [of "b + i + length (name @ ''='')" request "CHR ''&''"]
      by (simp add: request_parameter_def form_part_def field_after_def Let_def str_find_def
          [of _ _ b] add_ac)
  qed
qed

lemma request_user_id_eq: "request_user_id request = request_parameter request ''userid''"
  by (simp add: request_user_id_def request_parameter_def Let_def eval_nat_numeral split: option.splits)

lemma request_body_eq:
  "request_body request =
   Some ((case find_sub blank_line request of None \<Rightarrow> [] | Some b \<Rightarrow> drop (b + 4) request))"
  using find_sub_bound [of blank_line request]
  by (auto simp: request_body_def str_substr_def blank_line_def split: option.splits)

definition xml_content :: "string \<Rightarrow> string \<Rightarrow> string" where
  "xml_content xml name =
     (case find_sub (''<'' @ name @ ''>'') xml of
        None \<Rightarrow> []
      | Some i \<Rightarrow> let rest = drop (i + length name + 2) xml
                  in case find_sub (''</'' @ name @ ''>'') rest of None \<Rightarrow> [] | Some k \<Rightarrow> take k rest)"

lemma xml_value_eq: "xml_value xml name = Some (xml_content xml name)"
proof (cases "find_sub (''<'' @ name @ ''>'') xml")
  case None
  then show ?thesis by (simp add: xml_value_def xml_content_def Let_def)
next
  case (Some i)
  then have "i + length name + 2 \<le> length xml"
    using find_sub_bound [OF Some] by simp
  with Some show ?thesis
    by (auto simp: xml_value_def xml_content_def Let_def str_find_def str_substr_def
        split: option.splits)
qed

lemma sake_action_total: "\<exists>a. sake_action request = Some a"
proof (cases "find_sub ''SOAPAction:'' request")
  case None
  then show ?thesis by (simp add: sake_action_def Let_def)
next
  case (Some m)
  show ?thesis
  proof (cases "str_find_first_not_of request [CHR '' '', CHR 0x09, CHR 0x22]
      (m + length ''SOAPAction:'')")
    case None
    with Some show ?thesis by (simp add: sake_action_def Let_def)
  next
    case (Some v)
    then have "v < length request"
      unfolding str_find_first_not_of_def by (auto dest: str_find_first_bound)
    then obtain w where w: "str_substr request v
        (count_to (str_find_first_of request [CHR 0x22, CHR 0x0D, CHR 0x0A] v) v) = Some w"
      by (simp add: str_substr_def)
    have "\<exists>a. (case str_rfind_char w (CHR ''/'') of None \<Rightarrow> Some w
        | Some s \<Rightarrow> str_substr w (s + 1) None) = Some a"
      by (auto simp: str_substr_def split: option.splits dest!: str_rfind_char_bound)
    with w Some \<open>find_sub ''SOAPAction:'' request = Some m\<close> show ?thesis
      by (simp add: sake_action_def Let_def)
  qed
qed

subsection \<open>Properties\<close>

text \<open>A form: keys and values joined by \<^verbatim>\<open>=\<close> and \<^verbatim>\<open>&\<close>.\<close>

fun form_text :: "(string \<times> string) list \<Rightarrow> string" where
  "form_text [] = []"
| "form_text [(k, v)] = k @ CHR ''='' # v"
| "form_text ((k, v) # p # ps) = k @ CHR ''='' # v @ CHR ''&'' # form_text (p # ps)"

fun form_value :: "string \<Rightarrow> (string \<times> string) list \<Rightarrow> string" where
  "form_value name [] = []"
| "form_value name ((k, v) # ps) = (if suffix name k then v else form_value name ps)"

lemma suffix_past:
  assumes "c \<notin> set name"
  shows "suffix name (v @ c # k) \<longleftrightarrow> suffix name k"
proof
  assume "suffix name (v @ c # k)"
  then have "suffix name (c # k) \<or> suffix (c # k) name"
    by (rule suffix_same_cases) (simp add: suffix_def)
  moreover have "\<not> suffix (c # k) name" using assms by (auto simp: suffix_def)
  ultimately show "suffix name k" using assms by (auto simp: suffix_Cons)
qed (auto simp: suffix_def)

lemma takeWhile_amp: "CHR ''&'' \<notin> set v \<Longrightarrow> takeWhile (\<lambda>d. d \<noteq> CHR ''&'') (v @ CHR ''&'' # r) = v"
  by (simp add: takeWhile_append takeWhile_eq_all_conv)

lemma field_after_form:
  assumes "\<forall>(k, v) \<in> set ps. set (k @ v) \<inter> {CHR ''='', CHR ''&''} = {}"
    and "CHR ''='' \<notin> set name" "CHR ''&'' \<notin> set name"
  shows "field_after (name @ ''='') (CHR ''&'') (form_text ps) = form_value name ps"
  using assms(1)
proof (induction ps rule: form_text.induct)
  case 1
  then show ?case by (simp add: field_after_def)
next
  case (2 k v)
  then have kv: "CHR ''='' \<notin> set k" "CHR ''='' \<notin> set v" "CHR ''&'' \<notin> set v" by auto
  have "find_sub (name @ ''='') v = None"
    using kv(2) by (auto simp: find_sub_eq_None_sublist sublist_def)
  then have f: "find_sub (name @ ''='') (k @ CHR ''='' # v) =
      (if suffix name k then Some (length k - length name) else None)"
    using find_marker_token [OF assms(2) kv(1), of v] by simp
  have tw: "takeWhile (\<lambda>d. d \<noteq> CHR ''&'') v = v" using kv(3) by (simp add: takeWhile_eq_all_conv) metis
  show ?case
  proof (cases "suffix name k")
    case True
    then have "drop (length k - length name + length (name @ ''='')) (k @ CHR ''='' # v) = v"
      using suffix_length_le [OF True] by simp
    with True f tw show ?thesis by (simp add: field_after_def)
  next
    case False
    with f show ?thesis by (simp add: field_after_def)
  qed
next
  case (3 k v p ps)
  obtain k' v' where p: "p = (k', v')" by fastforce
  obtain t where t: "form_text (p # ps) = k' @ CHR ''='' # t"
    unfolding p by (cases ps) auto
  define r where "r = v @ CHR ''&'' # form_text (p # ps)"
  have v: "CHR ''='' \<notin> set (v @ CHR ''&'' # k')" "CHR ''='' \<notin> set k'" "CHR ''&'' \<notin> set v"
    "CHR ''='' \<notin> set k"
    using "3.prems" by (auto simp: p)
  have "find_sub (name @ ''='') r =
      map_option (\<lambda>i. i + length v + 1) (find_sub (name @ ''='') (form_text (p # ps)))"
    using find_marker_token [OF assms(2) v(1), of t] find_marker_token [OF assms(2) v(2), of t]
      suffix_past [OF assms(3), of v k'] suffix_length_le [of name k']
    by (cases "suffix name k'") (simp_all add: r_def t option.map_comp comp_def add_ac)
  then have f: "find_sub (name @ ''='') (k @ CHR ''='' # r) =
      (if suffix name k then Some (length k - length name)
       else map_option (\<lambda>i. i + length v + 1 + length k + 1)
         (find_sub (name @ ''='') (form_text (p # ps))))"
    using find_marker_token [OF assms(2) v(4), of r] by (simp add: option.map_comp comp_def)
  have e: "form_text ((k, v) # p # ps) = k @ CHR ''='' # r" by (simp add: r_def p)
  show ?case
  proof (cases "suffix name k")
    case True
    then have "drop (length k - length name + length (name @ ''='')) (k @ CHR ''='' # r) = r"
      using suffix_length_le [OF True] by simp
    with True f takeWhile_amp [OF v(3)] show ?thesis
      unfolding e by (simp add: field_after_def r_def)
  next
    case False
    have "field_after (name @ ''='') (CHR ''&'') (k @ CHR ''='' # r) =
        field_after (name @ ''='') (CHR ''&'') (form_text (p # ps))"
      using False f by (cases "find_sub (name @ ''='') (form_text (p # ps))")
        (simp_all add: field_after_def r_def numeral_3_eq_3)
    with False "3.IH" "3.prems" show ?thesis unfolding e by simp
  qed
qed

text \<open>
  A parameter of a form is read as the value of the first parameter whose key ends with the
  wanted name, for every head of the request that has no blank line: a key that merely ends with the
  name, such as \<^verbatim>\<open>xuserid\<close> for \<^verbatim>\<open>userid\<close>, is taken for it.
\<close>

theorem request_parameter_form:
  assumes "find_sub blank_line (head @ blank_line) = Some (length head)"
    and "\<forall>(k, v) \<in> set ps. set (k @ v) \<inter> {CHR ''='', CHR ''&''} = {}"
    and "name \<noteq> []" and "set name \<inter> {CHR ''='', CHR ''&'', CHR 0x0D, CHR 0x0A} = {}"
  shows "request_parameter (head @ blank_line @ form_text ps) name = Some (form_value name ps)"
proof -
  have "find_sub blank_line (head @ blank_line @ form_text ps) = Some (length head)"
    using find_sub_append [OF assms(1)] by simp
  then have "form_part (head @ blank_line @ form_text ps) = blank_line @ form_text ps"
    by (simp add: form_part_def)
  moreover have "hd (name @ ''='') \<notin> set blank_line"
    using assms(3,4) by (cases name) (auto simp: blank_line_def)
  then have "field_after (name @ ''='') (CHR ''&'') (blank_line @ form_text ps) =
      field_after (name @ ''='') (CHR ''&'') (form_text ps)"
    by (auto simp: field_after_def find_sub_skip add.assoc split: option.splits)
  ultimately show ?thesis
    using assms(2,4) by (simp add: request_parameter_eq field_after_form)
qed

theorem request_parameter_form_witness:
  "request_parameter (''POST /ac HTTP/1.1'' @ blank_line @
      form_text [(''action'', ''x''), (''xuserid'', ''1''), (''userid'', ''2'')]) ''userid'' = Some ''1''"
  using request_parameter_form [of "''POST /ac HTTP/1.1''"
      "[(''action'', ''x''), (''xuserid'', ''1''), (''userid'', ''2'')]" "''userid''"]
  by (simp add: blank_line_def suffix_def)

text \<open>
  An XML element of a SAKE body is read as its text: what stands between the first opening tag of
  the name and the next closing tag.
\<close>

theorem xml_value_element:
  assumes "find_sub (''<'' @ name @ ''>'') (before @ ''<'' @ name @ ''>'') = Some (length before)"
    and "find_sub (''</'' @ name @ ''>'') (v @ ''</'' @ name @ ''>'') = Some (length v)"
  shows "xml_value (before @ ''<'' @ name @ ''>'' @ v @ ''</'' @ name @ ''>'' @ after) name = Some v"
proof -
  have "find_sub (''<'' @ name @ ''>'')
      (before @ ''<'' @ name @ ''>'' @ v @ ''</'' @ name @ ''>'' @ after) = Some (length before)"
    using find_sub_append [OF assms(1), of "v @ ''</'' @ name @ ''>'' @ after"] by simp
  moreover have "find_sub (''</'' @ name @ ''>'') (v @ ''</'' @ name @ ''>'' @ after) = Some (length v)"
    using find_sub_append [OF assms(2), of after] by simp
  ultimately show ?thesis by (simp add: xml_value_eq xml_content_def)
qed

theorem xml_value_element_witness:
  "xml_value (''<a>'' @ ''<'' @ ''info'' @ ''>'' @ ''5 < 6'' @ ''</'' @ ''info'' @ ''>'' @ ''</a>'') ''info''
   = Some ''5 < 6''"
  using xml_value_element [of "''info''" "''<a>''" "''5 < 6''" "''</a>''"] by simp

text \<open>
  The action of a SAKE request is the last path segment of its SOAPAction header, with or without
  the quotation mark in front of it.
\<close>

theorem sake_action_header:
  assumes "find_sub ''SOAPAction:'' (before @ ''SOAPAction:'') = Some (length before)"
    and "set blanks \<subseteq> {CHR '' '', CHR 0x09, CHR 0x22}"
    and "url \<noteq> []" and "set (url @ action) \<inter> {CHR 0x22, CHR 0x0D, CHR 0x0A} = {}"
    and "hd url \<notin> {CHR '' '', CHR 0x09}"
    and "CHR ''/'' \<notin> set action"
    and "stop \<in> {CHR 0x22, CHR 0x0D, CHR 0x0A}"
  shows "sake_action (before @ ''SOAPAction:'' @ blanks @ url @ CHR ''/'' # action @ stop # after) =
    Some action"
proof -
  define pre where "pre = before @ ''SOAPAction:'' @ blanks"
  define v where "v = url @ CHR ''/'' # action"
  define r where "r = pre @ v @ stop # after"
  define n where "n = length before + length ''SOAPAction:''"
  have r: "before @ ''SOAPAction:'' @ blanks @ url @ CHR ''/'' # action @ stop # after = r"
    by (simp add: r_def pre_def v_def)
  have m: "find_sub ''SOAPAction:'' r = Some (length before)"
    using find_sub_append [OF assms(1), of "blanks @ v @ stop # after"]
    by (simp add: r_def pre_def)
  obtain u us where u: "url = u # us" using assms(3) by (cases url) auto
  have "find_index (\<lambda>c. c \<notin> set [CHR '' '', CHR 0x09, CHR 0x22])
      (blanks @ u # us @ CHR ''/'' # action @ stop # after) = Some (length blanks)"
    using assms(2,4,5) by (intro find_index_append_first) (auto simp: u)
  moreover have "drop n r = blanks @ u # us @ CHR ''/'' # action @ stop # after" "n \<le> length r"
    by (simp_all add: r_def pre_def n_def v_def u)
  ultimately have f: "str_find_first_not_of r [CHR '' '', CHR 0x09, CHR 0x22] n = Some (length pre)"
    by (simp add: str_find_first_not_of_def str_find_first_def n_def pre_def)
  have "find_index (\<lambda>c. c \<in> set [CHR 0x22, CHR 0x0D, CHR 0x0A]) (v @ stop # after) = Some (length v)"
    using assms(4,7) by (intro find_index_append_first) (auto simp: v_def)
  then have e: "str_find_first_of r [CHR 0x22, CHR 0x0D, CHR 0x0A] (length pre) =
      Some (length pre + length v)"
    by (simp add: str_find_first_of_def str_find_first_def r_def)
  have s: "str_substr r (length pre) (Some (length v)) = Some v"
    by (simp add: str_substr_def r_def)
  have "find_index (\<lambda>d. d = CHR ''/'') (rev action @ CHR ''/'' # rev url) = Some (length (rev action))"
    using assms(6) by (intro find_index_append_first) auto
  then have "str_rfind_char v (CHR ''/'') = Some (length url)"
    by (simp add: str_rfind_char_def v_def)
  moreover have "str_substr v (length url + 1) None = Some action"
    by (simp add: str_substr_def v_def)
  ultimately show ?thesis
    unfolding r using m f e s by (simp add: sake_action_def Let_def n_def)
qed

theorem sake_action_header_witness:
  "sake_action (''POST / HTTP/1.1 '' @ ''SOAPAction:'' @ [CHR '' '', CHR 0x22] @ ''http://gamespy.net/sake'' @
     CHR ''/'' # ''GetMyRecords'' @ CHR 0x22 # crlf) = Some ''GetMyRecords''"
  using sake_action_header [of "''POST / HTTP/1.1 ''" "[CHR '' '', CHR 0x22]" "''http://gamespy.net/sake''"
      "''GetMyRecords''" "CHR 0x22" crlf]
  by simp

end
