(* ===== verification/Nas_State.thy ===== *)
theory Nas_State
  imports Cpp_Containers Cpp_Number Random_Text
begin

section \<open>Accounts, login sessions and records of the NAS server (\<^verbatim>\<open>src/nas_http.cpp\<close>)\<close>

text \<open>
  The static tables of the file as one record, and the operations that change them under their
  mutexes. User ids and profile ids are handed out by two copies of the same scheme, a table and a
  64-bit counter; the locale \<open>id_allocator\<close> is their contract.
\<close>

record login_session =
  ls_challenge :: string
  ls_token :: string
  ls_request_body :: string
  ls_profile_id :: string

record login_credentials =
  lc_challenge :: string
  lc_token :: string
  lc_user_id :: string
  lc_profile_id :: string

text \<open>The initialisers of \<^verbatim>\<open>struct LoginCredentials\<close>.\<close>

definition default_credentials :: login_credentials where
  "default_credentials =
     \<lparr>lc_challenge = [], lc_token = [], lc_user_id = [], lc_profile_id = ''1''\<rparr>"

record friend_info_record =
  fr_record_id :: u64
  fr_owner :: string
  fr_game_id :: string
  fr_table_id :: string
  fr_info :: string

record nas_state =
  login_sessions :: "(string, login_session) umap"
  account_user_ids :: "(string, string) umap"
  user_profile_ids :: "(string, string) umap"
  next_user_id :: u64
  next_profile_id :: u64
  friend_info_records :: "friend_info_record list"
  next_friend_info_record_id :: u64
  text_generator :: rng

definition nas_start :: "rng \<Rightarrow> nas_state" where
  "nas_start generator =
     \<lparr>login_sessions = [], account_user_ids = [], user_profile_ids = [],
      next_user_id = 1000000000001, next_profile_id = 1,
      friend_info_records = [], next_friend_info_record_id = 1, text_generator = generator\<rparr>"

subsection \<open>Operations\<close>

definition profile_id_for_user :: "string \<Rightarrow> nas_state \<Rightarrow> string \<times> nas_state" where
  "profile_id_for_user user_id st =
     (case um_find (user_profile_ids st) user_id of
        Some found \<Rightarrow> (found, st)
      | None \<Rightarrow>
          let profile_id = to_string64 (next_profile_id st)
          in (profile_id,
              st\<lparr>next_profile_id := next_profile_id st + 1,
                 user_profile_ids := um_emplace user_id profile_id (user_profile_ids st)\<rparr>))"

definition user_id_for_account :: "string \<Rightarrow> nas_state \<Rightarrow> string \<times> nas_state" where
  "user_id_for_account account_key st =
     (case um_find (account_user_ids st) account_key of
        Some found \<Rightarrow> (found, st)
      | None \<Rightarrow>
          let user_id = to_string64 (next_user_id st)
          in (user_id,
              st\<lparr>next_user_id := next_user_id st + 1,
                 account_user_ids := um_emplace account_key user_id (account_user_ids st)\<rparr>))"

definition store_login_session :: "string \<Rightarrow> login_session \<Rightarrow> nas_state \<Rightarrow> nas_state" where
  "store_login_session user_id session st =
     st\<lparr>login_sessions := um_set user_id session (login_sessions st)\<rparr>"

definition store_friend_info :: "friend_info_record \<Rightarrow> nas_state \<Rightarrow> friend_info_record \<times> nas_state" where
  "store_friend_info rec st =
     (let rec' = rec\<lparr>fr_record_id := next_friend_info_record_id st\<rparr>
      in (rec', st\<lparr>next_friend_info_record_id := next_friend_info_record_id st + 1,
                   friend_info_records := friend_info_records st @ [rec']\<rparr>))"

definition credentials_for_token ::
  "(string, login_session) layout \<Rightarrow> string \<Rightarrow> nas_state \<Rightarrow> login_credentials" where
  "credentials_for_token lay token st =
     (case find (\<lambda>(user_id, session). ls_token session = token) (walk lay (login_sessions st)) of
        None \<Rightarrow> default_credentials
      | Some (user_id, session) \<Rightarrow>
          \<lparr>lc_challenge = ls_challenge session, lc_token = ls_token session,
           lc_user_id = user_id, lc_profile_id = ls_profile_id session\<rparr>)"

subsection \<open>The contract of an id allocator\<close>

text \<open>The ids of a table are the numbers from a first one up to the counter, each at one key.\<close>

definition ids_unique :: "(string \<Rightarrow> string option) \<Rightarrow> u64 \<Rightarrow> u64 \<Rightarrow> bool" where
  "ids_unique tab lo hi \<longleftrightarrow>
     lo \<le> hi \<and> (\<forall>k v. tab k = Some v \<longrightarrow> (\<exists>n. lo \<le> n \<and> n < hi \<and> v = to_string64 n)) \<and>
     (\<forall>j k v. tab j = Some v \<longrightarrow> tab k = Some v \<longrightarrow> j = k)"

lemma ids_unique_fresh:
  assumes "ids_unique tab lo hi" "hi \<noteq> - 1" "tab k = None"
  shows "ids_unique (tab(k \<mapsto> to_string64 hi)) lo (hi + 1)"
proof -
  have "1 + hi \<noteq> 0" using assms(2) by (metis add.commute add_eq_0_iff2)
  then have hi: "hi < hi + 1" by (simp add: word_less_nat_alt unatSuc add.commute)
  have "tab j \<noteq> Some (to_string64 hi)" for j
    using assms(1) unfolding ids_unique_def by (metis less_irrefl to_string64_inject)
  moreover have "n < hi + 1" if "n < hi" for n
    using that hi by (rule less_trans)
  moreover have "lo \<le> hi + 1" using assms(1) hi unfolding ids_unique_def by (meson less_imp_le order_trans)
  ultimately show ?thesis
    using assms(1) hi unfolding ids_unique_def
    by (intro conjI allI impI) (fastforce split: if_splits)+
qed

locale id_allocator =
  fixes table :: "'st \<Rightarrow> string \<Rightarrow> string option"
    and counter :: "'st \<Rightarrow> u64"
    and alloc :: "string \<Rightarrow> 'st \<Rightarrow> string \<times> 'st"
    and valid :: "'st \<Rightarrow> bool"
  assumes known: "table st k = Some v \<Longrightarrow> alloc k st = (v, st)"
    and fresh_id: "table st k = None \<Longrightarrow> fst (alloc k st) = to_string64 (counter st)"
    and fresh_table: "valid st \<Longrightarrow> table st k = None \<Longrightarrow>
      table (snd (alloc k st)) = (table st)(k \<mapsto> to_string64 (counter st))"
    and fresh_counter: "table st k = None \<Longrightarrow> counter (snd (alloc k st)) = counter st + 1"
    and valid_alloc: "valid st \<Longrightarrow> valid (snd (alloc k st))"
begin

lemma alloc_result: "valid st \<Longrightarrow> table (snd (alloc k st)) k = Some (fst (alloc k st))"
  by (cases "table st k") (simp_all add: known fresh_id fresh_table)

lemma alloc_keeps: "valid st \<Longrightarrow> table st j = Some v \<Longrightarrow> table (snd (alloc k st)) j = Some v"
  by (cases "table st k") (auto simp: known fresh_table)

lemma alloc_again: "valid st \<Longrightarrow> alloc k (snd (alloc k st)) = (fst (alloc k st), snd (alloc k st))"
  using alloc_result known by blast

lemma alloc_unique:
  assumes "valid st" "ids_unique (table st) lo (counter st)" "counter st \<noteq> - 1"
  shows "ids_unique (table (snd (alloc k st))) lo (counter (snd (alloc k st)))"
  using assms ids_unique_fresh [OF assms(2,3)]
  by (cases "table st k") (simp_all add: known fresh_table fresh_counter)

lemma alloc_counter: "counter (snd (alloc k st)) \<in> {counter st, counter st + 1}"
  by (cases "table st k") (simp_all add: known fresh_counter)

lemma alloc_separates:
  assumes "valid st" "ids_unique (table st) lo (counter st)" "counter st \<noteq> - 1" "j \<noteq> k"
    and "counter (snd (alloc j st)) \<noteq> - 1"
  shows "fst (alloc k (snd (alloc j st))) \<noteq> fst (alloc j st)"
proof
  let ?st = "snd (alloc j st)"
  let ?tab = "table (snd (alloc k ?st))"
  assume "fst (alloc k ?st) = fst (alloc j st)"
  moreover have "?tab k = Some (fst (alloc k ?st))" "?tab j = Some (fst (alloc j st))"
    using assms(1) alloc_result alloc_keeps valid_alloc by blast+
  moreover have "ids_unique ?tab lo (counter (snd (alloc k ?st)))"
    using assms by (intro alloc_unique valid_alloc) simp_all
  ultimately show False using assms(4) by (auto simp: ids_unique_def)
qed

end

lemma um_emplace_new: "um_find m k = None \<Longrightarrow> um_emplace k v m = um_set k v m"
  by (simp add: um_emplace_def)

interpretation profile_ids: id_allocator "\<lambda>st. um_find (user_profile_ids st)" next_profile_id
  profile_id_for_user "\<lambda>st. um_valid (user_profile_ids st)"
  by unfold_locales
    (auto simp: profile_id_for_user_def Let_def um_emplace_new um.find_set um.valid_set
      split: option.splits)

interpretation user_ids: id_allocator "\<lambda>st. um_find (account_user_ids st)" next_user_id
  user_id_for_account "\<lambda>st. um_valid (account_user_ids st)"
  by unfold_locales
    (auto simp: user_id_for_account_def Let_def um_emplace_new um.find_set um.valid_set
      split: option.splits)

subsection \<open>What an operation leaves alone\<close>

lemma profile_id_frame [simp]:
  "login_sessions (snd (profile_id_for_user u st)) = login_sessions st"
  "account_user_ids (snd (profile_id_for_user u st)) = account_user_ids st"
  "next_user_id (snd (profile_id_for_user u st)) = next_user_id st"
  "friend_info_records (snd (profile_id_for_user u st)) = friend_info_records st"
  "next_friend_info_record_id (snd (profile_id_for_user u st)) = next_friend_info_record_id st"
  "text_generator (snd (profile_id_for_user u st)) = text_generator st"
  by (simp_all add: profile_id_for_user_def Let_def split: option.splits)

lemma user_id_frame [simp]:
  "login_sessions (snd (user_id_for_account k st)) = login_sessions st"
  "user_profile_ids (snd (user_id_for_account k st)) = user_profile_ids st"
  "next_profile_id (snd (user_id_for_account k st)) = next_profile_id st"
  "friend_info_records (snd (user_id_for_account k st)) = friend_info_records st"
  "next_friend_info_record_id (snd (user_id_for_account k st)) = next_friend_info_record_id st"
  "text_generator (snd (user_id_for_account k st)) = text_generator st"
  by (simp_all add: user_id_for_account_def Let_def split: option.splits)

subsection \<open>Credentials\<close>

text \<open>A token that one session holds is found in it, however the hash map is walked.\<close>

lemma credentials_unique:
  assumes "um_valid (login_sessions st)" "um_find (login_sessions st) u = Some session"
    and "ls_token session = token"
    and "\<And>v s. um_find (login_sessions st) v = Some s \<Longrightarrow> ls_token s = token \<Longrightarrow> v = u"
  shows "credentials_for_token lay token st =
    \<lparr>lc_challenge = ls_challenge session, lc_token = token, lc_user_id = u,
     lc_profile_id = ls_profile_id session\<rparr>"
proof -
  let ?P = "\<lambda>(user_id, session). ls_token session = token"
  let ?xs = "walk lay (login_sessions st)"
  have mem: "(v, s) \<in> set ?xs \<longleftrightarrow> um_find (login_sessions st) v = Some s" for v s
    by (simp add: um.find_iff_entries [OF assms(1)])
  obtain p where p: "find ?P ?xs = Some p"
    using mem [of u session] assms(2,3) by (cases "find ?P ?xs") (auto simp: find_None_iff)
  then have "?P p" "p \<in> set ?xs" by (metis find_Some_iff nth_mem)+
  then have "p = (u, session)"
    using assms(2,4) mem by (cases p) auto
  with p assms(3) show ?thesis by (simp add: credentials_for_token_def)
qed

lemma credentials_unknown:
  assumes "um_valid (login_sessions st)"
    and "\<And>v s. um_find (login_sessions st) v = Some s \<Longrightarrow> ls_token s \<noteq> token"
  shows "credentials_for_token lay token st = default_credentials"
proof -
  have "find (\<lambda>(user_id, session). ls_token session = token) (walk lay (login_sessions st)) = None"
    using assms(2) by (auto simp: find_None_iff simp flip: um.find_iff_entries [OF assms(1)])
  then show ?thesis by (simp add: credentials_for_token_def)
qed

end
