(* ===== verification/Civil_Time.thy ===== *)
theory Civil_Time
  imports Cpp_Number
begin

section \<open>The date and time of the NAS responses\<close>

text \<open>
  \<^verbatim>\<open>current_datetime\<close> of \<^verbatim>\<open>src/nas_http.cpp\<close> prints the UTC time with \<^verbatim>\<open>gmtime_r\<close> and \<^verbatim>\<open>strftime\<close>
  into a buffer of 15 characters. Both are written out: \<^verbatim>\<open>gmtime_r\<close> counts whole years and months off
  the days since the epoch, and a text that does not fit the buffer leaves it undefined (\<^const>\<open>None\<close>).
  Times before the epoch do not occur on a server and are left out.
\<close>

subsection \<open>The calendar\<close>

definition leap_year :: "nat \<Rightarrow> bool" where
  "leap_year y \<longleftrightarrow> y mod 4 = 0 \<and> (y mod 100 \<noteq> 0 \<or> y mod 400 = 0)"

definition year_days :: "nat \<Rightarrow> nat" where
  "year_days y = (if leap_year y then 366 else 365)"

definition month_lengths :: "nat \<Rightarrow> nat list" where
  "month_lengths y = [31, if leap_year y then 29 else 28, 31, 30, 31, 30, 31, 31, 30, 31, 30, 31]"

function split_years :: "nat \<Rightarrow> nat \<Rightarrow> nat \<times> nat" where
  "split_years y d = (if d < year_days y then (y, d) else split_years (y + 1) (d - year_days y))"
  by pat_completeness auto
termination
  by (relation "measure snd") (auto simp: year_days_def)

declare split_years.simps [simp del]

fun split_months :: "nat list \<Rightarrow> nat \<Rightarrow> nat \<times> nat" where
  "split_months [] d = (0, d)"
| "split_months (l # ls) d =
     (if d < l then (0, d) else let (m, r) = split_months ls (d - l) in (Suc m, r))"

record tm =
  tm_year :: nat
  tm_mon :: nat
  tm_mday :: nat
  tm_hour :: nat
  tm_min :: nat
  tm_sec :: nat

text \<open>As in C, the years of a \<^verbatim>\<open>tm\<close> count from 1900 and its months from 0.\<close>

definition gmtime :: "nat \<Rightarrow> tm" where
  "gmtime t =
     (let (y, yday) = split_years 1970 (t div 86400);
          (m, mday) = split_months (month_lengths y) yday;
          s = t mod 86400
      in \<lparr>tm_year = y - 1900, tm_mon = m, tm_mday = mday + 1,
          tm_hour = s div 3600, tm_min = s div 60 mod 60, tm_sec = s mod 60\<rparr>)"

text \<open>\<^verbatim>\<open>strftime\<close> with \<^verbatim>\<open>%Y%m%d%H%M%S\<close> into an array of a given size.\<close>

definition two_digits :: "nat \<Rightarrow> string" where
  "two_digits n = put_padded 2 (CHR ''0'') (dec_of_nat n)"

definition strftime_datetime :: "nat \<Rightarrow> tm \<Rightarrow> string option" where
  "strftime_datetime capacity d =
     (let s = dec_of_nat (tm_year d + 1900) @ two_digits (tm_mon d + 1) @ two_digits (tm_mday d) @
            two_digits (tm_hour d) @ two_digits (tm_min d) @ two_digits (tm_sec d)
      in if length s + 1 \<le> capacity then Some s else None)"

definition current_datetime :: "nat \<Rightarrow> string option" where
  "current_datetime now = (let utc_time = gmtime now in strftime_datetime 15 utc_time)"

subsection \<open>Reading it back\<close>

definition days_before_year :: "nat \<Rightarrow> nat" where
  "days_before_year y = sum_list (map year_days [1970..<y])"

definition days_before_month :: "nat \<Rightarrow> nat \<Rightarrow> nat" where
  "days_before_month y m = sum_list (take m (month_lengths y))"

definition timegm :: "nat \<Rightarrow> nat \<Rightarrow> nat \<Rightarrow> nat \<Rightarrow> nat \<Rightarrow> nat \<Rightarrow> nat" where
  "timegm y mon d h mi s =
     (days_before_year y + days_before_month y (mon - 1) + (d - 1)) * 86400 + h * 3600 + mi * 60 + s"

text \<open>The time a 14-digit text stands for.\<close>

definition datetime_value :: "string \<Rightarrow> nat" where
  "datetime_value s =
     (let num = \<lambda>i k. nat_of_digits 0 (take k (drop i s))
      in timegm (num 0 4) (num 4 2) (num 6 2) (num 8 2) (num 10 2) (num 12 2))"

lemma year_days_pos: "0 < year_days y"
  by (simp add: year_days_def)

lemma split_years_value:
  "1970 \<le> y \<Longrightarrow> split_years y d = (y', d') \<Longrightarrow>
   days_before_year y + d = days_before_year y' + d' \<and> y \<le> y' \<and> d' < year_days y'"
proof (induction y d rule: split_years.induct)
  case (1 y d)
  show ?case
  proof (cases "d < year_days y")
    case True
    with 1 show ?thesis by (simp add: split_years.simps [of y d])
  next
    case False
    with "1.prems" have "split_years (y + 1) (d - year_days y) = (y', d')"
      by (simp add: split_years.simps [of y d])
    moreover have "days_before_year (y + 1) = days_before_year y + year_days y"
      using "1.prems" by (simp add: days_before_year_def)
    ultimately show ?thesis using 1 False by (fastforce simp: not_less)
  qed
qed

lemma split_months_value:
  "d < sum_list ls \<Longrightarrow> split_months ls d = (m, r) \<Longrightarrow>
   m < length ls \<and> d = sum_list (take m ls) + r \<and> r < ls ! m"
proof (induction ls arbitrary: d m)
  case Nil
  then show ?case by simp
next
  case (Cons l ls)
  show ?case
  proof (cases "d < l")
    case True
    with Cons.prems show ?thesis by auto
  next
    case False
    then obtain m' where m: "split_months ls (d - l) = (m', r)" "m = Suc m'"
      using Cons.prems by (auto split: prod.splits)
    with False Cons.prems Cons.IH [of "d - l" m'] have "m' < length ls"
      "d - l = sum_list (take m' ls) + r" "r < ls ! m'" by auto
    with False m show ?thesis by simp
  qed
qed

lemma sum_month_lengths: "sum_list (month_lengths y) = year_days y"
  by (simp add: month_lengths_def year_days_def)

lemma month_lengths_le: "m < 12 \<Longrightarrow> month_lengths y ! m \<le> 31"
proof -
  assume "m < 12"
  then have "month_lengths y ! m \<in> set (month_lengths y)"
    by (intro nth_mem) (simp add: month_lengths_def)
  then show ?thesis by (auto simp: month_lengths_def split: if_splits)
qed

text \<open>The number of days before a year, in closed form.\<close>

lemma days_before_year_closed:
  "1970 \<le> y \<Longrightarrow> days_before_year (Suc y) + 719162 + y div 100 = 365 * y + y div 4 + y div 400"
proof (induction y rule: dec_induct)
  case base
  show ?case by (simp add: days_before_year_def year_days_def leap_year_def)
next
  case (step y)
  have "days_before_year (Suc (Suc y)) = days_before_year (Suc y) + year_days (Suc y)"
    using step.hyps by (simp add: days_before_year_def)
  moreover have "Suc y mod 400 = 0 \<Longrightarrow> Suc y mod 100 = 0" "Suc y mod 100 = 0 \<Longrightarrow> Suc y mod 4 = 0"
    by presburger+
  ultimately show ?case
    using step.IH by (auto simp: div_Suc year_days_def leap_year_def)
qed

lemma year_bound:
  assumes "t < 253402300800"
  shows "tm_year (gmtime t) + 1900 < 10000" "1970 \<le> tm_year (gmtime t) + 1900"
proof -
  obtain y d where y: "split_years 1970 (t div 86400) = (y, d)" by fastforce
  then have v: "days_before_year y + d = t div 86400" "1970 \<le> y"
    using split_years_value [of 1970 "t div 86400" y d] by (simp_all add: days_before_year_def)
  have e: "tm_year (gmtime t) + 1900 = y"
    using y v(2) by (simp add: gmtime_def case_prod_beta Let_def)
  have "y < 10000"
  proof (rule ccontr)
    assume "\<not> y < 10000"
    then obtain z where z: "y = Suc z" "9999 \<le> z" by (cases y) auto
    then have "days_before_year y + 719162 + z div 100 = 365 * z + z div 4 + z div 400"
      using days_before_year_closed [of z] by simp
    then have "2932897 \<le> days_before_year y" using z(2) by linarith
    moreover have "t div 86400 < 2932897" using assms by linarith
    ultimately show False using v(1) by linarith
  qed
  with e v(2) show "tm_year (gmtime t) + 1900 < 10000" "1970 \<le> tm_year (gmtime t) + 1900" by simp_all
qed

lemma two_digits_length: "n < 100 \<Longrightarrow> length (two_digits n) = 2"
proof -
  assume "n < 100"
  then have "n div 10 < 10" by linarith
  then show ?thesis by (simp add: two_digits_def put_padded_def dec_of_nat.simps)
qed

lemma two_digits_value: "n < 100 \<Longrightarrow> nat_of_digits 0 (two_digits n) = n"
proof -
  assume "n < 100"
  have z: "digit_value (CHR ''0'') = Some 0" by (simp add: digit_value_def)
  have "nat_of_digits 0 (replicate k (CHR ''0'') @ s) = nat_of_digits 0 s" for k s
    by (induction k) (simp_all add: z)
  then show ?thesis by (simp add: two_digits_def put_padded_def)
qed

lemma two_digits_digits: "c \<in> set (two_digits n) \<Longrightarrow> is_digit c"
  by (auto simp: two_digits_def put_padded_def is_digit_def digit_value_def
      dest: dec_of_nat_digits [unfolded is_digit_def digit_value_def] split: if_splits)

lemma four_digits: "1000 \<le> n \<Longrightarrow> n < 10000 \<Longrightarrow> length (dec_of_nat n) = 4"
proof -
  assume n: "1000 \<le> n" "n < 10000"
  then have "n div 10 div 10 div 10 < 10" "\<not> n div 10 div 10 < 10" "\<not> n div 10 < 10" "\<not> n < 10"
    by linarith+
  then show ?thesis by (simp add: dec_of_nat.simps [of n] dec_of_nat.simps [of "n div 10"]
      dec_of_nat.simps [of "n div 10 div 10"] dec_of_nat.simps [of "n div 10 div 10 div 10"]
      del: div_mult2_eq)
qed

lemma clock_value: "a div 3600 * 3600 + a div 60 mod 60 * 60 + a mod 60 = (a :: nat)"
proof -
  have "a div 3600 = a div 60 div 60" by (simp flip: div_mult2_eq)
  then have "a div 3600 * 60 + a div 60 mod 60 = a div 60" by (simp add: div_mult_mod_eq)
  then have "(a div 3600 * 60 + a div 60 mod 60) * 60 + a mod 60 = a" by (simp add: div_mult_mod_eq)
  then show ?thesis by (simp add: algebra_simps)
qed

lemma gmtime_ranges:
  "tm_mon (gmtime t) < 12" "tm_mday (gmtime t) \<le> 31" "tm_hour (gmtime t) < 24"
  "tm_min (gmtime t) < 60" "tm_sec (gmtime t) < 60"
  "timegm (tm_year (gmtime t) + 1900) (tm_mon (gmtime t) + 1) (tm_mday (gmtime t))
     (tm_hour (gmtime t)) (tm_min (gmtime t)) (tm_sec (gmtime t)) = t"
proof -
  obtain y d where y: "split_years 1970 (t div 86400) = (y, d)" by fastforce
  then have v: "days_before_year y + d = t div 86400" "1970 \<le> y" "d < year_days y"
    using split_years_value [of 1970 "t div 86400" y d] by (simp_all add: days_before_year_def)
  obtain m r where m: "split_months (month_lengths y) d = (m, r)" by fastforce
  have w: "m < 12" "d = days_before_month y m + r" "r < month_lengths y ! m"
    using split_months_value [OF _ m] v(3)
    by (simp_all add: sum_month_lengths days_before_month_def)
      (simp add: month_lengths_def)
  have g: "gmtime t = \<lparr>tm_year = y - 1900, tm_mon = m, tm_mday = r + 1,
      tm_hour = t mod 86400 div 3600, tm_min = t mod 86400 div 60 mod 60,
      tm_sec = t mod 86400 mod 60\<rparr>"
    by (simp add: gmtime_def y m Let_def)
  have s: "t mod 86400 div 3600 * 3600 + t mod 86400 div 60 mod 60 * 60 + t mod 86400 mod 60 =
      t mod 86400" by (rule clock_value)
  have h: "t mod 86400 div 3600 < 24" by (rule less_mult_imp_div_less) simp
  show "tm_mon (gmtime t) < 12" "tm_mday (gmtime t) \<le> 31" "tm_hour (gmtime t) < 24"
    "tm_min (gmtime t) < 60" "tm_sec (gmtime t) < 60"
    using w(1,3) h month_lengths_le [of m y] by (simp_all add: g)
  have "timegm y (m + 1) (r + 1) hh mi se = (t div 86400) * 86400 + (hh * 3600 + mi * 60 + se)"
    for hh mi se
    using v(1) w(2) by (simp add: timegm_def add.assoc)
  then show "timegm (tm_year (gmtime t) + 1900) (tm_mon (gmtime t) + 1) (tm_mday (gmtime t))
     (tm_hour (gmtime t)) (tm_min (gmtime t)) (tm_sec (gmtime t)) = t"
    using v(2) s div_mult_mod_eq [of t 86400] by (simp only: g tm.simps) simp
qed

subsection \<open>Properties\<close>

text \<open>
  Until the year 10000, the date of a NAS response is 14 digits that fit the buffer of the code,
  and reading them back as a UTC date and time gives the time they were printed from.
\<close>

theorem datetime_roundtrip:
  assumes "now < 253402300800"
  shows "\<exists>s. current_datetime now = Some s \<and> length s = 14 \<and> (\<forall>c \<in> set s. is_digit c) \<and>
    datetime_value s = now"
proof -
  let ?d = "gmtime now"
  let ?s = "dec_of_nat (tm_year ?d + 1900) @ two_digits (tm_mon ?d + 1) @ two_digits (tm_mday ?d) @
    two_digits (tm_hour ?d) @ two_digits (tm_min ?d) @ two_digits (tm_sec ?d)"
  note r = gmtime_ranges [of now]
  have lens: "length (dec_of_nat (tm_year ?d + 1900)) = 4" "length (two_digits (tm_mon ?d + 1)) = 2"
    "length (two_digits (tm_mday ?d)) = 2" "length (two_digits (tm_hour ?d)) = 2"
    "length (two_digits (tm_min ?d)) = 2" "length (two_digits (tm_sec ?d)) = 2"
    using year_bound [OF assms] r by (auto intro!: four_digits two_digits_length)
  have vals: "nat_of_digits 0 (two_digits (tm_mon ?d + 1)) = tm_mon ?d + 1"
    "nat_of_digits 0 (two_digits (tm_mday ?d)) = tm_mday ?d"
    "nat_of_digits 0 (two_digits (tm_hour ?d)) = tm_hour ?d"
    "nat_of_digits 0 (two_digits (tm_min ?d)) = tm_min ?d"
    "nat_of_digits 0 (two_digits (tm_sec ?d)) = tm_sec ?d"
    using r by (auto intro!: two_digits_value)
  have "current_datetime now = Some ?s" "length ?s = 14"
    using lens by (simp_all add: current_datetime_def strftime_datetime_def Let_def)
  moreover have "\<forall>c \<in> set ?s. is_digit c"
    by (auto dest: dec_of_nat_digits two_digits_digits)
  moreover have "datetime_value ?s = now"
    using lens vals r(6) by (simp add: datetime_value_def Let_def)
  ultimately show ?thesis by blast
qed

theorem datetime_roundtrip_witness:
  "\<exists>s. current_datetime 1700000000 = Some s \<and> length s = 14 \<and> (\<forall>c \<in> set s. is_digit c) \<and>
     datetime_value s = 1700000000"
  using datetime_roundtrip [of 1700000000] by simp

text \<open>What the response builders use of it.\<close>

lemma datetime_total:
  "now < 253402300800 \<Longrightarrow> \<exists>s. current_datetime now = Some s"
proof -
  assume now: "now < 253402300800"
  have "length (dec_of_nat (tm_year (gmtime now) + 1900)) = 4"
    using year_bound [OF now] by (auto intro!: four_digits)
  then show ?thesis
    using gmtime_ranges [of now]
    by (simp add: current_datetime_def strftime_datetime_def Let_def two_digits_length)
qed

end
