(* ===== verification/Nas_Http.thy ===== *)
theory Nas_Http
  imports Nas_Request Nas_State Base64 Civil_Time
begin

section \<open>The responses of the NAS server (\<^verbatim>\<open>src/nas_http.cpp\<close>)\<close>

text \<open>
  Every builder returns the text it sends and the new state of the tables; \<^const>\<open>None\<close> stands for
  an exception of a substring or an undefined date. \<open>now\<close> is the time the clock shows when the date is
  printed.
\<close>

definition nas_account_create_response ::
  "nat \<Rightarrow> string \<Rightarrow> nas_state \<Rightarrow> (string \<times> nas_state) option" where
  "nas_account_create_response now request st = do {
     mac_address \<leftarrow> request_parameter request ''macadr'';
     console_number \<leftarrow> request_parameter request ''csnum'';
     let account_key = mac_address @ ''|'' @ console_number;
     let (user_id, st1) = user_id_for_account account_key st;
     let (profile_id, st2) = profile_id_for_user user_id st1;
     datetime \<leftarrow> current_datetime now;
     let response_body =
       ''retry='' @ nas_base64_encode ''0'' @
       ''&returncd='' @ nas_base64_encode ''002'' @
       ''&userid='' @ nas_base64_encode user_id @
       ''&datetime='' @ nas_base64_encode datetime @ crlf;
     Some (''HTTP/1.1 200 OK'' @ crlf @
        ''Content-Type: text/plain'' @ crlf @
        ''Content-Length: '' @ dec_of_nat (length response_body) @
        crlf @ ''NODE: wifiappe1'' @ crlf @ ''Connection: close'' @ crlf @ crlf @
        response_body, st2)
   }"

definition quoted :: "string \<Rightarrow> string" where
  "quoted s = [CHR 0x22] @ s @ [CHR 0x22]"

definition sake_envelope :: "string \<Rightarrow> string" where
  "sake_envelope body =
     ''<?xml version='' @ quoted ''1.0'' @ '' encoding='' @ quoted ''utf-8'' @ ''?>'' @
     ''<soap:Envelope xmlns:soap='' @ quoted ''http://schemas.xmlsoap.org/soap/envelope/'' @ '' '' @
     ''xmlns:xsi='' @ quoted ''http://www.w3.org/2001/XMLSchema-instance'' @ '' '' @
     ''xmlns:xsd='' @ quoted ''http://www.w3.org/2001/XMLSchema'' @ ''>'' @
     ''<soap:Body>'' @ body @ ''</soap:Body></soap:Envelope>''"

definition sake_response :: "string \<Rightarrow> string" where
  "sake_response body =
     (let envelope = sake_envelope body
      in ''HTTP/1.1 200 OK'' @ crlf @
         ''Content-Type: text/xml; charset=utf-8'' @ crlf @
         ''Content-Length: '' @ dec_of_nat (length envelope) @ crlf @
         ''Connection: close'' @ crlf @ crlf @ envelope)"

text \<open>The records of an owner, and how one is printed.\<close>

definition records_of :: "string \<Rightarrow> nas_state \<Rightarrow> friend_info_record list" where
  "records_of owner st = filter (\<lambda>rec. fr_owner rec = owner) (friend_info_records st)"

definition record_xml :: "friend_info_record \<Rightarrow> string" where
  "record_xml rec =
     ''<value><recordid>'' @ to_string64 (fr_record_id rec) @
     ''</recordid><gameid>'' @ fr_game_id rec @
     ''</gameid><tableid>'' @ fr_table_id rec @
     ''</tableid><info>'' @ fr_info rec @ ''</info></value>''"

fun print_records :: "string \<Rightarrow> friend_info_record list \<Rightarrow> string \<Rightarrow> string" where
  "print_records owner [] values = values"
| "print_records owner (rec # recs) values =
     (if fr_owner rec \<noteq> owner then print_records owner recs values
      else print_records owner recs (values @ record_xml rec))"

definition sake_get_my_records_response :: "string \<Rightarrow> nas_state \<Rightarrow> string" where
  "sake_get_my_records_response owner st =
     (let values = print_records owner (friend_info_records st) ''<values>'' @ ''</values>'';
          body = ''<GetMyRecordsResponse xmlns='' @ quoted ''http://gamespy.net/sake'' @ ''>'' @
            ''<GetMyRecordsResult>Success</GetMyRecordsResult>'' @
            values @ ''</GetMyRecordsResponse>''
      in sake_response body)"

definition sake_create_record_response ::
  "string \<Rightarrow> nas_state \<Rightarrow> (string \<times> nas_state) option" where
  "sake_create_record_response request st = do {
     body_text \<leftarrow> request_body request;
     owner \<leftarrow> xml_value body_text ''loginTicket'';
     game_id \<leftarrow> xml_value body_text ''gameid'';
     table_id \<leftarrow> xml_value body_text ''tableid'';
     info \<leftarrow> xml_value body_text ''info'';
     let (rec, st1) = store_friend_info
       \<lparr>fr_record_id = 0, fr_owner = owner, fr_game_id = game_id, fr_table_id = table_id,
        fr_info = info\<rparr> st;
     let body = ''<CreateRecordResponse xmlns='' @ quoted ''http://gamespy.net/sake'' @ ''>'' @
       ''<CreateRecordResult>Success</CreateRecordResult>'' @
       ''<recordid>'' @ to_string64 (fr_record_id rec) @ ''</recordid>'' @
       ''</CreateRecordResponse>'';
     Some (sake_response body, st1)
   }"

definition nas_connectivity_response :: string where
  "nas_connectivity_response =
     ''HTTP/1.1 200 OK'' @ crlf @
     ''Content-Type: text/html'' @ crlf @
     ''Content-Length: 2'' @ crlf @
     ''X-Organization: Nintendo'' @ crlf @
     ''Server: BigIP'' @ crlf @
     ''Connection: close'' @ crlf @
     crlf @
     ''ok''"

text \<open>\<^verbatim>\<open>random_text\<close> of this file, on the generator of the file.\<close>

definition nas_random_text :: "nat \<Rightarrow> nas_state \<Rightarrow> string \<times> nas_state" where
  "nas_random_text n st =
     (let (value, generator) = random_chars n alnum_alphabet (text_generator st)
      in (value, st\<lparr>text_generator := generator\<rparr>))"

definition nas_login_response ::
  "nat \<Rightarrow> string \<Rightarrow> nas_state \<Rightarrow> (string \<times> nas_state) option" where
  "nas_login_response now request st = do {
     user_id \<leftarrow> request_user_id request;
     let (profile_id, st1) = profile_id_for_user user_id st;
     let (challenge, st2) = nas_random_text 8 st1;
     let (token_text, st3) = nas_random_text 80 st2;
     body \<leftarrow> request_body request;
     let session = \<lparr>ls_challenge = challenge, ls_token = ''NDS'' @ token_text,
       ls_request_body = body, ls_profile_id = profile_id\<rparr>;
     let st4 = store_login_session user_id session st3;
     datetime \<leftarrow> current_datetime now;
     let login_body =
       ''retry='' @ nas_base64_encode ''0'' @ ''&returncd='' @ nas_base64_encode ''001'' @
       ''&locator='' @ nas_base64_encode ''gamespy.com'' @
       ''&challenge='' @ nas_base64_encode (ls_challenge session) @
       ''&token='' @ nas_base64_encode (ls_token session) @
       ''&datetime='' @ nas_base64_encode datetime @ crlf;
     Some (''HTTP/1.1 200 OK'' @ crlf @
        ''Content-Type: text/plain'' @ crlf @
        ''Content-Length: '' @
        dec_of_nat (length login_body) @
        crlf @
        ''NODE: wifiappe1'' @ crlf @
        ''Connection: close'' @ crlf @
        crlf @
        login_body, st4)
   }"

text \<open>The three tests on the text of the request.\<close>

definition is_account_create :: "string \<Rightarrow> bool" where
  "is_account_create request \<longleftrightarrow>
     str_contains request ''POST /ac '' \<and>
     str_contains request ''action=YWNjdGNyZWF0ZQ%2A%2A''"

definition is_sake_post :: "string \<Rightarrow> bool" where
  "is_sake_post request \<longleftrightarrow>
     str_contains request ''POST /SakeStorageServer/StorageServer.asmx ''"

definition is_not_login :: "string \<Rightarrow> bool" where
  "is_not_login request \<longleftrightarrow>
     \<not> str_contains request ''POST /ac '' \<or> \<not> str_contains request ''action=bG9naW4%2A''"

text \<open>
  The dispatcher: an account creation, a SAKE action that is known, a connectivity check, or a login.
\<close>

definition connectivity_or_login ::
  "nat \<Rightarrow> string \<Rightarrow> nas_state \<Rightarrow> (string \<times> nas_state) option" where
  "connectivity_or_login now request st =
     (if is_not_login request then Some (nas_connectivity_response, st)
      else nas_login_response now request st)"

definition nas_response_for_request ::
  "nat \<Rightarrow> string \<Rightarrow> nas_state \<Rightarrow> (string \<times> nas_state) option" where
  "nas_response_for_request now request st =
     (if is_account_create request then nas_account_create_response now request st
      else if is_sake_post request
      then do {
        action \<leftarrow> sake_action request;
        body \<leftarrow> request_body request;
        owner \<leftarrow> xml_value body ''loginTicket'';
        (if action = ''GetMyRecords'' then Some (sake_get_my_records_response owner st, st)
         else if action = ''CreateRecord'' then sake_create_record_response request st
         else connectivity_or_login now request st)
      }
      else connectivity_or_login now request st)"

subsection \<open>Complete responses\<close>

text \<open>
  What a client needs of a response: the status line, and a body of the length the header announces.
\<close>

definition http_complete :: "string \<Rightarrow> bool" where
  "http_complete r \<longleftrightarrow>
     prefix (''HTTP/1.1 200 OK'' @ crlf) r \<and>
     (case find_sub blank_line r of
        None \<Rightarrow> False
      | Some i \<Rightarrow>
          field_after ''Content-Length: '' (CHR 0x0D) (take i r @ crlf) =
            dec_of_nat (length r - (i + length blank_line)))"

lemma cr_notin_dec: "CHR 0x0D \<notin> set (dec_of_nat n)"
  by (auto dest: dec_of_nat_digits simp: is_digit_def digit_value_def)

lemma takeWhile_dec_cr: "takeWhile (\<lambda>d. d \<noteq> CHR 0x0D) (dec_of_nat n @ CHR 0x0D # r) = dec_of_nat n"
  using cr_notin_dec [of n] by (simp add: takeWhile_append takeWhile_eq_all_conv)

text \<open>The three headers of the server, with the length left open.\<close>

lemma http_completeI:
  assumes h1: "\<And>rest. find_sub blank_line (h1 @ rest) =
      map_option (\<lambda>i. length h1 + i) (find_sub blank_line rest)"
    and cl: "find_sub ''Content-Length: '' h1 = Some i" "i + 16 = length h1"
    and pre: "prefix (''HTTP/1.1 200 OK'' @ crlf) h1"
    and h2: "find_sub blank_line (crlf @ h2 @ blank_line) = Some (length crlf + length h2)"
    and h2_nil: "h2 \<noteq> []"
  shows "http_complete (h1 @ dec_of_nat (length body) @ crlf @ h2 @ blank_line @ body)"
proof -
  let ?d = "dec_of_nat (length body)"
  define r where "r = h1 @ ?d @ crlf @ h2 @ blank_line @ body"
  have "find_sub blank_line ((crlf @ h2 @ blank_line) @ body) = Some (length crlf + length h2)"
    using h2 by (rule find_sub_append)
  then have "find_sub blank_line (?d @ crlf @ h2 @ blank_line @ body) =
      Some (length ?d + (length crlf + length h2))"
    using cr_notin_dec [of "length body"]
    by (subst find_sub_skip) (simp_all add: blank_line_def)
  then have b: "find_sub blank_line r = Some (length h1 + (length ?d + (length crlf + length h2)))"
    unfolding r_def by (subst h1) simp
  have "field_after ''Content-Length: '' (CHR 0x0D) (h1 @ ?d @ crlf @ h2 @ crlf) = ?d"
    using find_sub_append [OF cl(1), of "?d @ crlf @ h2 @ crlf"] cl(2) takeWhile_dec_cr
    by (simp add: field_after_def crlf_def)
  then show ?thesis
    using b pre unfolding r_def [symmetric]
    by (simp add: http_complete_def) (simp add: r_def)
qed

lemma http_complete_plain:
  "http_complete (''HTTP/1.1 200 OK'' @ crlf @ ''Content-Type: text/plain'' @ crlf @
     ''Content-Length: '' @ dec_of_nat (length body) @
     crlf @ ''NODE: wifiappe1'' @ crlf @ ''Connection: close'' @ crlf @ crlf @ body)"
  using http_completeI [of "''HTTP/1.1 200 OK'' @ crlf @ ''Content-Type: text/plain'' @ crlf @
      ''Content-Length: ''" 43 "''NODE: wifiappe1'' @ crlf @ ''Connection: close''" body]
  by (simp add: crlf_def blank_line_def option.map_comp comp_def)

lemma http_complete_sake: "http_complete (sake_response body)"
  using http_completeI [of "''HTTP/1.1 200 OK'' @ crlf @ ''Content-Type: text/xml; charset=utf-8'' @ crlf @
      ''Content-Length: ''" 56 "''Connection: close''" "sake_envelope body"]
  by (simp add: sake_response_def Let_def crlf_def blank_line_def option.map_comp comp_def)

lemma http_complete_connectivity: "http_complete nas_connectivity_response"
  by (simp add: nas_connectivity_response_def http_complete_def crlf_def blank_line_def
      field_after_def dec_of_nat.simps digit_char_def)

subsection \<open>The effect of a request on the tables\<close>

definition form_field :: "string \<Rightarrow> string \<Rightarrow> string" where
  "form_field request name = field_after (name @ ''='') (CHR ''&'') (form_part request)"

definition body_of :: "string \<Rightarrow> string" where
  "body_of request =
     (case find_sub blank_line request of None \<Rightarrow> [] | Some b \<Rightarrow> drop (b + 4) request)"

lemma nas_readers:
  "request_parameter request name = Some (form_field request name)"
  "request_user_id request = Some (form_field request ''userid'')"
  "request_body request = Some (body_of request)"
  "xml_value xml name = Some (xml_content xml name)"
  unfolding form_field_def body_of_def
  by (simp_all only: request_parameter_eq request_user_id_eq request_body_eq xml_value_eq)

definition after_create :: "string \<Rightarrow> nas_state \<Rightarrow> nas_state" where
  "after_create request st =
     (let (user_id, st1) =
        user_id_for_account (form_field request ''macadr'' @ ''|'' @ form_field request ''csnum'') st
      in snd (profile_id_for_user user_id st1))"

definition create_text :: "string \<Rightarrow> string \<Rightarrow> string" where
  "create_text user_id datetime =
     ''retry='' @ nas_base64_encode ''0'' @ ''&returncd='' @ nas_base64_encode ''002'' @
     ''&userid='' @ nas_base64_encode user_id @ ''&datetime='' @ nas_base64_encode datetime @ crlf"

lemma nas_account_create_eq:
  assumes "current_datetime now = Some d"
  shows "nas_account_create_response now request st =
    Some (''HTTP/1.1 200 OK'' @ crlf @ ''Content-Type: text/plain'' @ crlf @ ''Content-Length: '' @
      (let body = create_text (fst (user_id_for_account
           (form_field request ''macadr'' @ ''|'' @ form_field request ''csnum'') st)) d
       in dec_of_nat (length body) @ crlf @ ''NODE: wifiappe1'' @ crlf @ ''Connection: close'' @
          crlf @ crlf @ body), after_create request st)"
  using assms by (simp add: nas_account_create_response_def nas_readers create_text_def
      after_create_def Let_def case_prod_beta)

definition after_login :: "string \<Rightarrow> login_session \<Rightarrow> rng \<Rightarrow> nas_state \<Rightarrow> nas_state" where
  "after_login user_id session g st =
     store_login_session user_id session ((snd (profile_id_for_user user_id st))\<lparr>text_generator := g\<rparr>)"

lemma nas_login_eq:
  assumes "current_datetime now = Some d"
  shows "\<exists>r challenge token g.
    nas_login_response now request st =
      Some (r, after_login (form_field request ''userid'')
        \<lparr>ls_challenge = challenge, ls_token = token, ls_request_body = body_of request,
         ls_profile_id = fst (profile_id_for_user (form_field request ''userid'') st)\<rparr> g st) \<and>
    http_complete r \<and> CHR 0x5C \<notin> set token \<and>
    sublist (''&challenge='' @ nas_base64_encode challenge @ ''&token='' @ nas_base64_encode token @
      ''&datetime='') r"
proof -
  define u where "u = form_field request ''userid''"
  define c where "c = random_chars 8 alnum_alphabet (text_generator st)"
  define t where "t = random_chars 80 alnum_alphabet (snd c)"
  let ?c = "fst c" and ?t = "''NDS'' @ fst t"
  let ?pre = "''retry='' @ nas_base64_encode ''0'' @ ''&returncd='' @ nas_base64_encode ''001'' @
      ''&locator='' @ nas_base64_encode ''gamespy.com''"
  let ?mid = "''&challenge='' @ nas_base64_encode ?c @ ''&token='' @ nas_base64_encode ?t @ ''&datetime=''"
  define body where "body = ?pre @ ?mid @ nas_base64_encode d @ crlf"
  define r where "r = ''HTTP/1.1 200 OK'' @ crlf @ ''Content-Type: text/plain'' @ crlf @
     ''Content-Length: '' @ dec_of_nat (length body) @
     crlf @ ''NODE: wifiappe1'' @ crlf @ ''Connection: close'' @ crlf @ crlf @ body"
  have "nas_login_response now request st =
      Some (r, after_login u
        \<lparr>ls_challenge = ?c, ls_token = ?t, ls_request_body = body_of request,
         ls_profile_id = fst (profile_id_for_user u st)\<rparr> (snd t) st)"
    using assms
    by (simp add: nas_login_response_def nas_readers nas_random_text_def u_def c_def t_def r_def
        body_def after_login_def case_prod_beta Let_def)
  moreover have "http_complete r" unfolding r_def by (rule http_complete_plain)
  moreover have "CHR 0x5C \<notin> set ?t"
    using random_chars_notin [of alnum_alphabet "CHR 0x5C" 80 "snd c"]
    by (simp add: t_def alnum_alphabet_def)
  moreover have "sublist ?mid body" unfolding body_def by (rule sublist_appendI)
  then have "sublist ?mid r" unfolding r_def by (simp only: sublist_append) blast
  ultimately show ?thesis unfolding u_def by blast
qed

lemma sake_create_eq:
  "sake_create_record_response request st =
    (let (rec, st') = store_friend_info
       \<lparr>fr_record_id = 0, fr_owner = xml_content (body_of request) ''loginTicket'',
        fr_game_id = xml_content (body_of request) ''gameid'',
        fr_table_id = xml_content (body_of request) ''tableid'',
        fr_info = xml_content (body_of request) ''info''\<rparr> st
     in Some (sake_response (''<CreateRecordResponse xmlns='' @ quoted ''http://gamespy.net/sake'' @ ''>'' @
       ''<CreateRecordResult>Success</CreateRecordResult>'' @
       ''<recordid>'' @ to_string64 (fr_record_id rec) @ ''</recordid>'' @
       ''</CreateRecordResponse>''), st'))"
  by (simp add: sake_create_record_response_def nas_readers Let_def case_prod_beta)

text \<open>Every request does one of five things.\<close>

lemma nas_response_cases:
  "(let r = nas_response_for_request now request st
    in r = nas_account_create_response now request st \<or>
       (\<exists>owner. r = Some (sake_get_my_records_response owner st, st)) \<or>
       r = sake_create_record_response request st \<or>
       r = Some (nas_connectivity_response, st) \<or>
       r = nas_login_response now request st)"
proof -
  obtain a where a: "sake_action request = Some a" using sake_action_total by blast
  show ?thesis
    by (auto simp: nas_response_for_request_def connectivity_or_login_def nas_readers a Let_def)
qed

end
