(* ===== verification/Nas_Laws.thy ===== *)
theory Nas_Laws
  imports Nas_Http
begin

section \<open>The laws of the NAS server\<close>

text \<open>
  The invariant of the NAS tables, that every request keeps it, and the properties of the responses.
  Times are limited to those before the year 10000, where the date of a response is defined.
\<close>

definition before_year_10000 :: "nat \<Rightarrow> bool" where
  "before_year_10000 now \<longleftrightarrow> now < 253402300800"

subsection \<open>The invariant\<close>

definition records_inv :: "nas_state \<Rightarrow> bool" where
  "records_inv st \<longleftrightarrow>
     sorted_wrt (<) (map fr_record_id (friend_info_records st)) \<and>
     (\<forall>rec \<in> set (friend_info_records st). fr_record_id rec < next_friend_info_record_id st)"

definition logins_inv :: "nas_state \<Rightarrow> bool" where
  "logins_inv st \<longleftrightarrow>
     (\<forall>u s. um_find (login_sessions st) u = Some s \<longrightarrow>
        um_find (user_profile_ids st) u = Some (ls_profile_id s))"

definition nas_inv :: "nas_state \<Rightarrow> bool" where
  "nas_inv st \<longleftrightarrow>
     um_valid (login_sessions st) \<and> um_valid (account_user_ids st) \<and>
     um_valid (user_profile_ids st) \<and>
     ids_unique (um_find (user_profile_ids st)) 1 (next_profile_id st) \<and>
     ids_unique (um_find (account_user_ids st)) 1000000000001 (next_user_id st) \<and>
     logins_inv st \<and> records_inv st"

text \<open>Room for a number of further ids in each of the three 64-bit counters.\<close>

definition room :: "nat \<Rightarrow> nas_state \<Rightarrow> bool" where
  "room n st \<longleftrightarrow>
     unat (next_profile_id st) + n < 2 ^ 64 \<and> unat (next_user_id st) + n < 2 ^ 64 \<and>
     unat (next_friend_info_record_id st) + n < 2 ^ 64"

lemma unat_succ_le: "unat (c + 1 :: u64) \<le> unat c + 1"
  by (metis add.commute add_0 le_SucI le_add2 plus_1_eq_Suc unatSuc unsigned_0 zero_le)

lemma room_not_max:
  assumes "unat (c :: u64) + Suc n < 2 ^ 64"
  shows "c \<noteq> - 1"
proof
  assume "c = - 1"
  then have "unat c = 2 ^ 64 - 1" by (simp add: unsigned_minus_1_eq_mask mask_eq_exp_minus_1)
  with assms show False by simp
qed

text \<open>What one request may do to a counter.\<close>

lemma room_step:
  assumes "room (Suc n) st"
    and "next_profile_id st' \<in> {next_profile_id st, next_profile_id st + 1}"
    and "next_user_id st' \<in> {next_user_id st, next_user_id st + 1}"
    and "next_friend_info_record_id st' \<in>
      {next_friend_info_record_id st, next_friend_info_record_id st + 1}"
  shows "room n st'"
  using assms unat_succ_le [of "next_profile_id st"] unat_succ_le [of "next_user_id st"]
    unat_succ_le [of "next_friend_info_record_id st"]
  by (auto simp: room_def)

lemma nas_inv_start: "nas_inv (nas_start g)"
  by (simp add: nas_inv_def nas_start_def um.valid_empty um.find_empty ids_unique_def
      logins_inv_def records_inv_def)

lemma nas_inv_profile:
  assumes "nas_inv st" "next_profile_id st \<noteq> - 1"
  shows "nas_inv (snd (profile_id_for_user u st))"
  using assms profile_ids.alloc_unique [of st 1 u] profile_ids.valid_alloc [of st u]
    profile_ids.alloc_keeps [of st _ _ u]
  by (auto simp: nas_inv_def logins_inv_def records_inv_def)

lemma nas_inv_user:
  assumes "nas_inv st" "next_user_id st \<noteq> - 1"
  shows "nas_inv (snd (user_id_for_account k st))"
  using assms user_ids.alloc_unique [of st 1000000000001 k] user_ids.valid_alloc [of st k]
  by (auto simp: nas_inv_def logins_inv_def records_inv_def)

lemma nas_inv_login:
  assumes "nas_inv st" "next_profile_id st \<noteq> - 1"
    and "ls_profile_id session = fst (profile_id_for_user u st)"
  shows "nas_inv (after_login u session g st)"
proof -
  let ?st = "snd (profile_id_for_user u st)"
  have inv: "nas_inv ?st" using assms by (intro nas_inv_profile)
  have "um_valid (user_profile_ids st)" using assms(1) by (simp add: nas_inv_def)
  then have "um_find (user_profile_ids ?st) u = Some (ls_profile_id session)"
    using assms(3) by (simp add: profile_ids.alloc_result)
  moreover have "um_valid (login_sessions ?st)" using inv by (simp only: nas_inv_def)
  ultimately show ?thesis
    using inv unfolding nas_inv_def
    by (auto simp: after_login_def store_login_session_def logins_inv_def records_inv_def
        um.valid_set um.find_set simp del: profile_id_frame)
qed

lemma nas_inv_record:
  assumes "nas_inv st" "next_friend_info_record_id st \<noteq> - 1"
  shows "nas_inv (snd (store_friend_info rec st))"
proof -
  let ?n = "next_friend_info_record_id st"
  have "1 + ?n \<noteq> 0" using assms(2) by (metis add.commute add_eq_0_iff2)
  then have "?n < ?n + 1" by (simp add: word_less_nat_alt unatSuc add.commute)
  then have "\<And>m. m < ?n \<Longrightarrow> m < ?n + 1" by (auto intro: less_trans)
  with \<open>?n < ?n + 1\<close> assms(1) show ?thesis
    by (auto simp: nas_inv_def store_friend_info_def Let_def logins_inv_def records_inv_def
        sorted_wrt_append)
qed

subsection \<open>One request\<close>

lemma nas_response_step:
  assumes "before_year_10000 now"
  shows "\<exists>r st'. nas_response_for_request now request st = Some (r, st') \<and> http_complete r \<and>
    (st' = st \<or> st' = after_create request st \<or>
     (\<exists>rec. st' = snd (store_friend_info rec st)) \<or>
     (\<exists>s g. ls_profile_id s = fst (profile_id_for_user (form_field request ''userid'') st) \<and>
        st' = after_login (form_field request ''userid'') s g st))"
proof -
  obtain d where d: "current_datetime now = Some d"
    using datetime_total assms by (auto simp: before_year_10000_def)
  have c: "\<exists>r st'. nas_account_create_response now request st = Some (r, st') \<and> http_complete r \<and>
      st' = after_create request st"
    using nas_account_create_eq [OF d, of request st] http_complete_plain
    by (simp only: Let_def) blast
  have s: "\<exists>r st'. sake_create_record_response request st = Some (r, st') \<and> http_complete r \<and>
      (\<exists>rec. st' = snd (store_friend_info rec st))"
    using http_complete_sake by (auto simp: sake_create_eq case_prod_beta)
  have l: "\<exists>r st'. nas_login_response now request st = Some (r, st') \<and> http_complete r \<and>
      (\<exists>s g. ls_profile_id s = fst (profile_id_for_user (form_field request ''userid'') st) \<and>
        st' = after_login (form_field request ''userid'') s g st)"
  proof -
    obtain r c t g where l: "nas_login_response now request st =
        Some (r, after_login (form_field request ''userid'')
          \<lparr>ls_challenge = c, ls_token = t, ls_request_body = body_of request,
           ls_profile_id = fst (profile_id_for_user (form_field request ''userid'') st)\<rparr> g st)"
      "http_complete r"
      using nas_login_eq [OF d, of request st] by blast
    show ?thesis unfolding l(1) by (intro exI conjI, rule refl, rule l(2)) (rule login_session.select_convs, rule refl)
  qed
  have g: "http_complete (sake_get_my_records_response owner st)" for owner
    using http_complete_sake by (simp add: sake_get_my_records_response_def Let_def)
  show ?thesis
    using nas_response_cases [of now request st] unfolding Let_def
  proof (elim disjE exE)
    assume "nas_response_for_request now request st = nas_account_create_response now request st"
    with c show ?thesis by fastforce
  next
    fix owner
    assume "nas_response_for_request now request st = Some (sake_get_my_records_response owner st, st)"
    with g show ?thesis by simp
  next
    assume "nas_response_for_request now request st = sake_create_record_response request st"
    with s show ?thesis by fastforce
  next
    assume "nas_response_for_request now request st = Some (nas_connectivity_response, st)"
    with http_complete_connectivity show ?thesis by simp
  next
    assume "nas_response_for_request now request st = nas_login_response now request st"
    with l show ?thesis by fastforce
  qed
qed

lemma nas_request_inv:
  assumes "before_year_10000 now" "nas_inv st" "room (Suc n) st"
  shows "\<exists>r st'. nas_response_for_request now request st = Some (r, st') \<and> nas_inv st' \<and> room n st'"
proof -
  obtain r st' where r: "nas_response_for_request now request st = Some (r, st')"
    and st': "st' = st \<or> st' = after_create request st \<or>
     (\<exists>rec. st' = snd (store_friend_info rec st)) \<or>
     (\<exists>s g. ls_profile_id s = fst (profile_id_for_user (form_field request ''userid'') st) \<and>
        st' = after_login (form_field request ''userid'') s g st)"
    using nas_response_step [OF assms(1)] by blast
  have m: "next_profile_id st \<noteq> - 1" "next_user_id st \<noteq> - 1" "next_friend_info_record_id st \<noteq> - 1"
    using assms(3) room_not_max by (auto simp: room_def simp del: word_eq_numeral_iff_iszero)
  consider "st' = st"
    | "st' = after_create request st"
    | rec where "st' = snd (store_friend_info rec st)"
    | s g where "ls_profile_id s = fst (profile_id_for_user (form_field request ''userid'') st)"
        "st' = after_login (form_field request ''userid'') s g st"
    using st' by blast
  then have "nas_inv st' \<and> room n st'"
  proof cases
    case 1
    with assms show ?thesis by (simp add: room_def)
  next
    case 2
    define k where "k = form_field request ''macadr'' @ ''|'' @ form_field request ''csnum''"
    have e: "st' = snd (profile_id_for_user (fst (user_id_for_account k st)) (snd (user_id_for_account k st)))"
      using 2 by (simp add: after_create_def k_def case_prod_beta)
    have "nas_inv (snd (user_id_for_account k st))"
      using assms(2) m by (intro nas_inv_user)
    then have "nas_inv st'"
      unfolding e using m by (intro nas_inv_profile) simp_all
    moreover have "room n st'"
      unfolding e using assms(3) profile_ids.alloc_counter [of "fst (user_id_for_account k st)"
          "snd (user_id_for_account k st)"] user_ids.alloc_counter [of k st]
      by (intro room_step [of n st]) auto
    ultimately show ?thesis by blast
  next
    case 3
    moreover have "room n st'"
      unfolding 3 using assms(3)
      by (intro room_step [of n st]) (simp_all add: store_friend_info_def Let_def)
    ultimately show ?thesis using nas_inv_record [OF assms(2) m(3)] by simp
  next
    case 4
    moreover have "room n st'"
      unfolding 4 using assms(3) profile_ids.alloc_counter [of "form_field request ''userid''" st]
      by (intro room_step [of n st]) (auto simp: after_login_def store_login_session_def)
    ultimately show ?thesis using nas_inv_login [OF assms(2) m(1)] by simp
  qed
  with r show ?thesis by blast
qed

text \<open>The part of the invariant that needs no room in the counters.\<close>

definition nas_wf :: "nas_state \<Rightarrow> bool" where
  "nas_wf st \<longleftrightarrow>
     um_valid (login_sessions st) \<and> um_valid (account_user_ids st) \<and>
     um_valid (user_profile_ids st) \<and> logins_inv st"

lemma nas_inv_wf: "nas_inv st \<Longrightarrow> nas_wf st"
  by (simp add: nas_inv_def nas_wf_def)

lemma nas_wf_start: "nas_wf (nas_start g)"
  by (rule nas_inv_wf [OF nas_inv_start])

lemma nas_wf_profile: "nas_wf st \<Longrightarrow> nas_wf (snd (profile_id_for_user u st))"
  using profile_ids.valid_alloc [of st u] profile_ids.alloc_keeps [of st _ _ u]
  by (auto simp: nas_wf_def logins_inv_def)

lemma nas_wf_user: "nas_wf st \<Longrightarrow> nas_wf (snd (user_id_for_account k st))"
  using user_ids.valid_alloc [of st k] by (auto simp: nas_wf_def logins_inv_def)

lemma nas_wf_login:
  assumes "nas_wf st" "ls_profile_id session = fst (profile_id_for_user u st)"
  shows "nas_wf (after_login u session g st)"
proof -
  let ?st = "snd (profile_id_for_user u st)"
  have wf: "nas_wf ?st" using assms(1) by (rule nas_wf_profile)
  have "um_find (user_profile_ids ?st) u = Some (ls_profile_id session)"
    using assms by (simp add: nas_wf_def profile_ids.alloc_result)
  moreover have "um_valid (login_sessions ?st)" using wf by (simp only: nas_wf_def)
  ultimately show ?thesis
    using wf unfolding nas_wf_def
    by (auto simp: after_login_def store_login_session_def logins_inv_def um.valid_set um.find_set
        simp del: profile_id_frame)
qed

lemma nas_request_wf:
  assumes "before_year_10000 now" "nas_wf st"
    and "nas_response_for_request now request st = Some (r, st')"
  shows "nas_wf st'"
proof -
  have c: "nas_wf (after_create request st)"
    using assms(2) by (auto simp: after_create_def case_prod_beta Let_def intro!: nas_wf_profile nas_wf_user)
  have f: "nas_wf (snd (store_friend_info rec st))" for rec
    using assms(2) by (simp add: nas_wf_def logins_inv_def store_friend_info_def Let_def)
  show ?thesis
    using nas_response_step [OF assms(1), of request st] assms(2,3) c f nas_wf_login by auto
qed

text \<open>Ids that were given out stay.\<close>

definition keeps_ids :: "nas_state \<Rightarrow> nas_state \<Rightarrow> bool" where
  "keeps_ids st st' \<longleftrightarrow>
     (\<forall>u p. um_find (user_profile_ids st) u = Some p \<longrightarrow> um_find (user_profile_ids st') u = Some p) \<and>
     (\<forall>k u. um_find (account_user_ids st) k = Some u \<longrightarrow> um_find (account_user_ids st') k = Some u)"

lemma keeps_ids_refl: "keeps_ids st st"
  by (simp add: keeps_ids_def)

lemma keeps_ids_trans: "keeps_ids st st' \<Longrightarrow> keeps_ids st' st'' \<Longrightarrow> keeps_ids st st''"
  by (simp add: keeps_ids_def)

lemma keeps_ids_profile:
  "um_valid (user_profile_ids st) \<Longrightarrow> keeps_ids st (snd (profile_id_for_user u st))"
  by (simp add: keeps_ids_def profile_ids.alloc_keeps)

lemma keeps_ids_user:
  "um_valid (account_user_ids st) \<Longrightarrow> keeps_ids st (snd (user_id_for_account k st))"
  by (simp add: keeps_ids_def user_ids.alloc_keeps)

lemma nas_request_keeps_ids:
  assumes "before_year_10000 now" "nas_wf st"
    and "nas_response_for_request now request st = Some (r, st')"
  shows "keeps_ids st st'"
proof -
  have v: "um_valid (account_user_ids st)" "um_valid (user_profile_ids st)"
    using assms(2) by (simp_all add: nas_wf_def)
  have c: "keeps_ids st (after_create request st)"
    using v by (auto simp: after_create_def case_prod_beta Let_def
        intro!: keeps_ids_trans [OF keeps_ids_user keeps_ids_profile])
  have l: "keeps_ids st (after_login u s g st)" for u s g
    using keeps_ids_profile [OF v(2), of u]
    by (simp add: keeps_ids_def after_login_def store_login_session_def)
  have f: "keeps_ids st (snd (store_friend_info rec st))" for rec
    by (simp add: keeps_ids_def store_friend_info_def Let_def)
  show ?thesis
    using nas_response_step [OF assms(1), of request st] assms(3) c l f keeps_ids_refl by auto
qed

subsection \<open>Sequences of requests\<close>

fun nas_run :: "(nat \<times> string) list \<Rightarrow> nas_state \<Rightarrow> nas_state option" where
  "nas_run [] st = Some st"
| "nas_run ((now, request) # rest) st = do {
     (response, st') \<leftarrow> nas_response_for_request now request st;
     nas_run rest st'
   }"

lemma nas_run_inv:
  assumes "\<forall>(now, request) \<in> set reqs. before_year_10000 now"
    and "nas_inv st" "room (length reqs + n) st"
  shows "\<exists>st'. nas_run reqs st = Some st' \<and> nas_inv st' \<and> room n st' \<and> keeps_ids st st'"
  using assms
proof (induction reqs arbitrary: st)
  case Nil
  then show ?case by (simp add: keeps_ids_refl)
next
  case (Cons q reqs)
  obtain now request where q: "q = (now, request)" by fastforce
  then have now: "before_year_10000 now" using Cons.prems by simp
  obtain r st1 where st1: "nas_response_for_request now request st = Some (r, st1)" "nas_inv st1"
      "room (length reqs + n) st1"
    using nas_request_inv [OF now, of st "length reqs + n" request] Cons.prems by auto
  moreover have "keeps_ids st st1"
    using nas_request_keeps_ids [OF now nas_inv_wf] Cons.prems st1 by blast
  moreover obtain st' where "nas_run reqs st1 = Some st'" "nas_inv st'" "room n st'"
      "keeps_ids st1 st'"
    using Cons.IH [of st1] Cons.prems st1 by auto
  ultimately show ?case
    using q keeps_ids_trans by auto
qed

lemma room_start: "n < 2 ^ 63 \<Longrightarrow> room n (nas_start g)"
  by (simp add: room_def nas_start_def)

subsection \<open>Properties\<close>

text \<open>
  C23. Every request gets a complete HTTP response: a status line and a body whose length is what its
  Content-Length header says. No request makes a builder throw or stop.
\<close>

theorem nas_response_complete:
  assumes "now < 253402300800"
  shows "\<exists>r st'. nas_response_for_request now request st = Some (r, st') \<and> http_complete r"
  using nas_response_step [of now request st] assms by (auto simp: before_year_10000_def)

theorem nas_response_complete_witness:
  "\<exists>r st'. nas_response_for_request 1700000000 ''GET / HTTP/1.1'' (nas_start \<lparr>draws = (\<lambda>_. 7), drawn = 0\<rparr>)
     = Some (r, st') \<and> http_complete r"
  using nas_response_complete [of 1700000000 "''GET / HTTP/1.1''"] by simp

text \<open>
  Ids are unique: after any sequence of fewer than 2^63 requests to a fresh server, two users
  never share a profile id, two consoles never share a user id, no two records share a record id, and
  every login session holds the profile id of its user.
\<close>

theorem nas_ids_unique:
  assumes "length reqs < 2 ^ 63" and "\<forall>(now, request) \<in> set reqs. now < 253402300800"
  shows "\<exists>st. nas_run reqs (nas_start g) = Some st \<and>
    (\<forall>u v p. um_find (user_profile_ids st) u = Some p \<longrightarrow> um_find (user_profile_ids st) v = Some p \<longrightarrow> u = v) \<and>
    (\<forall>j k u. um_find (account_user_ids st) j = Some u \<longrightarrow> um_find (account_user_ids st) k = Some u \<longrightarrow> j = k) \<and>
    distinct (map fr_record_id (friend_info_records st)) \<and>
    (\<forall>u s. um_find (login_sessions st) u = Some s \<longrightarrow>
       um_find (user_profile_ids st) u = Some (ls_profile_id s))"
proof -
  obtain st where st: "nas_run reqs (nas_start g) = Some st" "nas_inv st"
    using nas_run_inv [OF _ nas_inv_start, of reqs 0 g] assms room_start [of "length reqs" g]
    by (auto simp: before_year_10000_def)
  then have "distinct (map fr_record_id (friend_info_records st))"
    using strict_sorted_iff [of "map fr_record_id (friend_info_records st)"]
    by (simp add: nas_inv_def records_inv_def)
  with st show ?thesis
    unfolding nas_inv_def ids_unique_def logins_inv_def by blast
qed

definition sample_create :: string where
  "sample_create = ''POST /ac '' @ blank_line @
     ''action=YWNjdGNyZWF0ZQ%2A%2A&macadr=MDAx&csnum=TEVI''"

definition sample_login :: string where
  "sample_login = ''POST /ac '' @ blank_line @ ''action=bG9naW4%2A&userid=MTAx''"

definition sample_generator :: rng where
  "sample_generator = \<lparr>draws = (\<lambda>i. i * i), drawn = 0\<rparr>"

theorem nas_ids_unique_witness:
  "\<exists>st. nas_run [(0, sample_create), (5, sample_login)] (nas_start sample_generator) = Some st \<and>
    (\<forall>u v p. um_find (user_profile_ids st) u = Some p \<longrightarrow> um_find (user_profile_ids st) v = Some p \<longrightarrow> u = v) \<and>
    (\<forall>j k u. um_find (account_user_ids st) j = Some u \<longrightarrow> um_find (account_user_ids st) k = Some u \<longrightarrow> j = k) \<and>
    distinct (map fr_record_id (friend_info_records st)) \<and>
    (\<forall>u s. um_find (login_sessions st) u = Some s \<longrightarrow>
       um_find (user_profile_ids st) u = Some (ls_profile_id s))"
  using nas_ids_unique [of "[(0, sample_create), (5, sample_login)]" sample_generator] by simp


lemma sample_requests:
  "is_account_create sample_create" "\<not> is_account_create sample_login"
  "\<not> is_sake_post sample_login" "\<not> is_not_login sample_login"
  by (simp_all add: is_account_create_def is_sake_post_def is_not_login_def sample_create_def
      sample_login_def blank_line_def)


lemma login_redeemed:
  assumes "nas_inv st" and "next_profile_id st \<noteq> - 1" and "now < 253402300800"
    and "\<not> is_account_create request" and "\<not> is_sake_post request" and "\<not> is_not_login request"
    and "request_user_id request = Some user"
  shows "\<exists>r st' challenge token. nas_response_for_request now request st = Some (r, st') \<and>
    sublist (''&challenge='' @ nas_base64_encode challenge @ ''&token='' @ nas_base64_encode token @
      ''&datetime='') r \<and>
    CHR 0x5C \<notin> set token \<and>
    ((\<forall>v s. um_find (login_sessions st) v = Some s \<longrightarrow> ls_token s = token \<longrightarrow> v = user) \<longrightarrow>
       credentials_for_token lay token st' =
         \<lparr>lc_challenge = challenge, lc_token = token, lc_user_id = user,
          lc_profile_id = the (um_find (user_profile_ids st') user)\<rparr> \<and>
       um_find (user_profile_ids st') user \<noteq> None)"
proof -
  obtain d where d: "current_datetime now = Some d"
    using datetime_total assms(3) by blast
  have u: "form_field request ''userid'' = user"
    using assms(7) by (simp only: nas_readers option.inject)
  have "nas_response_for_request now request st = nas_login_response now request st"
    using assms(4,5,6) by (simp add: nas_response_for_request_def connectivity_or_login_def)
  then obtain r c t g where r: "nas_response_for_request now request st = Some (r, after_login user
        \<lparr>ls_challenge = c, ls_token = t, ls_request_body = body_of request,
         ls_profile_id = fst (profile_id_for_user user st)\<rparr> g st)"
    "sublist (''&challenge='' @ nas_base64_encode c @ ''&token='' @ nas_base64_encode t @
      ''&datetime='') r" "CHR 0x5C \<notin> set t"
    using nas_login_eq [OF d, of request st] unfolding u by metis
  define s where "s = \<lparr>ls_challenge = c, ls_token = t, ls_request_body = body_of request,
         ls_profile_id = fst (profile_id_for_user user st)\<rparr>"
  define st' where "st' = after_login user s g st"
  have inv: "nas_inv st'"
    unfolding st'_def using assms(1,2) by (intro nas_inv_login) (simp_all add: s_def)
  then have v: "um_valid (login_sessions st')" by (simp add: nas_inv_def)
  have l: "um_find (login_sessions st') = (um_find (login_sessions st))(user \<mapsto> s)"
    using assms(1) by (simp add: st'_def after_login_def store_login_session_def nas_inv_def um.find_set)
  have p: "um_find (user_profile_ids st') user = Some (ls_profile_id s)"
    using inv l by (simp add: nas_inv_def logins_inv_def)
  have cr: "credentials_for_token lay t st' =
      \<lparr>lc_challenge = c, lc_token = t, lc_user_id = user, lc_profile_id = ls_profile_id s\<rparr>"
    if f: "\<forall>v s. um_find (login_sessions st) v = Some s \<longrightarrow> ls_token s = t \<longrightarrow> v = user"
  proof -
    have s: "ls_challenge s = c" "ls_token s = t" by (simp_all add: s_def)
    have "w = user" if "um_find (login_sessions st') w = Some x" "ls_token x = t" for w x
      using f that by (cases "w = user") (auto simp: l)
    moreover have "um_find (login_sessions st') user = Some s" by (simp add: l)
    ultimately show ?thesis using credentials_unique [OF v _ s(2)] s(1) by blast
  qed
  show ?thesis
  proof (intro exI conjI impI)
    show "nas_response_for_request now request st = Some (r, st')"
      using r(1) by (simp only: s_def st'_def)
    show "sublist (''&challenge='' @ nas_base64_encode c @ ''&token='' @ nas_base64_encode t @
      ''&datetime='') r" by (rule r(2))
    show "CHR 0x5C \<notin> set t" by (rule r(3))
    show "um_find (user_profile_ids st') user \<noteq> None" using p by simp
    assume "\<forall>v s. um_find (login_sessions st) v = Some s \<longrightarrow> ls_token s = t \<longrightarrow> v = user"
    then show "credentials_for_token lay t st' =
      \<lparr>lc_challenge = c, lc_token = t, lc_user_id = user,
       lc_profile_id = the (um_find (user_profile_ids st') user)\<rparr>"
      using cr p by simp
  qed
qed

text \<open>
  A login can be redeemed: the response carries a challenge and a token, and, unless another user
  holds the very same token, the profile server then finds under that token the challenge, the user
  and the user's profile id, whatever the order in which the login sessions are walked.
\<close>

theorem login_redeemable:
  assumes "nas_inv st" and "next_profile_id st \<noteq> - 1" and "now < 253402300800"
    and "\<not> is_account_create request" and "\<not> is_sake_post request" and "\<not> is_not_login request"
    and "request_user_id request = Some user"
  shows "\<exists>r st' challenge token. nas_response_for_request now request st = Some (r, st') \<and>
    sublist (''&challenge='' @ nas_base64_encode challenge @ ''&token='' @ nas_base64_encode token @
      ''&datetime='') r \<and>
    ((\<forall>v s. um_find (login_sessions st) v = Some s \<longrightarrow> ls_token s = token \<longrightarrow> v = user) \<longrightarrow>
       credentials_for_token lay token st' =
         \<lparr>lc_challenge = challenge, lc_token = token, lc_user_id = user,
          lc_profile_id = the (um_find (user_profile_ids st') user)\<rparr> \<and>
       um_find (user_profile_ids st') user \<noteq> None)"
  using login_redeemed [OF assms, of lay] by blast

lemma sample_user: "request_user_id sample_login = Some ''MTAx''"
  by (simp add: request_user_id_eq request_parameter_eq form_part_def field_after_def
      sample_login_def blank_line_def)

theorem login_redeemable_witness:
  "\<exists>r st' challenge token.
    nas_response_for_request 0 sample_login (nas_start sample_generator) = Some (r, st') \<and>
    credentials_for_token reverse_order token st' =
      \<lparr>lc_challenge = challenge, lc_token = token, lc_user_id = ''MTAx'',
       lc_profile_id = the (um_find (user_profile_ids st') ''MTAx'')\<rparr>"
proof -
  have "um_find (login_sessions (nas_start sample_generator)) v = None" for v
    by (simp add: nas_start_def um_find_def)
  then show ?thesis
    using login_redeemable [of "nas_start sample_generator" 0 sample_login "''MTAx''" reverse_order]
      nas_inv_start sample_requests sample_user
    by (simp add: nas_start_def) blast
qed

text \<open>
  The default credentials name a real profile: on a fresh server the first user to log in is given
  the profile id that the credentials of every unknown token carry as well.
\<close>

theorem unknown_token_gets_first_profile:
  assumes "now < 253402300800"
    and "\<not> is_account_create request" and "\<not> is_sake_post request" and "\<not> is_not_login request"
    and "request_user_id request = Some user"
  shows "\<exists>r st'. nas_response_for_request now request (nas_start g) = Some (r, st') \<and>
    um_find (user_profile_ids st') user = Some ''1'' \<and>
    (\<forall>lay token. (\<forall>v s. um_find (login_sessions st') v = Some s \<longrightarrow> ls_token s \<noteq> token) \<longrightarrow>
       lc_profile_id (credentials_for_token lay token st') = ''1'')"
proof -
  let ?st = "nas_start g"
  obtain d where d: "current_datetime now = Some d"
    using datetime_total assms(1) by blast
  have u: "form_field request ''userid'' = user"
    using assms(5) by (simp only: nas_readers option.inject)
  have "nas_response_for_request now request ?st = nas_login_response now request ?st"
    using assms(2,3,4) by (simp add: nas_response_for_request_def connectivity_or_login_def)
  then obtain r c t g' where r: "nas_response_for_request now request ?st = Some (r, after_login user
        \<lparr>ls_challenge = c, ls_token = t, ls_request_body = body_of request,
         ls_profile_id = fst (profile_id_for_user user ?st)\<rparr> g' ?st)"
    using nas_login_eq [OF d, of request ?st] unfolding u by metis
  define s where "s = \<lparr>ls_challenge = c, ls_token = t, ls_request_body = body_of request,
         ls_profile_id = fst (profile_id_for_user user ?st)\<rparr>"
  define st' where "st' = after_login user s g' ?st"
  have inv: "nas_inv st'"
    unfolding st'_def by (intro nas_inv_login nas_inv_start) (simp_all add: s_def nas_start_def)
  then have v: "um_valid (login_sessions st')" by (simp add: nas_inv_def)
  have one: "to_string64 1 = ''1''"
    by (simp add: to_string64_def dec_of_nat.simps digit_char_def)
  have "um_find (login_sessions st') user = Some s"
    using v by (simp add: st'_def after_login_def store_login_session_def nas_start_def
        um.find_set um.valid_empty)
  then have "um_find (user_profile_ids st') user = Some (ls_profile_id s)"
    using inv by (simp add: nas_inv_def logins_inv_def)
  moreover have "ls_profile_id s = ''1''"
    by (simp add: s_def profile_id_for_user_def nas_start_def um_find_def one Let_def)
  moreover have "lc_profile_id (credentials_for_token lay token st') = ''1''"
    if "\<forall>v s. um_find (login_sessions st') v = Some s \<longrightarrow> ls_token s \<noteq> token" for lay token
    using credentials_unknown [OF v] that by (simp add: default_credentials_def)
  ultimately show ?thesis
    using r unfolding s_def [symmetric] st'_def [symmetric] by auto
qed

theorem unknown_token_gets_first_profile_witness:
  "\<exists>r st'. nas_response_for_request 0 sample_login (nas_start sample_generator) = Some (r, st') \<and>
    um_find (user_profile_ids st') ''MTAx'' = Some ''1''"
  using unknown_token_gets_first_profile [of 0 sample_login "''MTAx''" sample_generator]
    sample_requests sample_user
  by simp blast

text \<open>The answer that lists some records.\<close>

definition records_answer :: "friend_info_record list \<Rightarrow> string" where
  "records_answer recs =
     sake_response (''<GetMyRecordsResponse xmlns='' @ quoted ''http://gamespy.net/sake'' @ ''>'' @
       ''<GetMyRecordsResult>Success</GetMyRecordsResult>'' @
       ''<values>'' @ concat (map record_xml recs) @ ''</values>'' @ ''</GetMyRecordsResponse>'')"

lemma print_records_eq:
  "print_records owner recs acc =
   acc @ concat (map record_xml (filter (\<lambda>rec. fr_owner rec = owner) recs))"
  by (induction owner recs acc rule: print_records.induct) simp_all

lemma sake_get_eq: "sake_get_my_records_response owner st = records_answer (records_of owner st)"
  unfolding sake_get_my_records_response_def records_answer_def records_of_def print_records_eq Let_def
  by (simp only: append_assoc)

text \<open>
  C24. A SAKE record that was created is listed, after the earlier ones and with the next record id, to
  a reader with the ticket it was created with, and to nobody else: another ticket's list is unchanged.
\<close>

theorem sake_create_then_get:
  assumes "\<not> is_account_create c" and "is_sake_post c" and "sake_action c = Some ''CreateRecord''"
    and "request_body c = Some body" and "xml_value body ''loginTicket'' = Some owner"
    and "xml_value body ''gameid'' = Some game" and "xml_value body ''tableid'' = Some table"
    and "xml_value body ''info'' = Some info"
    and "\<not> is_account_create q" and "is_sake_post q" and "sake_action q = Some ''GetMyRecords''"
    and "request_body q = Some qbody" and "xml_value qbody ''loginTicket'' = Some reader"
  shows "\<exists>r st'. nas_response_for_request now c st = Some (r, st') \<and>
    nas_response_for_request now' q st' = Some (records_answer (records_of reader st @
      (if reader = owner then
        [\<lparr>fr_record_id = next_friend_info_record_id st, fr_owner = owner, fr_game_id = game,
          fr_table_id = table, fr_info = info\<rparr>] else [])), st')"
proof -
  let ?rec = "\<lparr>fr_record_id = 0, fr_owner = owner, fr_game_id = game, fr_table_id = table, fr_info = info\<rparr>"
  let ?st' = "snd (store_friend_info ?rec st)"
  have "\<exists>r. sake_create_record_response c st = Some (r, ?st')"
    using assms(4-8) by (simp add: sake_create_record_response_def case_prod_beta Let_def)
  then have "\<exists>r. nas_response_for_request now c st = Some (r, ?st')"
    using assms(1-5) by (simp add: nas_response_for_request_def)
  moreover have "nas_response_for_request now' q ?st' = Some (records_answer (records_of reader ?st'), ?st')"
    using assms(9-13) by (simp add: nas_response_for_request_def sake_get_eq)
  ultimately show ?thesis
    by (auto simp: records_of_def store_friend_info_def Let_def)
qed

definition sake_sample :: "string \<Rightarrow> string \<Rightarrow> string" where
  "sake_sample action body =
     ''POST /SakeStorageServer/StorageServer.asmx HTTP/1.1'' @ crlf @ ''SOAPAction: '' @
     quoted (''http://gamespy.net/sake/'' @ action) @ blank_line @ body"

theorem sake_create_then_get_witness:
  "\<exists>r st'. nas_response_for_request 0
      (sake_sample ''CreateRecord'' ''<loginTicket>T</loginTicket><info>hi</info>'') (nas_start sample_generator)
      = Some (r, st') \<and>
    nas_response_for_request 0 (sake_sample ''GetMyRecords'' ''<loginTicket>T</loginTicket>'') st' =
      Some (records_answer [\<lparr>fr_record_id = 1, fr_owner = ''T'', fr_game_id = [], fr_table_id = [],
        fr_info = ''hi''\<rparr>], st')"
proof -
  let ?cb = "''<loginTicket>T</loginTicket><info>hi</info>''" and ?gb = "''<loginTicket>T</loginTicket>''"
  let ?c = "sake_sample ''CreateRecord'' ?cb" and ?g = "sake_sample ''GetMyRecords'' ?gb"
  have s: "\<not> is_account_create ?c" "is_sake_post ?c" "\<not> is_account_create ?g" "is_sake_post ?g"
    by (simp_all add: is_account_create_def is_sake_post_def sake_sample_def crlf_def blank_line_def
        quoted_def)
  have a: "sake_action ?c = Some ''CreateRecord''" "sake_action ?g = Some ''GetMyRecords''"
    by (simp_all add: sake_action_def sake_sample_def crlf_def blank_line_def quoted_def Let_def
        str_find_first_not_of_def str_find_first_of_def str_find_first_def str_substr_def
        str_rfind_char_def)
  have b: "request_body ?c = Some ?cb" "request_body ?g = Some ?gb"
    by (simp_all add: request_body_eq sake_sample_def crlf_def blank_line_def quoted_def)
  have x: "xml_value ?cb ''loginTicket'' = Some ''T''" "xml_value ?gb ''loginTicket'' = Some ''T''"
    "xml_value ?cb ''gameid'' = Some []" "xml_value ?cb ''tableid'' = Some []"
    "xml_value ?cb ''info'' = Some ''hi''"
    by (simp_all add: xml_value_eq xml_content_def)
  show ?thesis
    using sake_create_then_get [OF s(1,2) a(1) b(1) x(1,3,4,5) s(3,4) a(2) b(2) x(2),
        of 0 "nas_start sample_generator" 0]
    by (simp add: nas_start_def records_of_def)
qed

end
