(* ===== verification/Server_Nas.thy ===== *)
theory Server_Nas
  imports Nas_Laws
begin

section \<open>The NAS connection (\<^verbatim>\<open>src/server_nas.cpp\<close>)\<close>

text \<open>
  The loop reads until the headers and as much of a body as they announce have come, the buffer is
  over 8192 bytes, or the client stops; what has come by then is answered. A list of chunks is what
  \<^verbatim>\<open>recv\<close> delivers, at most 1024 bytes each. Sizes are \<^verbatim>\<open>std::size_t\<close>, 64 bits, and the sum of the
  announced size and the size of the headers wraps.
\<close>

text \<open>The announced size; whatever \<^verbatim>\<open>substr\<close> or \<^verbatim>\<open>stoul\<close> throws is caught and counts as none.\<close>

definition content_length :: "string \<Rightarrow> u64" where
  "content_length request_text =
     (case str_find request_text ''Content-Length:'' 0 of
        None \<Rightarrow> 0
      | Some length_start \<Rightarrow>
          let value_start = length_start + 15;
              value_end = str_find request_text crlf value_start
          in case str_substr request_text value_start (count_to value_end value_start) of
               None \<Rightarrow> 0
             | Some v \<Rightarrow> (case stoul v of Inl e \<Rightarrow> 0 | Inr n \<Rightarrow> n))"

definition request_complete :: "string \<Rightarrow> bool" where
  "request_complete request_text =
     (case str_find request_text blank_line 0 of
        None \<Rightarrow> False
      | Some header_end \<Rightarrow>
          word_of_nat (header_end + 4) + content_length request_text \<le>
            (word_of_nat (length request_text) :: u64))"

fun nas_receive :: "string list \<Rightarrow> string \<Rightarrow> string" where
  "nas_receive [] request_text = request_text"
| "nas_receive (request_chunk # chunks) request_text =
     (if request_complete request_text then request_text
      else if request_chunk = [] then request_text
      else
        let request_text' = request_text @ request_chunk
        in if 8192 < length request_text' then request_text' else nas_receive chunks request_text')"

definition handle_nas_connection ::
  "nat \<Rightarrow> int \<Rightarrow> string list \<Rightarrow> nas_state \<Rightarrow> (string list \<times> nas_state) option" where
  "handle_nas_connection now fd chunks st =
     (if fd < 0 then Some ([], st)
      else do {
        (response, st') \<leftarrow> nas_response_for_request now (nas_receive chunks []) st;
        Some ([response], st')
      })"

subsection \<open>What is received\<close>

lemma nas_receive_prefix: "\<exists>rest. received @ concat chunks = nas_receive chunks received @ rest"
proof (induction chunks arbitrary: received)
  case Nil
  then show ?case by simp
next
  case (Cons c chunks)
  show ?case using Cons [of "received @ c"] by (auto simp: Let_def)
qed

lemma nas_receive_bound:
  "\<forall>c \<in> set chunks. length c \<le> 1024 \<Longrightarrow> length received \<le> 8192 \<Longrightarrow>
   length (nas_receive chunks received) \<le> 9216"
  by (induction chunks arbitrary: received) (auto simp: Let_def)

text \<open>A request whose announced size is the size of its body, cut anywhere, is received whole.\<close>

lemma nas_receive_whole:
  assumes "\<And>k. k < length request \<Longrightarrow> \<not> request_complete (take k request)"
    and "length request \<le> 8192"
  shows "[] \<notin> set chunks \<Longrightarrow> received @ concat chunks = request \<Longrightarrow> nas_receive chunks received = request"
proof (induction chunks arbitrary: received)
  case Nil
  then show ?case by simp
next
  case (Cons c chunks)
  then have r: "request = received @ c @ concat chunks" and c: "c \<noteq> []" by auto
  then have "\<not> request_complete received" using assms(1) [of "length received"] by simp
  moreover have "length (received @ c) \<le> 8192" using assms(2) r by simp
  ultimately show ?case using Cons.IH [of "received @ c"] Cons.prems c r by simp
qed

definition nas_http_request :: "string \<Rightarrow> string \<Rightarrow> string \<Rightarrow> string" where
  "nas_http_request before others body =
     before @ ''Content-Length: '' @ dec_of_nat (length body) @ others @ blank_line @ body"

text \<open>A request whose only blank line ends its headers and whose first length field is the right one.\<close>

definition well_framed :: "string \<Rightarrow> string \<Rightarrow> string \<Rightarrow> bool" where
  "well_framed before others body \<longleftrightarrow>
     (let head = before @ ''Content-Length: '' @ dec_of_nat (length body) @ others in
      find_sub ''Content-Length:'' (before @ ''Content-Length:'') = Some (length before) \<and>
      find_sub blank_line (head @ blank_line) = Some (length head) \<and>
      (others = [] \<or> prefix crlf others))"

lemma no_cr_digits: "c \<in> set (dec_of_nat n) \<Longrightarrow> c \<noteq> CHR 0x0D"
  using cr_notin_dec by metis

lemma crlf_after_digits:
  assumes "prefix crlf rest"
  shows "find_sub crlf (CHR '' '' # dec_of_nat n @ rest) = Some (Suc (length (dec_of_nat n)))"
proof -
  have "find_sub crlf ((CHR '' '' # dec_of_nat n) @ rest) =
      map_option (\<lambda>i. length (CHR '' '' # dec_of_nat n) + i) (find_sub crlf rest)"
    by (rule find_sub_skip) (use cr_notin_dec in \<open>simp_all add: crlf_def\<close>)
  moreover have "find_sub crlf rest = Some 0" using assms by (simp add: find_sub_0_iff)
  ultimately show ?thesis by simp
qed

lemma stoul_blank_dec: "n < 2 ^ 64 \<Longrightarrow> stoul (CHR '' '' # dec_of_nat n) = Inr (word_of_nat n)"
  using stoul_dec_of_nat [of n "[]"] by (simp add: stoul_def is_space_def)

lemma content_length_field:
  assumes "find_sub ''Content-Length:'' (before @ ''Content-Length:'') = Some (length before)"
    and "prefix crlf rest" and "n < 2 ^ 64"
  shows "content_length (before @ ''Content-Length: '' @ dec_of_nat n @ rest) = word_of_nat n"
proof -
  let ?t = "before @ ''Content-Length: '' @ dec_of_nat n @ rest"
  have f: "find_sub ''Content-Length:'' ?t = Some (length before)"
    using find_sub_append [OF assms(1), of "CHR '' '' # dec_of_nat n @ rest"] by simp
  have d: "drop (length before + 15) ?t = CHR '' '' # dec_of_nat n @ rest" by simp
  then have e: "str_find ?t crlf (length before + 15) = Some (length before + 15 + Suc (length (dec_of_nat n)))"
    using crlf_after_digits [OF assms(2), of n] unfolding str_find_def by simp
  have "str_substr ?t (length before + 15)
      (count_to (str_find ?t crlf (length before + 15)) (length before + 15)) =
      Some (CHR '' '' # dec_of_nat n)"
    unfolding e using d by (simp add: str_substr_def)
  with f show ?thesis
    using stoul_blank_dec [OF assms(3)] by (simp add: content_length_def Let_def)
qed

lemma well_framed_incomplete:
  assumes "well_framed before others body" and "length (nas_http_request before others body) \<le> 8192"
    and "k < length (nas_http_request before others body)"
  shows "\<not> request_complete (take k (nas_http_request before others body))"
proof -
  let ?head = "before @ ''Content-Length: '' @ dec_of_nat (length body) @ others"
  let ?r = "nas_http_request before others body"
  have lt: "(word_of_nat a :: u64) < word_of_nat b" if "a < b" "b \<le> 8192" for a b
    using that by (simp add: word_less_nat_alt unat_of_nat)
  have r: "?r = ?head @ blank_line @ body" by (simp add: nas_http_request_def)
  have h: "find_sub blank_line (?head @ blank_line) = Some (length ?head)"
    using assms(1) by (simp add: well_framed_def Let_def)
  have b4: "length blank_line = 4" by (simp add: blank_line_def)
  show ?thesis
  proof (cases "k < length ?head + 4")
    case True
    have "find_sub blank_line (take k ?r) = None"
    proof (rule ccontr)
      assume "find_sub blank_line (take k ?r) \<noteq> None"
      then obtain i where i: "find_sub blank_line (take k ?r) = Some i" by blast
      then have "find_sub blank_line ?r = Some i"
        using find_sub_append [OF i, of "drop k ?r"] by (simp only: append_take_drop_id)
      moreover have "find_sub blank_line ?r = Some (length ?head)"
        using find_sub_append [OF h, of body] by (simp add: r)
      ultimately show False using find_sub_bound [OF i] True b4 by simp
    qed
    then show ?thesis by (simp add: request_complete_def)
  next
    case False
    define j where "j = k - (length ?head + 4)"
    have k: "k = length ?head + 4 + j" using False by (simp add: j_def)
    have j: "j < length body" using assms(3) k b4 by (simp add: r)
    have t: "take k ?r = ?head @ blank_line @ take j body" unfolding r k using b4
      by (simp only: take_append) simp
    have small: "length ?head + 4 + length body \<le> 8192" using assms(2) b4 by (simp add: r)
    have "find_sub blank_line (take k ?r) = Some (length ?head)"
      using find_sub_append [OF h, of "take j body"] by (simp add: t)
    moreover have "content_length (take k ?r) = word_of_nat (length body)"
      using assms(1) small content_length_field [of before "others @ blank_line @ take j body" "length body"]
      unfolding t well_framed_def Let_def
      by (auto simp: blank_line_def crlf_def prefix_def)
    moreover have "(word_of_nat (length ?head + 4 + length body) :: u64) > word_of_nat (length ?head + 4 + j)"
      using lt [of "length ?head + 4 + j" "length ?head + 4 + length body"] j small
      by (simp only: add_less_cancel_left)
    moreover have "length (take k ?r) = length ?head + 4 + j" using j b4 unfolding t by simp
    ultimately show ?thesis by (simp add: request_complete_def not_le)
  qed
qed

subsection \<open>Properties\<close>

text \<open>
  C22. Every NAS connection ends with exactly one complete HTTP response, to a prefix of at most 9216
  bytes of what the client sent, whatever it sends and however it is cut.
\<close>

theorem nas_connection_answers:
  assumes "0 \<le> fd" and "now < 253402300800" and "\<forall>c \<in> set chunks. length c \<le> 1024"
  shows "\<exists>request rest response st'. handle_nas_connection now fd chunks st = Some ([response], st') \<and>
    concat chunks = request @ rest \<and> length request \<le> 9216 \<and>
    nas_response_for_request now request st = Some (response, st') \<and> http_complete response"
proof -
  obtain rest where "concat chunks = nas_receive chunks [] @ rest"
    using nas_receive_prefix [of "[]" chunks] by auto
  moreover obtain response st' where
    "nas_response_for_request now (nas_receive chunks []) st = Some (response, st')" "http_complete response"
    using nas_response_step [of now "nas_receive chunks []" st] assms(2)
    by (auto simp: before_year_10000_def)
  ultimately show ?thesis
    using assms nas_receive_bound [OF assms(3), of "[]"] by (auto simp: handle_nas_connection_def)
qed

theorem nas_connection_answers_witness:
  "\<exists>response st'. handle_nas_connection 1700000000 4 [''GET '', ''/ HTTP/1.1''] (nas_start \<lparr>draws = (\<lambda>_. 7), drawn = 0\<rparr>) =
     Some ([response], st') \<and> http_complete response"
  using nas_connection_answers [of 4 1700000000 "[''GET '', ''/ HTTP/1.1'']"
      "nas_start \<lparr>draws = (\<lambda>_. 7), drawn = 0\<rparr>"] by auto

text \<open>
  C21. How a request was cut does not matter: a request of at most 8192 bytes with one blank line, whose
  Content-Length field is the size of its body, reaches the NAS server whole and is answered as such.
\<close>

theorem nas_request_reassembled:
  assumes "well_framed before others body" and "length (nas_http_request before others body) \<le> 8192"
    and "concat chunks = nas_http_request before others body" and "[] \<notin> set chunks" and "0 \<le> fd"
  shows "handle_nas_connection now fd chunks st =
    map_option (\<lambda>(response, st'). ([response], st'))
      (nas_response_for_request now (nas_http_request before others body) st)"
proof -
  have "nas_receive chunks [] = nas_http_request before others body"
    using nas_receive_whole [OF well_framed_incomplete [OF assms(1,2)] assms(2) assms(4), of "[]"] assms(3)
    by simp
  with assms(5) show ?thesis
    by (cases "nas_response_for_request now (nas_http_request before others body) st")
      (auto simp: handle_nas_connection_def)
qed

theorem nas_request_reassembled_witness:
  "handle_nas_connection 1700000000 4
     [''POST / HTTP/1.1'' @ crlf @ ''Content-'', ''Length: 5'' @ blank_line @ ''a'', ''=b&c''] (nas_start \<lparr>draws = (\<lambda>_. 7), drawn = 0\<rparr>) =
   map_option (\<lambda>(response, st'). ([response], st')) (nas_response_for_request 1700000000
     (''POST / HTTP/1.1'' @ crlf @ ''Content-Length: 5'' @ blank_line @ ''a=b&c'')
     (nas_start \<lparr>draws = (\<lambda>_. 7), drawn = 0\<rparr>))"
proof -
  have "well_framed (''POST / HTTP/1.1'' @ crlf) [] ''a=b&c''" by code_simp
  moreover have "nas_http_request (''POST / HTTP/1.1'' @ crlf) [] ''a=b&c'' =
      ''POST / HTTP/1.1'' @ crlf @ ''Content-Length: 5'' @ blank_line @ ''a=b&c''" by code_simp
  ultimately show ?thesis
    using nas_request_reassembled [of "''POST / HTTP/1.1'' @ crlf" "[]" "''a=b&c''"
        "[''POST / HTTP/1.1'' @ crlf @ ''Content-'', ''Length: 5'' @ blank_line @ ''a'', ''=b&c'']"
        4 1700000000 "nas_start \<lparr>draws = (\<lambda>_. 7), drawn = 0\<rparr>"]
    by (simp add: blank_line_def crlf_def)
qed

text \<open>
  An announced size near 2^64 (or negative, which reads as such) overflows the sum with the size of
  the headers: the request counts as complete with its headers alone, and its body is not waited for.
\<close>

theorem nas_content_length_wraps:
  assumes "find_sub blank_line headers = Some header_end" and "length headers \<le> 8192"
    and "- content_length headers \<le> word_of_nat (header_end + 4)"
    and "[] \<notin> set (headers # more_chunks)"
  shows "nas_receive (headers # more_chunks) [] = headers"
proof -
  have b: "header_end + 4 \<le> length headers"
    using find_sub_bound [OF assms(1)] by (simp add: blank_line_def)
  have "word_of_nat (header_end + 4) + content_length headers \<le> (word_of_nat (header_end + 4) :: u64)"
    using word_sub_le [OF assms(3)] by simp
  also have "\<dots> \<le> word_of_nat (length headers)"
    using b assms(2) by (simp only: word_le_nat_alt unat_of_nat) simp
  finally have "request_complete headers" using assms(1) by (simp add: request_complete_def)
  moreover have "\<not> request_complete []" by (simp add: request_complete_def blank_line_def)
  ultimately show ?thesis using assms(2,4) by (cases more_chunks) auto
qed

theorem nas_content_length_wraps_witness:
  "nas_receive [''POST / HTTP/1.1'' @ crlf @ ''Content-Length: -1'' @ blank_line, ''a=b''] [] =
   ''POST / HTTP/1.1'' @ crlf @ ''Content-Length: -1'' @ blank_line"
proof -
  have "find_sub blank_line (''POST / HTTP/1.1'' @ crlf @ ''Content-Length: -1'' @ blank_line) = Some 35"
    by code_simp
  moreover have "content_length (''POST / HTTP/1.1'' @ crlf @ ''Content-Length: -1'' @ blank_line) = - 1"
  proof -
    let ?t = "''POST / HTTP/1.1'' @ crlf @ ''Content-Length: -1'' @ blank_line"
    have "find_sub ''Content-Length:'' ?t = Some 17" "str_find ?t crlf 32 = Some 35"
      "str_substr ?t 32 (Some 3) = Some '' -1''" by code_simp+
    moreover have "stoul '' -1'' = Inr (- 1)"
      by (simp add: stoul_def is_space_def is_digit_def digit_value_def)
    ultimately show ?thesis by (simp add: content_length_def Let_def)
  qed
  ultimately show ?thesis
    using nas_content_length_wraps [of "''POST / HTTP/1.1'' @ crlf @ ''Content-Length: -1'' @ blank_line"
        35 "[''a=b'']"]
    by (simp add: blank_line_def crlf_def)
qed

end
