(* ===== verification/Nas_Threads.thy ===== *)
theory Nas_Threads
  imports Nas_Laws Server_Nas Message_Stream Machine
begin

section \<open>NAS requests in their critical sections (\<^verbatim>\<open>src/nas_http.cpp\<close>, \<^verbatim>\<open>src/server_nas.cpp\<close>)\<close>

text \<open>
  A NAS request is not one step of its thread: an account creation holds the account mutex twice, a
  login holds it and then the mutex of the login sessions, and other threads may come in between. Here
  a thread that serves a request goes through the sections one by one, and any number of threads
  interleave. A thread alone gives the answers of \<open>nas_response_for_request\<close>; the invariants hold for
  every interleaving. The two draws of a login come with its second section.
\<close>

subsection \<open>The sections\<close>

datatype nas_worker =
    Nas_Received string
  | Nas_Numbered string
  | Nas_Identified string string string
  | Nas_Answered string

definition plain_response :: "string \<Rightarrow> string" where
  "plain_response response_body =
     ''HTTP/1.1 200 OK'' @ crlf @
     ''Content-Type: text/plain'' @ crlf @
     ''Content-Length: '' @ dec_of_nat (length response_body) @
     crlf @ ''NODE: wifiappe1'' @ crlf @ ''Connection: close'' @ crlf @ crlf @
     response_body"

definition login_text :: "login_session \<Rightarrow> string \<Rightarrow> string" where
  "login_text session datetime =
     ''retry='' @ nas_base64_encode ''0'' @ ''&returncd='' @ nas_base64_encode ''001'' @
     ''&locator='' @ nas_base64_encode ''gamespy.com'' @
     ''&challenge='' @ nas_base64_encode (ls_challenge session) @
     ''&token='' @ nas_base64_encode (ls_token session) @
     ''&datetime='' @ nas_base64_encode datetime @ crlf"

text \<open>An account creation: the number of the account, then the profile id and the answer.\<close>

definition create_section :: "string \<Rightarrow> nas_state \<Rightarrow> (nas_worker \<times> nas_state) option" where
  "create_section request st = do {
     mac_address \<leftarrow> request_parameter request ''macadr'';
     console_number \<leftarrow> request_parameter request ''csnum'';
     let (user_id, st') = user_id_for_account (mac_address @ ''|'' @ console_number) st;
     Some (Nas_Numbered user_id, st')
   }"

definition created_section :: "nat \<Rightarrow> string \<Rightarrow> nas_state \<Rightarrow> (nas_worker \<times> nas_state) option" where
  "created_section now user_id st = do {
     let (profile_id, st') = profile_id_for_user user_id st;
     datetime \<leftarrow> current_datetime now;
     Some (Nas_Answered (plain_response (create_text user_id datetime)), st')
   }"

text \<open>A login: the profile id, then the session and the answer.\<close>

definition identify_section :: "string \<Rightarrow> nas_state \<Rightarrow> (nas_worker \<times> nas_state) option" where
  "identify_section request st =
     (if is_not_login request then Some (Nas_Answered nas_connectivity_response, st)
      else do {
        user_id \<leftarrow> request_user_id request;
        let (profile_id, st') = profile_id_for_user user_id st;
        Some (Nas_Identified request user_id profile_id, st')
      })"

definition session_section ::
  "nat \<Rightarrow> string \<Rightarrow> string \<Rightarrow> string \<Rightarrow> nas_state \<Rightarrow> (nas_worker \<times> nas_state) option" where
  "session_section now request user_id profile_id st = do {
     let (challenge, st1) = nas_random_text 8 st;
     let (token_text, st2) = nas_random_text 80 st1;
     body \<leftarrow> request_body request;
     let session = \<lparr>ls_challenge = challenge, ls_token = ''NDS'' @ token_text,
       ls_request_body = body, ls_profile_id = profile_id\<rparr>;
     let st3 = store_login_session user_id session st2;
     datetime \<leftarrow> current_datetime now;
     Some (Nas_Answered (plain_response (login_text session datetime)), st3)
   }"

definition nas_section :: "nat \<Rightarrow> nas_worker \<Rightarrow> nas_state \<Rightarrow> (nas_worker \<times> nas_state) option" where
  "nas_section now wk st =
     (case wk of
        Nas_Received request \<Rightarrow>
          if is_account_create request then create_section request st
          else if is_sake_post request
          then do {
            action \<leftarrow> sake_action request;
            body \<leftarrow> request_body request;
            owner \<leftarrow> xml_value body ''loginTicket'';
            (if action = ''GetMyRecords''
             then Some (Nas_Answered (sake_get_my_records_response owner st), st)
             else if action = ''CreateRecord''
             then do { (response, st') \<leftarrow> sake_create_record_response request st;
                       Some (Nas_Answered response, st') }
             else identify_section request st)
          }
          else identify_section request st
      | Nas_Numbered user_id \<Rightarrow> created_section now user_id st
      | Nas_Identified request user_id profile_id \<Rightarrow>
          session_section now request user_id profile_id st
      | Nas_Answered response \<Rightarrow> Some (wk, st))"

text \<open>A thread alone: at most two sections to the answer.\<close>

fun sections_left :: "nas_worker \<Rightarrow> nat" where
  "sections_left (Nas_Received request) = 2"
| "sections_left (Nas_Answered response) = 0"
| "sections_left wk = 1"

lemma section_progress:
  "nas_section now wk st = Some (wk', st') \<Longrightarrow> sections_left wk \<noteq> 0 \<Longrightarrow> sections_left wk' < sections_left wk"
  by (auto simp: nas_section_def create_section_def created_section_def identify_section_def
      session_section_def Let_def split: nas_worker.splits bind_splits if_splits prod.splits)

function nas_alone :: "nat \<Rightarrow> nas_worker \<Rightarrow> nas_state \<Rightarrow> (string \<times> nas_state) option" where
  "nas_alone now wk st =
     (case wk of
        Nas_Answered response \<Rightarrow> Some (response, st)
      | _ \<Rightarrow> (case nas_section now wk st of
          None \<Rightarrow> None
        | Some (wk', st') \<Rightarrow> nas_alone now wk' st'))"
  by pat_completeness auto
termination
  by (relation "measure (\<lambda>(now, wk, st). sections_left wk)") (auto dest: section_progress)

declare nas_alone.simps [simp del]

lemma nas_alone_cases [simp]:
  "nas_alone now (Nas_Answered response) st = Some (response, st)"
  "nas_alone now (Nas_Received request) st =
     (case nas_section now (Nas_Received request) st of
        None \<Rightarrow> None | Some (wk, st') \<Rightarrow> nas_alone now wk st')"
  "nas_alone now (Nas_Numbered user_id) st =
     (case created_section now user_id st of
        None \<Rightarrow> None | Some (wk, st') \<Rightarrow> nas_alone now wk st')"
  "nas_alone now (Nas_Identified request user_id profile_id) st =
     (case session_section now request user_id profile_id st of
        None \<Rightarrow> None | Some (wk, st') \<Rightarrow> nas_alone now wk st')"
  by (subst nas_alone.simps, simp add: nas_section_def)+

lemma alone_identify:
  "(case identify_section request st of None \<Rightarrow> None | Some (wk, st') \<Rightarrow> nas_alone now wk st') =
   connectivity_or_login now request st"
  by (cases "current_datetime now")
    (simp_all add: identify_section_def session_section_def connectivity_or_login_def
      nas_login_response_def plain_response_def login_text_def nas_readers Let_def case_prod_beta)

lemma alone_create:
  "(case create_section request st of None \<Rightarrow> None | Some (wk, st') \<Rightarrow> nas_alone now wk st') =
   nas_account_create_response now request st"
  by (cases "current_datetime now")
    (simp_all add: create_section_def created_section_def nas_account_create_response_def
      plain_response_def create_text_def nas_readers Let_def case_prod_beta)


subsection \<open>What a section does\<close>

text \<open>
  The tables change in one of four ways; a login session is stored for the user whose profile id the
  thread looked up before.
\<close>

definition section_effect :: "nas_worker \<Rightarrow> nas_state \<Rightarrow> nas_worker \<Rightarrow> nas_state \<Rightarrow> bool" where
  "section_effect wk st wk' st' \<longleftrightarrow>
     st' = st \<or>
     (\<exists>k. st' = snd (user_id_for_account k st)) \<or>
     (\<exists>u. st' = snd (profile_id_for_user u st)) \<or>
     (\<exists>rec. st' = snd (store_friend_info rec st)) \<or>
     (\<exists>request u session g. wk = Nas_Identified request u (ls_profile_id session) \<and>
        st' = store_login_session u session (st\<lparr>text_generator := g\<rparr>))"

definition worker_ok :: "nas_state \<Rightarrow> nas_worker \<Rightarrow> bool" where
  "worker_ok st wk \<longleftrightarrow>
     (\<forall>request user_id profile_id. wk = Nas_Identified request user_id profile_id \<longrightarrow>
        um_find (user_profile_ids st) user_id = Some profile_id)"

definition answer_ok :: "nas_worker \<Rightarrow> bool" where
  "answer_ok wk \<longleftrightarrow> (\<forall>response. wk = Nas_Answered response \<longrightarrow> http_complete response)"

lemma plain_complete: "http_complete (plain_response body)"
  unfolding plain_response_def by (rule http_complete_plain)

lemma worker_ok_simps [simp]:
  "worker_ok st (Nas_Received request)" "worker_ok st (Nas_Numbered user_id)"
  "worker_ok st (Nas_Answered response)"
  "worker_ok st (Nas_Identified request user_id profile_id) \<longleftrightarrow>
     um_find (user_profile_ids st) user_id = Some profile_id"
  by (simp_all add: worker_ok_def)

lemma answer_ok_simps [simp]:
  "answer_ok (Nas_Received request)" "answer_ok (Nas_Numbered user_id)"
  "answer_ok (Nas_Identified request user_id profile_id)"
  "answer_ok (Nas_Answered response) \<longleftrightarrow> http_complete response"
  by (simp_all add: answer_ok_def)

lemma identify_section_steps:
  assumes "nas_wf st"
  shows "\<exists>wk' st'. identify_section request st = Some (wk', st') \<and>
    section_effect wk st wk' st' \<and> worker_ok st' wk' \<and> answer_ok wk'"
proof -
  have "um_valid (user_profile_ids st)" using assms by (simp add: nas_wf_def)
  then show ?thesis
    using http_complete_connectivity
    by (auto simp: identify_section_def nas_readers case_prod_beta section_effect_def
        profile_ids.alloc_result)
qed

lemma nas_section_steps:
  assumes "before_year_10000 now" and "nas_wf st" and "answer_ok wk"
  shows "\<exists>wk' st'. nas_section now wk st = Some (wk', st') \<and>
    section_effect wk st wk' st' \<and> worker_ok st' wk' \<and> answer_ok wk'"
proof -
  obtain d where d: "current_datetime now = Some d"
    using datetime_total assms(1) by (auto simp: before_year_10000_def)
  show ?thesis
  proof (cases wk)
    case (Nas_Received request)
    obtain a where a: "sake_action request = Some a" using sake_action_total by blast
    obtain wk1 st1 where i: "identify_section request st = Some (wk1, st1)"
      "section_effect wk st wk1 st1" "worker_ok st1 wk1" "answer_ok wk1"
      using identify_section_steps [OF assms(2)] by blast
    have c: "create_section request st = Some (Nas_Numbered (fst (user_id_for_account
        (form_field request ''macadr'' @ ''|'' @ form_field request ''csnum'') st)),
        snd (user_id_for_account (form_field request ''macadr'' @ ''|'' @ form_field request ''csnum'') st))"
      by (simp add: create_section_def nas_readers case_prod_beta)
    obtain r rec where s: "sake_create_record_response request st = Some (r, snd (store_friend_info rec st))"
      "http_complete r"
      using http_complete_sake by (auto simp: sake_create_eq case_prod_beta)
    have g: "http_complete (sake_get_my_records_response owner st)" for owner
      using http_complete_sake by (simp add: sake_get_my_records_response_def Let_def)
    show ?thesis
    proof (cases "is_account_create request")
      case True
      with c show ?thesis by (auto simp: nas_section_def Nas_Received section_effect_def)
    next
      case False
      then have "nas_section now wk st =
          (if is_sake_post request \<and> a = ''GetMyRecords''
           then Some (Nas_Answered (sake_get_my_records_response
             (xml_content (body_of request) ''loginTicket'') st), st)
           else if is_sake_post request \<and> a = ''CreateRecord''
           then Some (Nas_Answered r, snd (store_friend_info rec st))
           else Some (wk1, st1))"
        using a i(1) s(1) by (simp add: nas_section_def Nas_Received nas_readers)
      moreover have "section_effect wk st w st" "section_effect wk st w (snd (store_friend_info rec st))" for w
        by (auto simp: section_effect_def)
      ultimately show ?thesis
        using i s(2) g by (cases "is_sake_post request \<and> a = ''GetMyRecords''";
            cases "is_sake_post request \<and> a = ''CreateRecord''") simp_all
    qed
  next
    case (Nas_Numbered user_id)
    then show ?thesis
      using d plain_complete
      by (auto simp: nas_section_def created_section_def case_prod_beta section_effect_def)
  next
    case (Nas_Identified request user_id profile_id)
    define c where "c = random_chars 8 alnum_alphabet (text_generator st)"
    define t where "t = random_chars 80 alnum_alphabet (snd c)"
    define session where "session = \<lparr>ls_challenge = fst c, ls_token = ''NDS'' @ fst t,
      ls_request_body = body_of request, ls_profile_id = profile_id\<rparr>"
    have "nas_section now wk st = Some (Nas_Answered (plain_response (login_text session d)),
        store_login_session user_id session (st\<lparr>text_generator := snd t\<rparr>))"
      using d by (simp add: Nas_Identified nas_section_def session_section_def nas_random_text_def
          nas_readers case_prod_beta Let_def c_def t_def session_def)
    moreover have "profile_id = ls_profile_id session" by (simp add: session_def)
    ultimately show ?thesis
      using plain_complete Nas_Identified by (auto simp: section_effect_def)
  next
    case (Nas_Answered response)
    with assms(3) show ?thesis by (simp add: nas_section_def section_effect_def)
  qed
qed

subsection \<open>Invariants of any interleaving\<close>

lemma nas_inv_store:
  assumes "nas_inv st" and "um_find (user_profile_ids st) u = Some (ls_profile_id session)"
  shows "nas_inv (store_login_session u session (st\<lparr>text_generator := g\<rparr>))"
  using assms
  by (auto simp: nas_inv_def store_login_session_def logins_inv_def records_inv_def um.valid_set um.find_set)

lemma nas_wf_store:
  assumes "nas_wf st" and "um_find (user_profile_ids st) u = Some (ls_profile_id session)"
  shows "nas_wf (store_login_session u session (st\<lparr>text_generator := g\<rparr>))"
  using assms
  by (auto simp: nas_wf_def store_login_session_def logins_inv_def um.valid_set um.find_set)

lemma section_wf:
  assumes "section_effect wk st wk' st'" and "nas_wf st" and "worker_ok st wk"
  shows "nas_wf st' \<and> keeps_ids st st'"
proof -
  have v: "um_valid (account_user_ids st)" "um_valid (user_profile_ids st)"
    using assms(2) by (simp_all add: nas_wf_def)
  have f: "nas_wf (snd (store_friend_info rec st))" "keeps_ids st (snd (store_friend_info rec st))" for rec
    using assms(2) by (simp_all add: nas_wf_def logins_inv_def keeps_ids_def store_friend_info_def Let_def)
  have s: "nas_wf (store_login_session u session (st\<lparr>text_generator := g\<rparr>))"
    "keeps_ids st (store_login_session u session (st\<lparr>text_generator := g\<rparr>))"
    if "wk = Nas_Identified request u (ls_profile_id session)" for request u session g
    using nas_wf_store [OF assms(2)] assms(3) that by (auto simp: keeps_ids_def store_login_session_def)
  show ?thesis
    using assms(1) unfolding section_effect_def
    by (elim disjE exE conjE)
      (use assms(2) f s keeps_ids_refl keeps_ids_user [OF v(1)] keeps_ids_profile [OF v(2)]
        nas_wf_user nas_wf_profile in simp_all)
qed

lemma section_inv:
  assumes "section_effect wk st wk' st'" and "nas_inv st" and "room (Suc n) st" and "worker_ok st wk"
  shows "nas_inv st' \<and> room n st'"
proof -
  have m: "next_profile_id st \<noteq> - 1" "next_user_id st \<noteq> - 1" "next_friend_info_record_id st \<noteq> - 1"
    using assms(3) room_not_max by (auto simp: room_def simp del: word_eq_numeral_iff_iszero)
  have r: "room n st" using assms(3) by (simp add: room_def)
  have "room n (snd (user_id_for_account k st))" for k
    using assms(3) user_ids.alloc_counter [of k st] by (intro room_step [of n st]) auto
  moreover have "room n (snd (profile_id_for_user u st))" for u
    using assms(3) profile_ids.alloc_counter [of u st] by (intro room_step [of n st]) auto
  moreover have "room n (snd (store_friend_info rec st))" for rec
    using assms(3) by (intro room_step [of n st]) (simp_all add: store_friend_info_def Let_def)
  moreover have "room n (store_login_session u session (st\<lparr>text_generator := g\<rparr>))" for u session g
    using r by (simp add: room_def store_login_session_def)
  ultimately show ?thesis
    using assms(1) unfolding section_effect_def
    by (elim disjE exE conjE)
      (use assms(2,4) r nas_inv_user [OF assms(2) m(2)] nas_inv_profile [OF assms(2) m(1)]
        nas_inv_record [OF assms(2) m(3)] nas_inv_store [OF assms(2)] in simp_all)
qed

lemma worker_ok_keeps: "worker_ok st wk \<Longrightarrow> keeps_ids st st' \<Longrightarrow> worker_ok st' wk"
  by (auto simp: worker_ok_def keeps_ids_def)

subsection \<open>The threads of the NAS server\<close>

text \<open>
  Each thread is known by its socket. A request is there once its connection has received it; a section
  that gives the answer sends it and ends the thread. An event of a thread that is not there does
  nothing.
\<close>

record nas_pool =
  pool_state :: nas_state
  pool_workers :: "int \<Rightarrow> nas_worker option"

datatype nas_event = Nas_Accept int "string list" | Nas_Section int nat

fun nas_serve :: "nas_event \<Rightarrow> nas_pool \<Rightarrow> (string list \<times> nas_pool) option" where
  "nas_serve (Nas_Accept fd chunks) p =
     Some ([], if fd < 0 \<or> pool_workers p fd \<noteq> None then p
       else p\<lparr>pool_workers := (pool_workers p)(fd \<mapsto> Nas_Received (nas_receive chunks []))\<rparr>)"
| "nas_serve (Nas_Section fd now) p =
     (case pool_workers p fd of
        None \<Rightarrow> Some ([], p)
      | Some wk \<Rightarrow> do {
          (wk', st') \<leftarrow> nas_section now wk (pool_state p);
          Some (case wk' of
            Nas_Answered response \<Rightarrow>
              ([response], p\<lparr>pool_state := st', pool_workers := (pool_workers p)(fd := None)\<rparr>)
          | _ \<Rightarrow> ([], p\<lparr>pool_state := st', pool_workers := (pool_workers p)(fd \<mapsto> wk')\<rparr>))
        })"

definition nas_pool_start :: "rng \<Rightarrow> nas_pool" where
  "nas_pool_start g = \<lparr>pool_state = nas_start g, pool_workers = Map.empty\<rparr>"

fun nas_possible :: "nas_event \<Rightarrow> bool" where
  "nas_possible (Nas_Accept fd chunks) \<longleftrightarrow> True"
| "nas_possible (Nas_Section fd now) \<longleftrightarrow> before_year_10000 now"

definition workers_ok :: "nas_pool \<Rightarrow> bool" where
  "workers_ok p \<longleftrightarrow>
     (\<forall>fd wk. pool_workers p fd = Some wk \<longrightarrow> worker_ok (pool_state p) wk \<and> answer_ok wk)"

definition pool_inv :: "nas_pool \<Rightarrow> bool" where
  "pool_inv p \<longleftrightarrow> nas_wf (pool_state p) \<and> workers_ok p"

lemma workers_okI:
  assumes "workers_ok p" and "keeps_ids (pool_state p) st"
    and "\<And>x. wk = Some x \<Longrightarrow> worker_ok st x \<and> answer_ok x"
  shows "workers_ok (p\<lparr>pool_state := st, pool_workers := (pool_workers p)(fd := wk)\<rparr>)"
  using assms(1,3) worker_ok_keeps [OF _ assms(2)] by (auto simp: workers_ok_def)

text \<open>One section of a thread in the pool.\<close>

lemma pool_section_steps:
  assumes "pool_inv p" and "before_year_10000 now" and "pool_workers p fd = Some wk"
  shows "\<exists>wk' st' out wk''. nas_section now wk (pool_state p) = Some (wk', st') \<and>
    section_effect wk (pool_state p) wk' st' \<and> keeps_ids (pool_state p) st' \<and>
    nas_serve (Nas_Section fd now) p =
      Some (out, p\<lparr>pool_state := st', pool_workers := (pool_workers p)(fd := wk'')\<rparr>) \<and>
    (out = [] \<and> wk'' = Some wk' \<or> (\<exists>response. out = [response] \<and> wk' = Nas_Answered response \<and>
       http_complete response \<and> wk'' = None)) \<and>
    pool_inv (p\<lparr>pool_state := st', pool_workers := (pool_workers p)(fd := wk'')\<rparr>)"
proof -
  have i: "nas_wf (pool_state p)" "workers_ok p" "worker_ok (pool_state p) wk" "answer_ok wk"
    using assms(1,3) by (auto simp: pool_inv_def workers_ok_def)
  obtain wk' st' where n: "nas_section now wk (pool_state p) = Some (wk', st')"
    "section_effect wk (pool_state p) wk' st'" "worker_ok st' wk'" "answer_ok wk'"
    using nas_section_steps [OF assms(2) i(1,4)] by blast
  have k: "nas_wf st'" "keeps_ids (pool_state p) st'"
    using section_wf [OF n(2) i(1,3)] by simp_all
  have "workers_ok (p\<lparr>pool_state := st', pool_workers := (pool_workers p)(fd := w)\<rparr>)"
    if "w = None \<or> w = Some wk'" for w
    using workers_okI [OF i(2) k(2), of w fd] n(3,4) that by auto
  then have w: "pool_inv (p\<lparr>pool_state := st', pool_workers := (pool_workers p)(fd := None)\<rparr>)"
    "pool_inv (p\<lparr>pool_state := st', pool_workers := (pool_workers p)(fd \<mapsto> wk')\<rparr>)"
    using k(1) by (simp_all add: pool_inv_def)
  show ?thesis
  proof (cases "\<exists>response. wk' = Nas_Answered response")
    case True
    then obtain response where r: "wk' = Nas_Answered response" by blast
    with n(4) have "http_complete response" by simp
    with r n k(2) w(1) assms(3) show ?thesis by (auto intro!: exI [of _ None])
  next
    case False
    with n k(2) w(2) assms(3) show ?thesis
      by (cases wk') (auto intro!: exI [of _ "Some wk'"])
  qed
qed

lemma pool_accept_inv: "pool_inv p \<Longrightarrow> nas_serve (Nas_Accept fd chunks) p = Some (out, p') \<Longrightarrow> pool_inv p'"
  by (auto simp: pool_inv_def workers_ok_def split: if_splits)

interpretation nas_threads: total_machine nas_serve pool_inv nas_possible
proof
  fix p e
  assume "pool_inv p" and "nas_possible e"
  then show "\<exists>out p'. nas_serve e p = Some (out, p') \<and> pool_inv p'"
  proof (cases e)
    case (Nas_Accept fd chunks)
    then show ?thesis using pool_accept_inv [OF \<open>pool_inv p\<close>] by (auto simp del: nas_serve.simps simp: nas_serve.simps(1))
  next
    case (Nas_Section fd now)
    with \<open>nas_possible e\<close> have n: "before_year_10000 now" by simp
    show ?thesis
    proof (cases "pool_workers p fd")
      case None
      with \<open>pool_inv p\<close> Nas_Section show ?thesis by simp
    next
      case (Some wk)
      then show ?thesis
        using pool_section_steps [OF \<open>pool_inv p\<close> n Some] Nas_Section by metis
    qed
  qed
qed

lemma pool_start_inv: "pool_inv (nas_pool_start g)"
  by (simp add: pool_inv_def nas_pool_start_def workers_ok_def nas_wf_start)

text \<open>The counted invariant: every event uses up at most one id of each counter.\<close>

lemma pool_event_room:
  assumes "pool_inv p" and "nas_inv (pool_state p)" and "room (Suc n) (pool_state p)" and "nas_possible e"
  shows "\<exists>out p'. nas_serve e p = Some (out, p') \<and> pool_inv p' \<and> nas_inv (pool_state p') \<and>
    room n (pool_state p')"
proof (cases "\<exists>fd now wk. e = Nas_Section fd now \<and> pool_workers p fd = Some wk")
  case True
  then obtain fd now wk where e: "e = Nas_Section fd now" and w: "pool_workers p fd = Some wk" by blast
  then have n: "before_year_10000 now" and k: "worker_ok (pool_state p) wk"
    using assms(1,4) by (auto simp: pool_inv_def workers_ok_def)
  show ?thesis
    using pool_section_steps [OF assms(1) n w] section_inv [OF _ assms(2,3) k] unfolding e
    by (elim exE conjE) (auto simp del: nas_serve.simps)
next
  case False
  then obtain out p' where s: "nas_serve e p = Some (out, p')" "pool_state p' = pool_state p"
    by (cases e) (auto split: option.split)
  moreover have "room n (pool_state p)" using assms(3) by (simp add: room_def)
  ultimately show ?thesis
    using nas_threads.step_inv [OF assms(1,4)] assms(2) by auto
qed

lemma pool_run_room:
  "pool_inv p \<Longrightarrow> nas_inv (pool_state p) \<Longrightarrow> room (length es + n) (pool_state p) \<Longrightarrow>
   list_all nas_possible es \<Longrightarrow>
   \<exists>outs p'. run_events nas_serve es p = Some (outs, p') \<and> pool_inv p' \<and> nas_inv (pool_state p') \<and>
     room n (pool_state p')"
proof (induction es arbitrary: p)
  case Nil
  then show ?case by simp
next
  case (Cons e es)
  then obtain out p1 where p1: "nas_serve e p = Some (out, p1)" "pool_inv p1" "nas_inv (pool_state p1)"
    "room (length es + n) (pool_state p1)"
    using pool_event_room [of p "length es + n" e] by auto
  moreover obtain outs p' where "run_events nas_serve es p1 = Some (outs, p')" "pool_inv p'"
    "nas_inv (pool_state p')" "room n (pool_state p')"
    using Cons.IH [OF p1(2-4)] Cons.prems by auto
  ultimately show ?case by simp
qed

text \<open>
  C6. Ids stay unique whatever the interleaving of the NAS threads, between their critical sections
  too: two users never share a profile id, two consoles never share a user id, no two records share a
  record id, and every login session holds the profile id of its user.
\<close>

theorem nas_threads_ids_unique:
  assumes "list_all nas_possible es" and "length es < 2 ^ 63"
  shows "\<exists>outs p. run_events nas_serve es (nas_pool_start g) = Some (outs, p) \<and>
    (\<forall>u v i. um_find (user_profile_ids (pool_state p)) u = Some i \<longrightarrow>
       um_find (user_profile_ids (pool_state p)) v = Some i \<longrightarrow> u = v) \<and>
    (\<forall>j k u. um_find (account_user_ids (pool_state p)) j = Some u \<longrightarrow>
       um_find (account_user_ids (pool_state p)) k = Some u \<longrightarrow> j = k) \<and>
    distinct (map fr_record_id (friend_info_records (pool_state p))) \<and>
    (\<forall>u s. um_find (login_sessions (pool_state p)) u = Some s \<longrightarrow>
       um_find (user_profile_ids (pool_state p)) u = Some (ls_profile_id s))"
proof -
  have s: "pool_state (nas_pool_start g) = nas_start g" by (simp add: nas_pool_start_def)
  obtain outs p where p: "run_events nas_serve es (nas_pool_start g) = Some (outs, p)" "nas_inv (pool_state p)"
    using pool_run_room [OF pool_start_inv, of g es 0] nas_inv_start room_start [OF assms(2)] assms(1)
    unfolding s by auto
  then have "distinct (map fr_record_id (friend_info_records (pool_state p)))"
    using strict_sorted_iff [of "map fr_record_id (friend_info_records (pool_state p))"]
    by (simp add: nas_inv_def records_inv_def)
  with p show ?thesis unfolding nas_inv_def ids_unique_def logins_inv_def by blast
qed

theorem nas_threads_ids_unique_witness:
  "\<exists>outs p. run_events nas_serve
      [Nas_Accept 4 [sample_create], Nas_Accept 5 [sample_login], Nas_Section 4 0, Nas_Section 5 0,
       Nas_Section 5 1, Nas_Section 4 2] (nas_pool_start sample_generator) = Some (outs, p) \<and>
    distinct (map fr_record_id (friend_info_records (pool_state p)))"
  using nas_threads_ids_unique [of "[Nas_Accept 4 [sample_create], Nas_Accept 5 [sample_login],
      Nas_Section 4 0, Nas_Section 5 0, Nas_Section 5 1, Nas_Section 4 2]" sample_generator]
  by (auto simp: before_year_10000_def simp del: run_events.simps)

subsection \<open>A login session lasts until the user logs in again\<close>

fun logs_in :: "string \<Rightarrow> nas_worker \<Rightarrow> bool" where
  "logs_in user (Nas_Received request) \<longleftrightarrow>
     \<not> is_account_create request \<and> \<not> is_not_login request \<and> form_field request ''userid'' = user"
| "logs_in user (Nas_Identified request user_id profile_id) \<longleftrightarrow> user_id = user"
| "logs_in user wk \<longleftrightarrow> False"

fun no_login_of :: "string \<Rightarrow> nas_event \<Rightarrow> bool" where
  "no_login_of user (Nas_Accept fd chunks) \<longleftrightarrow> \<not> logs_in user (Nas_Received (nas_receive chunks []))"
| "no_login_of user (Nas_Section fd now) \<longleftrightarrow> True"

definition session_held :: "string \<Rightarrow> login_session \<Rightarrow> nas_pool \<Rightarrow> bool" where
  "session_held user session p \<longleftrightarrow>
     um_find (login_sessions (pool_state p)) user = Some session \<and>
     (\<forall>fd wk. pool_workers p fd = Some wk \<longrightarrow> \<not> logs_in user wk)"

lemma section_session_kept:
  assumes "section_effect wk st wk' st'" and "um_valid (login_sessions st)" and "\<not> logs_in user wk"
  shows "um_find (login_sessions st') user = um_find (login_sessions st) user"
  using assms
  by (auto simp: section_effect_def store_friend_info_def store_login_session_def um.find_set Let_def)

lemma section_not_logs_in:
  assumes "nas_section now wk st = Some (wk', st')" and "\<not> logs_in user wk"
  shows "\<not> logs_in user wk'"
  using assms
  by (auto simp: nas_section_def create_section_def created_section_def identify_section_def
      session_section_def nas_readers Let_def split: nas_worker.splits bind_splits if_splits prod.splits)

interpretation session_lasts: lasting_fact nas_serve pool_inv nas_possible
  "session_held user session" "no_login_of user" for user session
proof
  fix p e out p'
  assume i: "pool_inv p" and n: "nas_possible e" and h: "session_held user session p"
    and q: "no_login_of user e" and s: "nas_serve e p = Some (out, p')"
  show "session_held user session p'"
  proof (cases "\<exists>fd now wk. e = Nas_Section fd now \<and> pool_workers p fd = Some wk")
    case True
    then obtain fd now wk where e: "e = Nas_Section fd now" and w: "pool_workers p fd = Some wk" by blast
    then have b: "before_year_10000 now" and l: "\<not> logs_in user wk"
      using n h by (auto simp: session_held_def)
    obtain wk' st' wk'' where x: "nas_section now wk (pool_state p) = Some (wk', st')"
      "section_effect wk (pool_state p) wk' st'" "wk'' = None \<or> wk'' = Some wk'"
      "p' = p\<lparr>pool_state := st', pool_workers := (pool_workers p)(fd := wk'')\<rparr>"
      using pool_section_steps [OF i b w] s unfolding e by (auto simp del: nas_serve.simps)
    have v: "um_valid (login_sessions (pool_state p))" using i by (simp add: pool_inv_def nas_wf_def)
    show ?thesis
      using h section_session_kept [OF x(2) v l] section_not_logs_in [OF x(1) l] x(3)
      by (auto simp: session_held_def x(4))
  next
    case False
    then show ?thesis using s q h by (cases e) (auto simp: session_held_def split: if_splits option.splits)
  qed
qed

text \<open>What a login answers is what it stores.\<close>

lemma login_stores:
  assumes "nas_wf st" and "before_year_10000 now"
  shows "\<exists>session st' d. nas_section now (Nas_Identified request user profile) st =
      Some (Nas_Answered (plain_response (login_text session d)), st') \<and>
    um_find (login_sessions st') user = Some session \<and> ls_profile_id session = profile \<and>
    backslash \<notin> set (ls_token session)"
proof -
  obtain d where d: "current_datetime now = Some d"
    using datetime_total assms(2) by (auto simp: before_year_10000_def)
  define c where "c = random_chars 8 alnum_alphabet (text_generator st)"
  define t where "t = random_chars 80 alnum_alphabet (snd c)"
  define session where "session = \<lparr>ls_challenge = fst c, ls_token = ''NDS'' @ fst t,
    ls_request_body = body_of request, ls_profile_id = profile\<rparr>"
  have "nas_section now (Nas_Identified request user profile) st =
      Some (Nas_Answered (plain_response (login_text session d)),
        store_login_session user session (st\<lparr>text_generator := snd t\<rparr>))"
    using d by (simp add: nas_section_def session_section_def nas_random_text_def
        nas_readers case_prod_beta Let_def c_def t_def session_def)
  moreover have "backslash \<notin> set (ls_token session)"
    using random_chars_notin [of alnum_alphabet backslash 80 "snd c"]
    by (simp add: session_def t_def alnum_alphabet_def)
  ultimately show ?thesis
    using assms(1) by (auto simp: store_login_session_def nas_wf_def um.find_set session_def)
qed

end
