(* ===== verification/Profile.thy ===== *)
theory Profile
  imports Nas_State Message_Stream
begin

section \<open>The profile protocol (\<^verbatim>\<open>src/gamespy_profile.cpp\<close>)\<close>

text \<open>
  A profile message is a list of tokens with a backslash in front of each: \<open>render\<close>. This theory holds
  the tests for the kind of a message, the reader of a value and the response builders. MD5 is
  OpenSSL's: a parameter, \<^const>\<open>None\<close> where the library fails and the code throws.
\<close>

definition keepalive_message :: string where
  "keepalive_message = slashed ''ka'' @ slashed ''final''"

definition text_alphabet :: string where
  "text_alphabet = ''0123456789ABCDEFGHIJKLMNOPQRSTUVWXYZabcdefghijklmnopqrstuvwxyz''"

definition profile_random_text :: "nat \<Rightarrow> string \<Rightarrow> rng \<Rightarrow> string \<times> rng" where
  "profile_random_text n alphabet generator = random_chars n alphabet generator"

definition random_hex :: "nat \<Rightarrow> rng \<Rightarrow> string \<times> rng" where
  "random_hex n generator = profile_random_text n ''0123456789abcdef'' generator"

definition request_value :: "string \<Rightarrow> string \<Rightarrow> string option" where
  "request_value request key =
     (let search = slashed key
      in case str_find request search 0 of
           None \<Rightarrow> Some []
         | Some value_start \<Rightarrow>
             let first = value_start + length search;
                 endp = str_find request [backslash] first
             in str_substr request first (count_to endp first))"

definition md5_hex :: "(string \<Rightarrow> packet option) \<Rightarrow> string \<Rightarrow> string option" where
  "md5_hex md5 v = do {
     digest \<leftarrow> md5 v;
     Some (concat (map (\<lambda>byte. put_padded 2 (CHR ''0'') (hex_of_nat hex_lower (unat byte))) digest))
   }"

definition is_profile_keepalive :: "string \<Rightarrow> bool" where
  "is_profile_keepalive request \<longleftrightarrow> request = keepalive_message"

definition is_profile_login :: "string \<Rightarrow> bool option" where
  "is_profile_login request =
     (let pre = slashed ''login''; suf = slashed ''final''
      in do {
        starts \<leftarrow> str_compare_eq request 0 (length pre) pre;
        (if \<not> starts then Some False
         else if length request < length suf then Some False
         else str_compare_eq request (length request - length suf) (length suf) suf)
      })"

text \<open>The other six tests are copies of one scheme, with the length of the prefix as a literal.\<close>

definition is_command :: "nat \<Rightarrow> string \<Rightarrow> string \<Rightarrow> bool option" where
  "is_command n pre request = do {
     starts \<leftarrow> str_compare_eq request 0 n pre;
     (if \<not> starts then Some False
      else if length request < 7 then Some False
      else str_compare_eq request (length request - 7) 7 (slashed ''final''))
   }"

definition is_profile_getprofile :: "string \<Rightarrow> bool option" where
  "is_profile_getprofile request = is_command 12 (slashed ''getprofile'') request"

definition is_profile_updatepro :: "string \<Rightarrow> bool option" where
  "is_profile_updatepro request = is_command 11 (slashed ''updatepro'') request"

definition is_profile_status :: "string \<Rightarrow> bool option" where
  "is_profile_status request = is_command 8 (slashed ''status'') request"

definition is_profile_addbuddy :: "string \<Rightarrow> bool option" where
  "is_profile_addbuddy request = is_command 10 (slashed ''addbuddy'') request"

definition is_profile_authadd :: "string \<Rightarrow> bool option" where
  "is_profile_authadd request = is_command 9 (slashed ''authadd'') request"

definition is_profile_delbuddy :: "string \<Rightarrow> bool option" where
  "is_profile_delbuddy request = is_command 10 (slashed ''delbuddy'') request"

definition profile_field_value :: "string \<Rightarrow> string \<Rightarrow> string option" where
  "profile_field_value request key = request_value request key"

definition profile_keepalive_response :: string where
  "profile_keepalive_response = keepalive_message"

definition profile_login_challenge :: "rng \<Rightarrow> string \<times> rng" where
  "profile_login_challenge generator =
     (let (c, generator') = profile_random_text 10 upper_alphabet generator
      in (slashed ''lc'' @ ''1'' @ slashed ''challenge'' @ c @ slashed ''id'' @ ''1'' @ slashed ''final'',
          generator'))"

definition shown_user_id :: "login_credentials \<Rightarrow> string" where
  "shown_user_id credentials =
     (if lc_user_id credentials = [] then ''0000000000002'' else lc_user_id credentials)"

definition profile_login_response ::
  "(string \<Rightarrow> packet option) \<Rightarrow> string \<Rightarrow> string \<Rightarrow> login_credentials \<Rightarrow> rng \<Rightarrow>
   (string \<times> rng) option" where
  "profile_login_response md5 request server_challenge credentials generator =
     (let (session_key, g1) = profile_random_text 8 ''0123456789'' generator;
          (login_ticket, g2) = profile_random_text 16 text_alphabet g1;
          user_id = shown_user_id credentials
      in do {
        request_id \<leftarrow> request_value request ''id'';
        client_challenge \<leftarrow> request_value request ''challenge'';
        digest \<leftarrow> md5_hex md5 (lc_challenge credentials);
        let proof_input = digest @ replicate 0x30 (CHR '' '') @
          lc_token credentials @ server_challenge @ client_challenge @ digest;
        login_proof \<leftarrow> md5_hex md5 proof_input;
        Some (slashed ''lc'' @ ''2'' @
          slashed ''sesskey'' @ session_key @
          slashed ''proof'' @ login_proof @
          slashed ''userid'' @ user_id @
          slashed ''profileid'' @ lc_profile_id credentials @
          slashed ''uniquenick'' @ ''KiWii'' @ user_id @
          slashed ''lt'' @ login_ticket @
          slashed ''id'' @ request_id @
          slashed ''final'', g2)
      })"

definition profile_getprofile_response ::
  "string \<Rightarrow> login_credentials \<Rightarrow> string \<Rightarrow> string \<Rightarrow> rng \<Rightarrow> (string \<times> rng) option" where
  "profile_getprofile_response request credentials firstname lastname generator =
     (let user_id = shown_user_id credentials;
          unique_nick = ''KiWii'' @ user_id;
          email = unique_nick @ ''@nds'';
          (sig, g1) = random_hex 32 generator
      in do {
        request_id \<leftarrow> request_value request ''id'';
        Some (slashed ''pi'' @ [backslash] @
          ''profileid'' @ [backslash] @ lc_profile_id credentials @
          slashed ''nick'' @ unique_nick @
          slashed ''userid'' @ user_id @
          slashed ''email'' @ email @
          slashed ''sig'' @ sig @
          slashed ''uniquenick'' @ unique_nick @
          slashed ''pid'' @ ''11'' @
          (if firstname \<noteq> [] then slashed ''firstname'' @ firstname else []) @
          (if lastname \<noteq> [] then slashed ''lastname'' @ lastname else []) @
          slashed ''lon'' @ ''0.000000'' @
          slashed ''lat'' @ ''0.000000'' @
          slashed ''loc'' @ [backslash] @
          slashed ''id'' @ request_id @
          slashed ''final'', g1)
      })"

subsection \<open>Kinds of messages\<close>

lemma slashed_final: "slashed ''final'' = final_mark"
  by (simp add: slashed_def final_mark_def)

lemma compare_prefix:
  "str_compare_eq s 0 (length pre) pre = Some (prefix pre s)"
  by (auto simp: str_compare_eq_def prefix_def) (metis append_take_drop_id)

lemma compare_suffix:
  "length suf \<le> length s \<Longrightarrow>
   str_compare_eq s (length s - length suf) (length suf) suf = Some (suffix suf s)"
  by (auto simp: str_compare_eq_def suffix_def) (metis append_take_drop_id)

lemma is_command_eq:
  "n = length pre \<Longrightarrow> is_command n pre request = Some (prefix pre request \<and> suffix final_mark request)"
  using compare_prefix [of request pre] compare_suffix [of final_mark request]
  by (auto simp: is_command_def slashed_final not_less dest: suffix_length_le)

lemma profile_tests [simp]:
  "is_profile_login request = Some (prefix (slashed ''login'') request \<and> suffix final_mark request)"
  "is_profile_getprofile request = Some (prefix (slashed ''getprofile'') request \<and> suffix final_mark request)"
  "is_profile_updatepro request = Some (prefix (slashed ''updatepro'') request \<and> suffix final_mark request)"
  "is_profile_status request = Some (prefix (slashed ''status'') request \<and> suffix final_mark request)"
  "is_profile_addbuddy request = Some (prefix (slashed ''addbuddy'') request \<and> suffix final_mark request)"
  "is_profile_authadd request = Some (prefix (slashed ''authadd'') request \<and> suffix final_mark request)"
  "is_profile_delbuddy request = Some (prefix (slashed ''delbuddy'') request \<and> suffix final_mark request)"
proof -
  show "is_profile_login request = Some (prefix (slashed ''login'') request \<and> suffix final_mark request)"
    using compare_prefix [of request "slashed ''login''"] compare_suffix [of final_mark request]
    by (auto simp: is_profile_login_def slashed_final Let_def not_less dest: suffix_length_le)
qed (simp_all add: is_profile_getprofile_def is_profile_updatepro_def is_profile_status_def
    is_profile_addbuddy_def is_profile_authadd_def is_profile_delbuddy_def is_command_eq slashed_def)

subsection \<open>Tokens\<close>

fun render :: "string list \<Rightarrow> string" where
  "render [] = [backslash]"
| "render (t # ts) = backslash # t @ render ts"

lemma request_value_eq: "request_value request key = Some (field_after (slashed key) backslash request)"
proof (cases "find_sub (slashed key) request")
  case None
  then show ?thesis by (simp add: request_value_def field_after_def Let_def)
next
  case (Some i)
  then show ?thesis
    using find_sub_bound [OF Some] str_substr_until [of "i + length (slashed key)" request backslash]
    by (simp add: request_value_def field_after_def Let_def)
qed

lemma render_Cons: "\<exists>r. render ts = backslash # r"
  by (cases ts) auto

lemma find_slashed_render:
  assumes "\<forall>t \<in> set ts. backslash \<notin> set t" "backslash \<notin> set key"
  shows "field_after (slashed key) backslash (render ts) = value_after (\<lambda>t. t = key) ts"
  using assms(1)
proof (induction ts)
  case Nil
  have "find_sub (slashed key) [backslash] = None"
    by (simp add: slashed_def)
  then show ?case by (simp add: field_after_def)
next
  case (Cons t ts)
  obtain r where r: "render ts = backslash # r" using render_Cons by blast
  have tk: "backslash \<notin> set t" using Cons.prems by simp
  have p: "prefix (slashed key) (render (t # ts)) \<longleftrightarrow> key = t"
    using prefix_marker [OF assms(2) tk, of r] by (simp add: slashed_def r)
  have skip: "find_sub (slashed key) (t @ render ts) =
      map_option (\<lambda>i. length t + i) (find_sub (slashed key) (render ts))"
    using tk by (intro find_sub_skip) (simp_all add: slashed_def)
  show ?case
  proof (cases "key = t")
    case True
    have "find_sub (slashed key) (render (t # ts)) = Some 0" using p True by (simp add: find_sub_0_iff)
    moreover have "drop (length (slashed key)) (render (t # ts)) = r"
      using True by (simp add: slashed_def r)
    moreover have "takeWhile (\<lambda>d. d \<noteq> backslash) r = (case ts of [] \<Rightarrow> [] | u # us \<Rightarrow> u)"
    proof (cases ts)
      case Nil
      with r show ?thesis by simp
    next
      case (Cons u us)
      obtain r' where r': "render us = backslash # r'" using render_Cons by blast
      have "backslash \<notin> set u" using Cons Cons.prems by simp
      then show ?thesis using Cons r r' by (auto simp: takeWhile_append takeWhile_eq_all_conv)
    qed
    ultimately show ?thesis using True by (cases ts) (simp_all add: field_after_def)
  next
    case False
    then have "find_sub (slashed key) (render (t # ts)) =
        map_option (\<lambda>i. Suc (length t + i)) (find_sub (slashed key) (render ts))"
      using p skip by (simp add: option.map_comp comp_def)
    then have "field_after (slashed key) backslash (render (t # ts)) =
        field_after (slashed key) backslash (render ts)"
      by (cases "find_sub (slashed key) (render ts)") (simp_all add: field_after_def)
    with Cons False show ?thesis by (cases ts) simp_all
  qed
qed

subsection \<open>Properties\<close>

lemma takeWhile_slash:
  "backslash \<notin> set k \<Longrightarrow> takeWhile (\<lambda>d. d \<noteq> backslash) (k @ backslash # r) = k"
  by (auto simp: takeWhile_append takeWhile_eq_all_conv)

definition command_of :: "string \<Rightarrow> string" where
  "command_of request = takeWhile (\<lambda>d. d \<noteq> backslash) (tl request)"

lemma command_of_prefix: "backslash \<notin> set k \<Longrightarrow> prefix (slashed k) r \<Longrightarrow> command_of r = k"
  by (auto simp: prefix_def command_of_def slashed_def takeWhile_slash)

text \<open>
  A message is of at most one kind, so the order in which the connection tests for the eight kinds
  does not matter; and no test throws.
\<close>

theorem profile_kinds_exclusive:
  "\<exists>l g u s ab aa db. is_profile_login request = Some l \<and> is_profile_getprofile request = Some g \<and>
     is_profile_updatepro request = Some u \<and> is_profile_status request = Some s \<and>
     is_profile_addbuddy request = Some ab \<and> is_profile_authadd request = Some aa \<and>
     is_profile_delbuddy request = Some db \<and>
     length (filter (\<lambda>b. b) [is_profile_keepalive request, l, g, u, s, ab, aa, db]) \<le> 1"
proof -
  let ?p = "\<lambda>k. prefix (slashed k) request \<and> suffix final_mark request"
  have k: "?p k \<Longrightarrow> backslash \<notin> set k \<Longrightarrow> command_of request = k" for k
    using command_of_prefix by blast
  have ka: "is_profile_keepalive request \<Longrightarrow> command_of request = ''ka''"
    by (simp add: is_profile_keepalive_def keepalive_message_def command_of_def slashed_def)
  have "length (filter (\<lambda>b. b) [is_profile_keepalive request, ?p ''login'', ?p ''getprofile'',
      ?p ''updatepro'', ?p ''status'', ?p ''addbuddy'', ?p ''authadd'', ?p ''delbuddy'']) \<le> 1"
    using ka k [of "''login''"] k [of "''getprofile''"] k [of "''updatepro''"] k [of "''status''"]
      k [of "''addbuddy''"] k [of "''authadd''"] k [of "''delbuddy''"]
    by (auto split: if_splits)
  then show ?thesis unfolding profile_tests by blast
qed

text \<open>
  A value of a message is the token after the first token equal to the key. (Keys and values are
  not told apart: a value that equals the key is taken for it.)
\<close>

theorem profile_value_of_tokens:
  assumes "\<forall>t \<in> set ts. backslash \<notin> set t" and "backslash \<notin> set key"
  shows "profile_field_value (render ts) key = Some (value_after (\<lambda>t. t = key) ts)"
  using assms by (simp add: profile_field_value_def request_value_eq find_slashed_render)

theorem profile_value_of_tokens_witness:
  "profile_field_value (render [''login'', [], ''challenge'', ''id'', ''id'', ''1'', ''final'']) ''id'' = Some ''id''"
  using profile_value_of_tokens [of "[''login'', [], ''challenge'', ''id'', ''id'', ''1'', ''final'']" "''id''"]
  by simp

text \<open>A message as the key/value pairs a client reads.\<close>

fun token_pairs :: "string list \<Rightarrow> (string \<times> string) list" where
  "token_pairs (k # v # ts) = (k, v) # token_pairs ts"
| "token_pairs ts = []"

lemma md5_hex_slash_free:
  assumes "md5_hex md5 v = Some h"
  shows "backslash \<notin> set h"
proof -
  have "backslash \<notin> set (put_padded 2 (CHR ''0'') (hex_of_nat hex_lower n))" for n
    using set_put_padded [of 2 "CHR ''0''" "hex_of_nat hex_lower n"] set_hex_of_nat [of hex_lower n]
    by (auto simp: hex_lower_def)
  with assms show ?thesis by (cases "md5 v") (auto simp: md5_hex_def)
qed

text \<open>
  The login response carries the proof the client expects, the MD5 digest over the two challenges
  and the token, as the value of \<^verbatim>\<open>proof\<close>, and, read as pairs, the user id, the profile id and the id
  of the request.
\<close>

theorem profile_login_proof:
  assumes "md5_hex md5 (lc_challenge credentials) = Some digest"
    and "request_value request ''challenge'' = Some client_challenge"
    and "request_value request ''id'' = Some request_id"
    and "md5_hex md5 (digest @ replicate 48 (CHR '' '') @ lc_token credentials @ server_challenge @
      client_challenge @ digest) = Some p"
    and "backslash \<notin> set (lc_user_id credentials)" and "backslash \<notin> set (lc_profile_id credentials)"
  shows "\<exists>ts g'. profile_login_response md5 request server_challenge credentials g = Some (render ts @ ''final'' @ [backslash], g') \<and>
    profile_field_value (render ts @ ''final'' @ [backslash]) ''proof'' = Some p \<and>
    map_of (token_pairs ts) ''proof'' = Some p \<and>
    map_of (token_pairs ts) ''userid'' = Some (shown_user_id credentials) \<and>
    map_of (token_pairs ts) ''profileid'' = Some (lc_profile_id credentials) \<and>
    map_of (token_pairs ts) ''id'' = Some request_id"
proof -
  define k where "k = random_chars 8 ''0123456789'' g"
  define lt where "lt = random_chars 16 text_alphabet (snd k)"
  define ts where "ts = [''lc'', ''2'', ''sesskey'', fst k, ''proof'', p, ''userid'', shown_user_id credentials,
    ''profileid'', lc_profile_id credentials, ''uniquenick'', ''KiWii'' @ shown_user_id credentials,
    ''lt'', fst lt, ''id'', request_id]"
  have r: "profile_login_response md5 request server_challenge credentials g =
      Some (render ts @ ''final'' @ [backslash], snd lt)"
    using assms(1-4) by (simp add: profile_login_response_def profile_random_text_def k_def [symmetric]
        lt_def [symmetric] case_prod_beta Let_def ts_def slashed_def)
  have rid: "backslash \<notin> set request_id"
    using assms(3) by (auto simp: request_value_eq field_after_no_stop)
  have k: "backslash \<notin> set (fst k)" "fst k \<noteq> ''proof''"
    using random_chars_notin [of "''0123456789''" backslash 8 g] random_chars_length [of 8 "''0123456789''" g]
    by (auto simp: k_def simp del: random_chars_length)
  have lt: "backslash \<notin> set (fst lt)"
    unfolding lt_def by (rule random_chars_notin) (simp_all add: text_alphabet_def)
  have u: "backslash \<notin> set (shown_user_id credentials)"
    using assms(5) by (simp add: shown_user_id_def)
  have "\<forall>t \<in> set (ts @ [''final'']). backslash \<notin> set t"
    using rid k lt u assms(6) md5_hex_slash_free [OF assms(4)] by (simp add: ts_def)
  moreover have "render ts @ ''final'' @ [backslash] = render (ts @ [''final''])"
    by (simp add: ts_def)
  ultimately have "profile_field_value (render ts @ ''final'' @ [backslash]) ''proof'' =
      Some (value_after (\<lambda>t. t = ''proof'') (ts @ [''final'']))"
    using find_slashed_render [of "ts @ [''final'']" "''proof''"]
    by (simp add: profile_field_value_def request_value_eq)
  moreover have "value_after (\<lambda>t. t = ''proof'') (ts @ [''final'']) = p"
    using k(2) by (simp add: ts_def)
  ultimately show ?thesis
    using r by (intro exI [of _ ts] exI [of _ "snd lt"]) (simp add: ts_def)
qed

text \<open>A stand-in digest for the examples: sixteen bytes that depend on the length of the text.\<close>

definition length_digest :: "string \<Rightarrow> packet option" where
  "length_digest s = Some (replicate 16 (word_of_nat (length s)))"

theorem profile_login_proof_witness:
  "\<exists>ts g'. profile_login_response length_digest (render [''login'', [], ''challenge'', ''xyz'', ''id'', ''1'', ''final''])
      ''ABCDEFGHIJ'' default_credentials \<lparr>draws = (\<lambda>_. 3), drawn = 0\<rparr> = Some (render ts @ ''final'' @ [backslash], g') \<and>
    map_of (token_pairs ts) ''profileid'' = Some ''1'' \<and> map_of (token_pairs ts) ''id'' = Some ''1''"
proof -
  let ?r = "render [''login'', [], ''challenge'', ''xyz'', ''id'', ''1'', ''final'']"
  have "request_value ?r ''challenge'' = Some ''xyz''" "request_value ?r ''id'' = Some ''1''"
    by (simp_all add: request_value_eq field_after_def slashed_def)
  moreover obtain d where d: "md5_hex length_digest (lc_challenge default_credentials) = Some d"
    by (simp add: md5_hex_def length_digest_def)
  moreover obtain p where "md5_hex length_digest (d @ replicate 48 (CHR '' '') @
      lc_token default_credentials @ ''ABCDEFGHIJ'' @ ''xyz'' @ d) = Some p"
    by (simp add: md5_hex_def length_digest_def)
  ultimately show ?thesis
    using profile_login_proof [of length_digest default_credentials d ?r "''xyz''" "''1''" "''ABCDEFGHIJ''" p
        "\<lparr>draws = (\<lambda>_. 3), drawn = 0\<rparr>"]
    by (auto simp: default_credentials_def)
qed

text \<open>
  The profile response has one backslash too many after its \<^verbatim>\<open>loc\<close> field: read as key/value pairs it
  has no \<^verbatim>\<open>id\<close> at all, the word \<^verbatim>\<open>id\<close> is the value of an empty key and the id of the request has become
  a key, with \<^verbatim>\<open>final\<close> as its value.
\<close>

theorem getprofile_id_misaligned:
  assumes "request_value request ''id'' = Some request_id" and "request_id \<noteq> ''id''"
  shows "\<exists>ts g'. profile_getprofile_response request credentials firstname lastname g =
      Some (render ts, g') \<and>
    map_of (token_pairs ts) ''id'' = None \<and> map_of (token_pairs ts) [] = Some ''id'' \<and>
    (request_id, ''final'') \<in> set (token_pairs ts)"
proof -
  define s where "s = random_chars 32 ''0123456789abcdef'' g"
  define n where "n = ''KiWii'' @ shown_user_id credentials"
  define ts where "ts = [''pi'', [], ''profileid'', lc_profile_id credentials, ''nick'', n, ''userid'',
      shown_user_id credentials, ''email'', n @ ''@nds'', ''sig'', fst s, ''uniquenick'', n, ''pid'', ''11''] @
    (if firstname \<noteq> [] then [''firstname'', firstname] else []) @
    (if lastname \<noteq> [] then [''lastname'', lastname] else []) @
    [''lon'', ''0.000000'', ''lat'', ''0.000000'', ''loc'', [], [], ''id'', request_id, ''final'']"
  have "profile_getprofile_response request credentials firstname lastname g = Some (render ts, snd s)"
    using assms(1) by (simp add: profile_getprofile_response_def random_hex_def profile_random_text_def
        s_def [symmetric] n_def case_prod_beta Let_def ts_def slashed_def)
  then show ?thesis
    using assms(2) by (intro exI [of _ ts] exI [of _ "snd s"]) (simp add: ts_def)
qed

theorem getprofile_id_misaligned_witness:
  "\<exists>ts g'. profile_getprofile_response (render [''getprofile'', [], ''sesskey'', ''1'', ''id'', ''2'', ''final''])
      default_credentials [] [] \<lparr>draws = (\<lambda>_. 3), drawn = 0\<rparr> = Some (render ts, g') \<and>
    map_of (token_pairs ts) ''id'' = None \<and> map_of (token_pairs ts) [] = Some ''id'' \<and>
    (''2'', ''final'') \<in> set (token_pairs ts)"
proof -
  have "request_value (render [''getprofile'', [], ''sesskey'', ''1'', ''id'', ''2'', ''final'']) ''id'' = Some ''2''"
    by (simp add: request_value_eq field_after_def slashed_def)
  then show ?thesis by (rule getprofile_id_misaligned) simp
qed

end
