(* ===== verification/Server_Profile.thy ===== *)
theory Server_Profile
  imports Profile Nas_Laws
begin

section \<open>The profile server (\<^verbatim>\<open>src/server_profile.cpp\<close>)\<close>

text \<open>
  Every profile connection has a thread of its own. What the threads share (the NAS tables, the two
  buddy tables, the generator, the clock, the wire) is a \<open>profile_world\<close>; what a connection holds in
  its local variables is a \<open>profile_conn\<close>. Handling one message takes at most one of the mutexes, so a
  message is one step, and \<open>profile_step\<close> interleaves the steps of all connections with requests to
  the NAS server. Failures of \<^verbatim>\<open>send\<close> are ignored by the code and here.
\<close>

record profile_world =
  pw_nas :: nas_state
  active_profiles :: "(string, int) umap"
  pending_requests :: "(string, string set) umap"
  pw_generator :: rng
  pw_clock :: "nat \<Rightarrow> nat"
  pw_clock_reads :: nat
  pw_wire :: "(int \<times> string) list"

record profile_conn =
  client_socket :: int
  credentials :: login_credentials
  firstname :: string
  lastname :: string
  status :: string
  statstring :: string
  locstring :: string
  server_challenge :: string
  request_buffer :: string

subsection \<open>One message\<close>

definition send_to :: "int \<Rightarrow> string \<Rightarrow> profile_world \<Rightarrow> profile_world" where
  "send_to socket_fd data w = w\<lparr>pw_wire := pw_wire w @ [(socket_fd, data)]\<rparr>"

definition unix_time :: "profile_world \<Rightarrow> nat \<times> profile_world" where
  "unix_time w = (pw_clock w (pw_clock_reads w), w\<lparr>pw_clock_reads := Suc (pw_clock_reads w)\<rparr>)"

definition buddy_message ::
  "string \<Rightarrow> string \<Rightarrow> string \<Rightarrow> profile_world \<Rightarrow> string \<times> profile_world" where
  "buddy_message command source message w =
     (let (now, w') = unix_time w
      in (slashed ''bm'' @ command @ slashed ''f'' @ source @ slashed ''date'' @
          dec_of_nat now @ slashed ''msg'' @ message @ slashed ''final'', w'))"

definition send_profile_message :: "int \<Rightarrow> string \<times> profile_world \<Rightarrow> profile_world" where
  "send_profile_message socket_fd msg = send_to socket_fd (fst msg) (snd msg)"

text \<open>\<^verbatim>\<open>pending_requests[profile]\<close>, which inserts an empty set where there is none.\<close>

definition pending_of :: "string \<Rightarrow> profile_world \<Rightarrow> string set" where
  "pending_of profile w =
     (case um_find (pending_requests w) profile of None \<Rightarrow> {} | Some s \<Rightarrow> s)"

definition set_pending :: "string \<Rightarrow> string set \<Rightarrow> profile_world \<Rightarrow> profile_world" where
  "set_pending profile s w = w\<lparr>pending_requests := um_set profile s (pending_requests w)\<rparr>"

definition request_text :: string where
  "request_text = [backslash] @ ''r'' @ [backslash] @ ''n'' @ [backslash] @ ''r'' @ [backslash] @
     ''n|signed|KiWii''"

definition handle_login ::
  "(string \<Rightarrow> packet option) \<Rightarrow> (string, login_session) layout \<Rightarrow> string \<Rightarrow>
   profile_conn \<times> profile_world \<Rightarrow> (profile_conn \<times> profile_world) option" where
  "handle_login md5 lay request cw =
     (case cw of (c, w) \<Rightarrow>
        let token_start = map_option (\<lambda>token_marker. token_marker + 11)
              (str_find request (slashed ''authtoken'') 0)
        in do {
          token \<leftarrow> (case token_start of
              None \<Rightarrow> Some []
            | Some s \<Rightarrow> str_substr request s (count_to (str_find request [backslash] s) s));
          let c' = c\<lparr>credentials := credentials_for_token lay token (pw_nas w)\<rparr>;
          (response, g) \<leftarrow>
            profile_login_response md5 request (server_challenge c') (credentials c') (pw_generator w);
          Some (c', send_to (client_socket c') response (w\<lparr>pw_generator := g\<rparr>))
        })"

definition handle_getprofile ::
  "string \<Rightarrow> profile_conn \<times> profile_world \<Rightarrow> (profile_conn \<times> profile_world) option" where
  "handle_getprofile request cw =
     (case cw of (c, w) \<Rightarrow> do {
        (response, g) \<leftarrow>
          profile_getprofile_response request (credentials c) (firstname c) (lastname c) (pw_generator w);
        Some (c, send_to (client_socket c) response (w\<lparr>pw_generator := g\<rparr>))
      })"

definition handle_updatepro ::
  "string \<Rightarrow> profile_conn \<times> profile_world \<Rightarrow> (profile_conn \<times> profile_world) option" where
  "handle_updatepro request cw =
     (case cw of (c, w) \<Rightarrow> do {
        updated_firstname \<leftarrow> profile_field_value request ''firstname'';
        updated_lastname \<leftarrow> profile_field_value request ''lastname'';
        let c1 = (if updated_firstname \<noteq> [] then c\<lparr>firstname := updated_firstname\<rparr> else c);
        let c2 = (if updated_lastname \<noteq> [] then c1\<lparr>lastname := updated_lastname\<rparr> else c1);
        Some (c2, w)
      })"

definition handle_status ::
  "string \<Rightarrow> profile_conn \<times> profile_world \<Rightarrow> (profile_conn \<times> profile_world) option" where
  "handle_status request cw =
     (case cw of (c, w) \<Rightarrow> do {
        st \<leftarrow> profile_field_value request ''status'';
        ss \<leftarrow> profile_field_value request ''statstring'';
        ls \<leftarrow> profile_field_value request ''locstring'';
        Some (c\<lparr>status := st, statstring := ss, locstring := ls\<rparr>,
              w\<lparr>active_profiles :=
                um_set (lc_profile_id (credentials c)) (client_socket c) (active_profiles w)\<rparr>)
      })"

definition handle_addbuddy ::
  "string \<Rightarrow> profile_conn \<times> profile_world \<Rightarrow> (profile_conn \<times> profile_world) option" where
  "handle_addbuddy request cw =
     (case cw of (c, w) \<Rightarrow> do {
        target \<leftarrow> profile_field_value request ''newprofileid'';
        let me = lc_profile_id (credentials c);
        (if target \<noteq> [] \<and> target \<noteq> me
         then
           let w1 = set_pending target (insert me (pending_of target w)) w
           in Some (c, (case um_find (active_profiles w1) target of
                None \<Rightarrow> w1
              | Some fd \<Rightarrow> send_profile_message fd (buddy_message ''2'' me request_text w1)))
         else Some (c, w))
      })"

definition handle_authadd ::
  "string \<Rightarrow> profile_conn \<times> profile_world \<Rightarrow> (profile_conn \<times> profile_world) option" where
  "handle_authadd request cw =
     (case cw of (c, w) \<Rightarrow> do {
        source \<leftarrow> profile_field_value request ''fromprofileid'';
        let me = lc_profile_id (credentials c);
        (if source \<noteq> []
         then
           let w1 = set_pending me (pending_of me w - {source}) w
           in Some (c, (case um_find (active_profiles w1) source of
                None \<Rightarrow> w1
              | Some fd \<Rightarrow> send_profile_message fd (buddy_message ''4'' me [] w1)))
         else Some (c, w))
      })"

definition handle_delbuddy ::
  "string \<Rightarrow> profile_conn \<times> profile_world \<Rightarrow> (profile_conn \<times> profile_world) option" where
  "handle_delbuddy request cw =
     (case cw of (c, w) \<Rightarrow> do {
        target \<leftarrow> profile_field_value request ''delprofileid'';
        let me = lc_profile_id (credentials c);
        Some (c, set_pending me (pending_of me w - {target}) w)
      })"

text \<open>The chain of tests of the connection.\<close>

definition handle_profile_message ::
  "(string \<Rightarrow> packet option) \<Rightarrow> (string, login_session) layout \<Rightarrow> string \<Rightarrow>
   profile_conn \<times> profile_world \<Rightarrow> (profile_conn \<times> profile_world) option" where
  "handle_profile_message md5 lay request cw =
     (if is_profile_keepalive request
      then Some (fst cw, send_to (client_socket (fst cw)) profile_keepalive_response (snd cw))
      else do {
        login \<leftarrow> is_profile_login request;
        (if login then handle_login md5 lay request cw
         else do {
           getprofile \<leftarrow> is_profile_getprofile request;
           (if getprofile then handle_getprofile request cw
            else do {
              updatepro \<leftarrow> is_profile_updatepro request;
              (if updatepro then handle_updatepro request cw
               else do {
                 stat \<leftarrow> is_profile_status request;
                 (if stat then handle_status request cw
                  else do {
                    addbuddy \<leftarrow> is_profile_addbuddy request;
                    (if addbuddy then handle_addbuddy request cw
                     else do {
                       authadd \<leftarrow> is_profile_authadd request;
                       (if authadd then handle_authadd request cw
                        else do {
                          delbuddy \<leftarrow> is_profile_delbuddy request;
                          (if delbuddy then handle_delbuddy request cw else Some cw)
                        })
                     })
                  })
               })
            })
         })
      })"

subsection \<open>The connection\<close>

text \<open>What happens before the receive loop, on a socket that \<^verbatim>\<open>accept\<close> returned.\<close>

definition open_profile_connection ::
  "int \<Rightarrow> profile_world \<Rightarrow> (profile_conn \<times> profile_world) option" where
  "open_profile_connection fd w =
     (let (login_challenge, g) = profile_login_challenge (pw_generator w)
      in do {
        marker \<leftarrow> str_find login_challenge (slashed ''challenge'') 0;
        let challenge_start = marker + 11;
        let challenge_end = str_find login_challenge (slashed ''id'') challenge_start;
        challenge \<leftarrow>
          str_substr login_challenge challenge_start (count_to challenge_end challenge_start);
        Some (\<lparr>client_socket = fd, credentials = default_credentials, firstname = [], lastname = [],
               status = [], statstring = [], locstring = [], server_challenge = challenge,
               request_buffer = []\<rparr>,
              send_to fd login_challenge (w\<lparr>pw_generator := g\<rparr>))
      })"

text \<open>What happens after it.\<close>

definition close_profile_connection :: "profile_conn \<Rightarrow> profile_world \<Rightarrow> profile_world" where
  "close_profile_connection c w =
     w\<lparr>active_profiles := um_erase (lc_profile_id (credentials c)) (active_profiles w)\<rparr>"

text \<open>The whole connection, alone with its world, over the chunks that \<^verbatim>\<open>recv\<close> delivers.\<close>

definition handle_profile_connection ::
  "(string \<Rightarrow> packet option) \<Rightarrow> (string, login_session) layout \<Rightarrow> int \<Rightarrow> string list \<Rightarrow>
   profile_world \<Rightarrow> profile_world option" where
  "handle_profile_connection md5 lay fd chunks w =
     (if fd < 0 then Some w
      else do {
        cw \<leftarrow> open_profile_connection fd w;
        (rest, (c, w')) \<leftarrow> serve_chunks (handle_profile_message md5 lay) chunks [] cw;
        Some (close_profile_connection c w')
      })"

end
