(* ===== verification/Profile_Laws.thy ===== *)
theory Profile_Laws
  imports Server_Profile
begin

section \<open>The laws of the profile server\<close>

text \<open>
  What one message can do, that a connection handles exactly the messages of its stream, the
  interleaving of all connections with the NAS server as a step relation, and the invariants of the
  states it reaches.
\<close>

subsection \<open>One message\<close>

lemma token_reader_eq:
  "(case map_option (\<lambda>m. m + 11) (str_find request (slashed ''authtoken'') 0) of
      None \<Rightarrow> Some []
    | Some s \<Rightarrow> str_substr request s (count_to (str_find request [backslash] s) s)) =
   Some (field_after (slashed ''authtoken'') backslash request)"
proof (cases "find_sub (slashed ''authtoken'') request")
  case None
  then show ?thesis by (simp add: field_after_def)
next
  case (Some i)
  then have "i + 11 \<le> length request"
    using find_sub_bound [OF Some] by (simp add: slashed_def)
  moreover have "length (slashed ''authtoken'') = 11" by (simp add: slashed_def)
  ultimately show ?thesis using Some by (simp add: str_substr_until field_after_def)
qed

lemma token_reader_total:
  "\<exists>token. (case map_option (\<lambda>m. m + 11) (str_find request (slashed ''authtoken'') 0) of
      None \<Rightarrow> Some []
    | Some s \<Rightarrow> str_substr request s (count_to (str_find request [backslash] s) s)) = Some token"
  unfolding token_reader_eq by blast

text \<open>The effect of a message, as a relation: who may be written to and what may change.\<close>

definition harmless :: "profile_conn \<times> profile_world \<Rightarrow> profile_conn \<times> profile_world \<Rightarrow> bool" where
  "harmless cw cw' \<longleftrightarrow>
     client_socket (fst cw') = client_socket (fst cw) \<and>
     server_challenge (fst cw') = server_challenge (fst cw) \<and>
     request_buffer (fst cw') = request_buffer (fst cw) \<and>
     pw_nas (snd cw') = pw_nas (snd cw) \<and>
     (\<exists>out. pw_wire (snd cw') = pw_wire (snd cw) @ out \<and> length out \<le> 1 \<and>
        fst ` set out \<subseteq> insert (client_socket (fst cw)) (ran (um_find (active_profiles (snd cw))))) \<and>
     (credentials (fst cw') = credentials (fst cw) \<or>
        (\<exists>lay token. credentials (fst cw') = credentials_for_token lay token (pw_nas (snd cw)))) \<and>
     (active_profiles (snd cw') = active_profiles (snd cw) \<or>
        active_profiles (snd cw') = um_set (lc_profile_id (credentials (fst cw)))
          (client_socket (fst cw)) (active_profiles (snd cw)))"

lemma harmless_refl: "harmless cw cw"
  by (simp add: harmless_def)

lemma harmless_send:
  "fd = client_socket c \<or> fd \<in> ran (um_find (active_profiles w)) \<Longrightarrow>
   harmless (c, w) (c, send_to fd data (w\<lparr>pw_generator := g\<rparr>))"
  by (auto simp: harmless_def send_to_def)

lemma handle_login_harmless:
  "handle_login (\<lambda>s. Some (digest s)) lay request (c, w) = Some cw' \<Longrightarrow> harmless (c, w) cw'"
  by (auto simp: handle_login_def harmless_def send_to_def Let_def split: bind_splits) blast

lemma handle_login_total: "\<exists>cw'. handle_login (\<lambda>s. Some (digest s)) lay request (c, w) = Some cw'"
proof -
  obtain token where "(case map_option (\<lambda>m. m + 11) (str_find request (slashed ''authtoken'') 0) of
      None \<Rightarrow> Some []
    | Some s \<Rightarrow> str_substr request s (count_to (str_find request [backslash] s) s)) = Some token"
    using token_reader_total by blast
  then show ?thesis
    by (simp add: handle_login_def Let_def profile_login_response_def case_prod_beta md5_hex_def
        request_value_eq del: str_find_0)
qed

text \<open>A login looks its token up in the tables of the NAS server.\<close>

lemma handle_login_credentials:
  assumes "handle_login md5 lay request (c, w) = Some cw'"
  shows "credentials (fst cw') =
    credentials_for_token lay (field_after (slashed ''authtoken'') backslash request) (pw_nas w)"
  using assms unfolding handle_login_def Let_def prod.case token_reader_eq
  by (auto split: bind_splits)

lemma login_message_credentials:
  assumes "is_profile_login request = Some True"
  shows "\<exists>cw'. handle_profile_message (\<lambda>s. Some (digest s)) lay request (c, w) = Some cw' \<and>
    credentials (fst cw') =
      credentials_for_token lay (field_after (slashed ''authtoken'') backslash request) (pw_nas w)"
proof -
  have "\<not> is_profile_keepalive request"
    using assms by (auto simp: is_profile_keepalive_def keepalive_message_def slashed_def)
  then have "handle_profile_message (\<lambda>s. Some (digest s)) lay request (c, w) =
      handle_login (\<lambda>s. Some (digest s)) lay request (c, w)"
    using assms by (simp add: handle_profile_message_def)
  then show ?thesis using handle_login_total handle_login_credentials by metis
qed

lemma handle_getprofile_ok:
  "\<exists>cw'. handle_getprofile request (c, w) = Some cw' \<and> harmless (c, w) cw'"
  by (simp add: handle_getprofile_def profile_getprofile_response_def request_value_eq case_prod_beta
      Let_def harmless_send)

lemma handle_updatepro_ok:
  "\<exists>cw'. handle_updatepro request (c, w) = Some cw' \<and> harmless (c, w) cw'"
  by (simp add: handle_updatepro_def profile_field_value_def request_value_eq Let_def harmless_def)

lemma handle_status_ok:
  "\<exists>cw'. handle_status request (c, w) = Some cw' \<and> harmless (c, w) cw'"
  by (simp add: handle_status_def profile_field_value_def request_value_eq harmless_def)

lemma handle_delbuddy_ok:
  "\<exists>cw'. handle_delbuddy request (c, w) = Some cw' \<and> harmless (c, w) cw'"
  by (simp add: handle_delbuddy_def profile_field_value_def request_value_eq harmless_def
      set_pending_def Let_def)

lemma buddy_message_frame [simp]:
  "pw_nas (snd (buddy_message a b m w)) = pw_nas w"
  "active_profiles (snd (buddy_message a b m w)) = active_profiles w"
  "pending_requests (snd (buddy_message a b m w)) = pending_requests w"
  "pw_wire (snd (buddy_message a b m w)) = pw_wire w"
  by (simp_all add: buddy_message_def unix_time_def)

lemma handle_addbuddy_ok:
  "\<exists>cw'. handle_addbuddy request (c, w) = Some cw' \<and> harmless (c, w) cw'"
  by (auto simp: handle_addbuddy_def profile_field_value_def request_value_eq harmless_def
      set_pending_def Let_def send_profile_message_def send_to_def ranI split: option.split)

lemma handle_authadd_ok:
  "\<exists>cw'. handle_authadd request (c, w) = Some cw' \<and> harmless (c, w) cw'"
  by (auto simp: handle_authadd_def profile_field_value_def request_value_eq harmless_def
      set_pending_def Let_def send_profile_message_def send_to_def ranI split: option.split)

lemma profile_message_ok:
  "\<exists>cw'. handle_profile_message (\<lambda>s. Some (digest s)) lay request cw = Some cw' \<and> harmless cw cw'"
proof -
  obtain c w where cw: "cw = (c, w)" by fastforce
  have k: "harmless (c, w) (c, send_to (client_socket c) data w)" for data
    by (simp add: harmless_def send_to_def)
  have l: "\<exists>cw'. handle_login (\<lambda>s. Some (digest s)) lay request (c, w) = Some cw' \<and> harmless (c, w) cw'"
    using handle_login_total handle_login_harmless by meson
  show ?thesis
    unfolding cw handle_profile_message_def profile_tests
    using k l handle_getprofile_ok handle_updatepro_ok handle_status_ok handle_addbuddy_ok
      handle_authadd_ok handle_delbuddy_ok harmless_refl
    by (simp del: handle_login_def)
qed

interpretation profile_server: message_handler
  "handle_profile_message (\<lambda>s. Some (digest s)) lay" "\<lambda>cw. um_valid (active_profiles (snd cw))"
  for digest lay
proof
  fix cw m
  show "\<exists>cw'. handle_profile_message (\<lambda>s. Some (digest s)) lay m cw = Some cw'"
    using profile_message_ok by blast
next
  fix cw cw' m
  assume "um_valid (active_profiles (snd cw))"
    and "handle_profile_message (\<lambda>s. Some (digest s)) lay m cw = Some cw'"
  then show "um_valid (active_profiles (snd cw'))"
    using profile_message_ok [of digest lay m cw] by (auto simp: harmless_def um.valid_set)
qed

subsection \<open>Opening and closing\<close>

lemma open_connection_ok:
  "\<exists>c w'. open_profile_connection fd w = Some (c, w') \<and> client_socket c = fd \<and>
     credentials c = default_credentials \<and> request_buffer c = [] \<and> pw_nas w' = pw_nas w \<and>
     active_profiles w' = active_profiles w \<and> length (server_challenge c) = 10 \<and>
     backslash \<notin> set (server_challenge c) \<and>
     pw_wire w' = pw_wire w @
       [(fd, render [''lc'', ''1'', ''challenge'', server_challenge c, ''id'', ''1'', ''final''])]"
proof -
  define c where "c = random_chars 10 upper_alphabet (pw_generator w)"
  define lc where "lc = slashed ''lc'' @ ''1'' @ slashed ''challenge'' @ fst c @ slashed ''id'' @ ''1'' @ slashed ''final''"
  have nb: "backslash \<notin> set (fst c)"
    unfolding c_def by (rule random_chars_notin) (simp_all add: upper_alphabet_def)
  have len: "length (fst c) = 10" by (simp add: c_def)
  have m: "find_sub (slashed ''challenge'') lc = Some 5"
    by (simp add: lc_def slashed_def)
  have d: "drop 16 lc = fst c @ slashed ''id'' @ ''1'' @ slashed ''final''"
    by (simp add: lc_def slashed_def)
  have "find_sub (slashed ''id'') (fst c @ slashed ''id'' @ ''1'' @ slashed ''final'') = Some (length (fst c))"
    using nb by (subst find_sub_skip) (simp_all add: slashed_def)
  moreover have "16 \<le> length lc" by (simp add: lc_def slashed_def)
  ultimately have e: "str_find lc (slashed ''id'') 16 = Some 26"
    by (simp add: str_find_def d len)
  have s: "str_substr lc 16 (Some 10) = Some (fst c)"
    using \<open>16 \<le> length lc\<close> by (simp add: str_substr_def d len)
  have r: "lc = render [''lc'', ''1'', ''challenge'', fst c, ''id'', ''1'', ''final'']"
    by (simp add: lc_def slashed_def)
  have "profile_login_challenge (pw_generator w) = (lc, snd c)"
    by (simp add: profile_login_challenge_def profile_random_text_def c_def lc_def case_prod_beta)
  then show ?thesis
    using m e s nb len by (simp add: open_profile_connection_def send_to_def r [symmetric] del: render.simps)
qed

subsection \<open>Properties of a connection\<close>



text \<open>
  C27. A buddy request to another, active profile is recorded under the target and announced to the
  target's socket with exactly one message that names the sender.
\<close>

theorem buddy_request_delivered:
  assumes "prefix (slashed ''addbuddy'') request" and "suffix final_mark request"
    and "profile_field_value request ''newprofileid'' = Some target"
    and "target \<noteq> []" and "target \<noteq> lc_profile_id (credentials c)"
    and "um_find (active_profiles w) target = Some fd"
    and "um_valid (pending_requests w)"
  shows "\<exists>w' m. handle_profile_message (\<lambda>s. Some (digest s)) lay request (c, w) = Some (c, w') \<and>
    pw_wire w' = pw_wire w @ [(fd, m)] \<and>
    prefix (slashed ''bm'' @ ''2'' @ slashed ''f'' @ lc_profile_id (credentials c) @ slashed ''date'') m \<and>
    pending_of target w' = insert (lc_profile_id (credentials c)) (pending_of target w)"
proof -
  have k: "backslash \<notin> set k \<Longrightarrow> prefix (slashed k) request \<Longrightarrow> k = ''addbuddy''" for k
    using command_of_prefix [of k request] command_of_prefix [of "''addbuddy''" request] assms(1) by simp
  have n: "\<not> prefix (slashed ''login'') request" "\<not> prefix (slashed ''getprofile'') request"
    "\<not> prefix (slashed ''updatepro'') request" "\<not> prefix (slashed ''status'') request"
    using k [of "''login''"] k [of "''getprofile''"] k [of "''updatepro''"] k [of "''status''"] by auto
  have "\<not> is_profile_keepalive request"
    using assms(1) by (auto simp: is_profile_keepalive_def keepalive_message_def slashed_def)
  then have "handle_profile_message (\<lambda>s. Some (digest s)) lay request (c, w) = handle_addbuddy request (c, w)"
    using n assms(1,2) by (simp add: handle_profile_message_def)
  then show ?thesis
    using assms(3-7)
    by (simp add: handle_addbuddy_def send_profile_message_def send_to_def set_pending_def
        pending_of_def um.find_set Let_def)
      (simp add: buddy_message_def case_prod_beta unix_time_def)
qed

theorem buddy_request_delivered_witness:
  "\<exists>w' m. handle_profile_message (\<lambda>s. Some [ucast (of_nat (length s) :: 16 word)]) insertion_order
      (render [''addbuddy'', ''sesskey'', ''1'', ''newprofileid'', ''2'', ''final''])
      (\<lparr>client_socket = 7, credentials = default_credentials, firstname = [], lastname = [], status = [],
        statstring = [], locstring = [], server_challenge = [], request_buffer = []\<rparr>,
       \<lparr>pw_nas = nas_start sample_generator, active_profiles = [(''2'', 9)], pending_requests = [],
        pw_generator = sample_generator, pw_clock = (\<lambda>_. 5), pw_clock_reads = 0, pw_wire = []\<rparr>) =
      Some (\<lparr>client_socket = 7, credentials = default_credentials, firstname = [], lastname = [], status = [],
        statstring = [], locstring = [], server_challenge = [], request_buffer = []\<rparr>, w') \<and>
    pw_wire w' = [(9, m)] \<and> pending_of ''2'' w' = {''1''}"
proof -
  let ?r = "render [''addbuddy'', ''sesskey'', ''1'', ''newprofileid'', ''2'', ''final'']"
  have "prefix (slashed ''addbuddy'') ?r" "suffix final_mark ?r"
    by (simp_all add: slashed_def final_mark_def suffix_def)
  moreover have "profile_field_value ?r ''newprofileid'' = Some ''2''"
    by (simp add: profile_field_value_def request_value_eq field_after_def slashed_def)
  ultimately show ?thesis
    using buddy_request_delivered [of ?r "''2''" "\<lparr>client_socket = 7, credentials = default_credentials,
        firstname = [], lastname = [], status = [], statstring = [], locstring = [],
        server_challenge = [], request_buffer = []\<rparr>"
        "\<lparr>pw_nas = nas_start sample_generator, active_profiles = [(''2'', 9)], pending_requests = [],
        pw_generator = sample_generator, pw_clock = (\<lambda>_. 5), pw_clock_reads = 0, pw_wire = []\<rparr>" 9
        "\<lambda>s. [ucast (of_nat (length s) :: 16 word)]" insertion_order]
    by (simp add: default_credentials_def um_find_def um_valid_def pending_of_def del: render.simps)
      blast
qed

text \<open>
  The text of a buddy request holds the escapes as backslashes and letters, not as line ends: to
  the reader of the protocol the value of \<^verbatim>\<open>msg\<close> is empty and the rest of the text is read as further
  keys and values.
\<close>

theorem buddy_text_unreadable:
  assumes "backslash \<notin> set source" and "source \<noteq> ''msg''" and "source \<noteq> ''n''"
  shows "profile_field_value (fst (buddy_message ''2'' source request_text w)) ''msg'' = Some [] \<and>
    profile_field_value (fst (buddy_message ''2'' source request_text w)) ''n'' = Some ''r''"
proof -
  let ?d = "dec_of_nat (fst (unix_time w))"
  let ?ts = "[''bm'', ''2'', ''f'', source, ''date'', ?d, ''msg'', [], ''r'', ''n'', ''r'', ''n|signed|KiWii'', ''final'']"
  have dig: "\<And>c. c \<in> set ?d \<Longrightarrow> is_digit c" using dec_of_nat_digits by blast
  have d: "backslash \<notin> set ?d" "?d \<noteq> ''msg''" "?d \<noteq> ''n''"
    using dig [of backslash] dig [of "CHR ''m''"] dig [of "CHR ''n''"]
    by (auto simp: is_digit_def digit_value_def)
  have m: "fst (buddy_message ''2'' source request_text w) = render ?ts"
    by (simp add: buddy_message_def case_prod_beta request_text_def slashed_def)
  have f: "\<forall>t \<in> set ?ts. backslash \<notin> set t" using assms d by simp
  show ?thesis
    unfolding m profile_field_value_def request_value_eq
    using f assms d by (simp add: find_slashed_render del: render.simps)
qed

theorem buddy_text_unreadable_witness:
  "profile_field_value (fst (buddy_message ''2'' ''17'' request_text
      \<lparr>pw_nas = nas_start sample_generator, active_profiles = [], pending_requests = [],
        pw_generator = sample_generator, pw_clock = (\<lambda>_. 5), pw_clock_reads = 0, pw_wire = []\<rparr>)) ''msg'' = Some []"
  using buddy_text_unreadable [of "''17''"] by simp

subsection \<open>All connections together\<close>

record profile_system =
  ps_world :: profile_world
  ps_conns :: "int \<Rightarrow> profile_conn option"

definition profile_start :: "rng \<Rightarrow> rng \<Rightarrow> (nat \<Rightarrow> nat) \<Rightarrow> profile_system" where
  "profile_start nas_generator generator clock =
     \<lparr>ps_world = \<lparr>pw_nas = nas_start nas_generator, active_profiles = [], pending_requests = [],
        pw_generator = generator, pw_clock = clock, pw_clock_reads = 0, pw_wire = []\<rparr>,
      ps_conns = Map.empty\<rparr>"

text \<open>
  One step of a thread: a connection is accepted, receives a chunk when its buffer holds no complete
  message, handles a message, or ends; or the NAS server answers a request.
\<close>

inductive profile_step :: "(string \<Rightarrow> packet) \<Rightarrow> profile_system \<Rightarrow> profile_system \<Rightarrow> bool"
  for digest where
  connect: "0 \<le> fd \<Longrightarrow> ps_conns s fd = None \<Longrightarrow>
    open_profile_connection fd (ps_world s) = Some (c, w) \<Longrightarrow>
    profile_step digest s (s\<lparr>ps_world := w, ps_conns := (ps_conns s)(fd \<mapsto> c)\<rparr>)"
| receive: "ps_conns s fd = Some c \<Longrightarrow> find_sub final_mark (request_buffer c) = None \<Longrightarrow>
    chunk \<noteq> [] \<Longrightarrow>
    profile_step digest s
      (s\<lparr>ps_conns := (ps_conns s)(fd \<mapsto> c\<lparr>request_buffer := request_buffer c @ chunk\<rparr>)\<rparr>)"
| message: "ps_conns s fd = Some c \<Longrightarrow> find_sub final_mark (request_buffer c) = Some i \<Longrightarrow>
    handle_profile_message (\<lambda>t. Some (digest t)) lay (take (i + 7) (request_buffer c))
      (c\<lparr>request_buffer := drop (i + 7) (request_buffer c)\<rparr>, ps_world s) = Some (c', w) \<Longrightarrow>
    profile_step digest s (s\<lparr>ps_world := w, ps_conns := (ps_conns s)(fd \<mapsto> c')\<rparr>)"
| hangup: "ps_conns s fd = Some c \<Longrightarrow> find_sub final_mark (request_buffer c) = None \<Longrightarrow>
    profile_step digest s (s\<lparr>ps_world := close_profile_connection c (ps_world s),
      ps_conns := (ps_conns s)(fd := None)\<rparr>)"
| nas: "nas_response_for_request now request (pw_nas (ps_world s)) = Some (response, st) \<Longrightarrow>
    now < 253402300800 \<Longrightarrow>
    profile_step digest s (s\<lparr>ps_world := (ps_world s)\<lparr>pw_nas := st\<rparr>\<rparr>)"

inductive_cases profile_stepE: "profile_step digest s s'"

text \<open>
  The invariant: a connection sits at its own socket, and its credentials are the defaults or those of
  a user together with the profile id the NAS server gave that user.
\<close>

definition authentic :: "nas_state \<Rightarrow> login_credentials \<Rightarrow> bool" where
  "authentic st cr \<longleftrightarrow>
     cr = default_credentials \<or>
     um_find (user_profile_ids st) (lc_user_id cr) = Some (lc_profile_id cr)"

definition conn_ok :: "nas_state \<Rightarrow> int \<Rightarrow> profile_conn \<Rightarrow> bool" where
  "conn_ok st fd c \<longleftrightarrow> client_socket c = fd \<and> authentic st (credentials c)"

definition system_inv :: "profile_system \<Rightarrow> bool" where
  "system_inv s \<longleftrightarrow>
     nas_wf (pw_nas (ps_world s)) \<and> um_valid (active_profiles (ps_world s)) \<and>
     (\<forall>fd c. ps_conns s fd = Some c \<longrightarrow> conn_ok (pw_nas (ps_world s)) fd c)"

lemma authentic_token:
  assumes "nas_wf st"
  shows "authentic st (credentials_for_token lay token st)"
proof (cases "find (\<lambda>(user_id, session). ls_token session = token) (walk lay (login_sessions st))")
  case None
  then show ?thesis by (simp add: authentic_def credentials_for_token_def)
next
  case (Some p)
  obtain u s where p: "p = (u, s)" by fastforce
  have "p \<in> set (login_sessions st)"
    using Some by (metis find_Some_iff nth_mem set_walk)
  then have "um_find (login_sessions st) u = Some s"
    using assms by (simp add: p nas_wf_def um.find_iff_entries)
  with Some assms show ?thesis
    by (simp add: p authentic_def credentials_for_token_def nas_wf_def logins_inv_def)
qed

lemma conn_ok_keeps: "conn_ok st fd c \<Longrightarrow> keeps_ids st st' \<Longrightarrow> conn_ok st' fd c"
  by (auto simp: conn_ok_def authentic_def keeps_ids_def)

lemma conn_ok_buffer [simp]: "conn_ok st fd (c\<lparr>request_buffer := b\<rparr>) = conn_ok st fd c"
  by (simp add: conn_ok_def)

lemma system_inv_step:
  assumes "profile_step digest s s'" "system_inv s"
  shows "system_inv s'"
  using assms
proof (induction rule: profile_step.induct)
  case (connect fd s c w)
  then show ?case
    using open_connection_ok [of fd "ps_world s"]
    by (auto simp: system_inv_def conn_ok_def [of _ fd c] authentic_def)
next
  case (receive s fd c chunk)
  then show ?case by (auto simp: system_inv_def)
next
  case (message s fd c i lay c' w)
  then have h: "harmless (c\<lparr>request_buffer := drop (i + 7) (request_buffer c)\<rparr>, ps_world s) (c', w)"
    using profile_message_ok [of digest lay "take (i + 7) (request_buffer c)"
        "(c\<lparr>request_buffer := drop (i + 7) (request_buffer c)\<rparr>, ps_world s)"] by simp
  have i: "nas_wf (pw_nas (ps_world s))" "um_valid (active_profiles (ps_world s))"
    "client_socket c = fd" "authentic (pw_nas (ps_world s)) (credentials c)"
    and others: "\<And>fd c. ps_conns s fd = Some c \<Longrightarrow> conn_ok (pw_nas (ps_world s)) fd c"
    using message(1,4) unfolding system_inv_def conn_ok_def by blast+
  have f: "client_socket c' = fd" "pw_nas w = pw_nas (ps_world s)"
    using h i(3) by (simp_all add: harmless_def)
  have "authentic (pw_nas (ps_world s)) (credentials c')"
  proof -
    from h have "credentials c' = credentials c \<or>
        (\<exists>lay token. credentials c' = credentials_for_token lay token (pw_nas (ps_world s)))"
      by (simp add: harmless_def)
    then show ?thesis using i(1,4) authentic_token by metis
  qed
  moreover have "um_valid (active_profiles w)"
  proof -
    from h have "active_profiles w = active_profiles (ps_world s) \<or>
        (\<exists>p v. active_profiles w = um_set p v (active_profiles (ps_world s)))"
      unfolding harmless_def fst_conv snd_conv by blast
    then show ?thesis using i(2) um.valid_set by metis
  qed
  ultimately have "conn_ok (pw_nas w) fd c'" "um_valid (active_profiles w)"
    using f by (simp_all add: conn_ok_def)
  then show ?case
    using i(1) f(2) others by (simp add: system_inv_def)
next
  case (hangup s fd c)
  then show ?case
    by (auto simp: system_inv_def close_profile_connection_def um.valid_erase)
next
  case (nas now request s response st)
  have "nas_wf (pw_nas (ps_world s))" using nas.prems by (simp add: system_inv_def)
  moreover have "before_year_10000 now" using nas.hyps by (simp add: before_year_10000_def)
  ultimately have "nas_wf st" and k: "keeps_ids (pw_nas (ps_world s)) st"
    using nas_request_wf nas_request_keeps_ids nas.hyps(1) by blast+
  then show ?case
    using nas.prems conn_ok_keeps [OF _ k] by (simp add: system_inv_def)
qed

lemma system_inv_start: "system_inv (profile_start g1 g2 clock)"
  by (simp add: system_inv_def profile_start_def nas_wf_start um.valid_empty)

text \<open>
  However the threads interleave: the credentials of a connection are always the defaults, or name
  a user together with the profile id the NAS server gave to this user. No message makes a connection
  anybody else.
\<close>

theorem profile_credentials_authentic:
  assumes "(profile_step digest)\<^sup>*\<^sup>* (profile_start nas_generator generator clock) s"
    and "ps_conns s fd = Some c"
  shows "client_socket c = fd \<and>
    (credentials c = default_credentials \<or>
     um_find (user_profile_ids (pw_nas (ps_world s))) (lc_user_id (credentials c)) =
       Some (lc_profile_id (credentials c)))"
proof -
  have "system_inv s"
    using assms(1) by induction (auto intro: system_inv_start system_inv_step)
  with assms(2) show ?thesis by (auto simp: system_inv_def conn_ok_def authentic_def)
qed

theorem profile_credentials_authentic_witness:
  "\<exists>s c. (profile_step (\<lambda>t. [1, 2])) \<^sup>*\<^sup>* (profile_start sample_generator sample_generator (\<lambda>_. 0)) s \<and>
     ps_conns s 4 = Some c \<and> client_socket c = 4"
proof -
  let ?s = "profile_start sample_generator sample_generator (\<lambda>_. 0)"
  obtain c w where "open_profile_connection 4 (ps_world ?s) = Some (c, w)"
    using open_connection_ok by blast
  then have "profile_step (\<lambda>t. [1, 2]) ?s (?s\<lparr>ps_world := w, ps_conns := (ps_conns ?s)(4 \<mapsto> c)\<rparr>)"
    by (intro connect) (simp_all add: profile_start_def)
  then have r: "(profile_step (\<lambda>t. [1, 2]))\<^sup>*\<^sup>* ?s (?s\<lparr>ps_world := w, ps_conns := (ps_conns ?s)(4 \<mapsto> c)\<rparr>)"
    by simp
  then show ?thesis
    using profile_credentials_authentic [OF r, of 4 c] by auto
qed

text \<open>
  A connection that never logged in, when it ends, takes the first profile off the table of active
  profiles: the connection of that profile stays open but is no longer reachable for buddy messages.
\<close>

theorem anonymous_hangup_unlists_first_profile:
  assumes "ps_conns s fd = Some c" and "credentials c = default_credentials"
    and "find_sub final_mark (request_buffer c) = None"
    and "um_valid (active_profiles (ps_world s))"
    and "um_find (active_profiles (ps_world s)) ''1'' = Some other" and "other \<noteq> fd"
  shows "\<exists>s'. profile_step digest s s' \<and> ps_conns s' other = ps_conns s other \<and>
    um_find (active_profiles (ps_world s')) ''1'' = None"
proof -
  let ?s' = "s\<lparr>ps_world := close_profile_connection c (ps_world s), ps_conns := (ps_conns s)(fd := None)\<rparr>"
  have "profile_step digest s ?s'" using assms(1,3) by (rule hangup)
  moreover have "um_find (active_profiles (ps_world ?s')) ''1'' = None"
    using assms(2,4) by (simp add: close_profile_connection_def default_credentials_def um.find_erase)
  ultimately show ?thesis using assms(6) by (intro exI [of _ ?s']) simp
qed

definition idle_conn :: "int \<Rightarrow> profile_conn" where
  "idle_conn fd = \<lparr>client_socket = fd, credentials = default_credentials, firstname = [], lastname = [],
     status = [], statstring = [], locstring = [], server_challenge = [], request_buffer = []\<rparr>"

theorem anonymous_hangup_unlists_first_profile_witness:
  "\<exists>s'. profile_step (\<lambda>t. [0])
     \<lparr>ps_world = \<lparr>pw_nas = nas_start sample_generator, active_profiles = [(''1'', 5)],
        pending_requests = [], pw_generator = sample_generator, pw_clock = (\<lambda>_. 0), pw_clock_reads = 0,
        pw_wire = []\<rparr>,
      ps_conns = [5 \<mapsto> idle_conn 5, 6 \<mapsto> idle_conn 6]\<rparr> s' \<and>
     ps_conns s' 5 = Some (idle_conn 5) \<and> um_find (active_profiles (ps_world s')) ''1'' = None"
  using anonymous_hangup_unlists_first_profile [of
      "\<lparr>ps_world = \<lparr>pw_nas = nas_start sample_generator, active_profiles = [(''1'', 5)],
        pending_requests = [], pw_generator = sample_generator, pw_clock = (\<lambda>_. 0), pw_clock_reads = 0,
        pw_wire = []\<rparr>,
      ps_conns = [5 \<mapsto> idle_conn 5, 6 \<mapsto> idle_conn 6]\<rparr>" 6 "idle_conn 6" 5 "\<lambda>t. [0]"]
  by (simp add: idle_conn_def um_find_def um_valid_def final_mark_def)

end
