(* ===== verification/Profile_Threads.thy ===== *)
theory Profile_Threads
  imports Profile_Laws Machine
begin

section \<open>The profile connections as a machine\<close>

text \<open>
  The steps of \<open>profile_step\<close> that belong to the profile server, as a function: a connection is accepted,
  receives a chunk while its buffer holds no complete message, handles the first message of its buffer,
  or ends. The output is what was written meanwhile. An event of a connection that is not at this point
  does nothing.
\<close>

datatype profile_event =
    Profile_Accept int
  | Profile_Receive int string
  | Profile_Message int "(string, login_session) layout"
  | Profile_Hangup int

definition written :: "profile_system \<Rightarrow> profile_system \<Rightarrow> (int \<times> string) list" where
  "written s s' = drop (length (pw_wire (ps_world s))) (pw_wire (ps_world s'))"

fun profile_move :: "(string \<Rightarrow> packet) \<Rightarrow> profile_event \<Rightarrow> profile_system \<Rightarrow> profile_system option" where
  "profile_move digest (Profile_Accept fd) s =
     (if fd < 0 \<or> ps_conns s fd \<noteq> None then Some s
      else do {
        (c, w) \<leftarrow> open_profile_connection fd (ps_world s);
        Some (s\<lparr>ps_world := w, ps_conns := (ps_conns s)(fd \<mapsto> c)\<rparr>)
      })"
| "profile_move digest (Profile_Receive fd chunk) s =
     Some (case ps_conns s fd of
        None \<Rightarrow> s
      | Some c \<Rightarrow>
          if chunk = [] \<or> find_sub final_mark (request_buffer c) \<noteq> None then s
          else s\<lparr>ps_conns := (ps_conns s)(fd \<mapsto> c\<lparr>request_buffer := request_buffer c @ chunk\<rparr>)\<rparr>)"
| "profile_move digest (Profile_Message fd lay) s =
     (case ps_conns s fd of
        None \<Rightarrow> Some s
      | Some c \<Rightarrow>
          (case find_sub final_mark (request_buffer c) of
             None \<Rightarrow> Some s
           | Some message_end \<Rightarrow>
               let message_size = message_end + 7
               in do {
                 (c', w) \<leftarrow> handle_profile_message (\<lambda>t. Some (digest t)) lay
                   (take message_size (request_buffer c))
                   (c\<lparr>request_buffer := drop message_size (request_buffer c)\<rparr>, ps_world s);
                 Some (s\<lparr>ps_world := w, ps_conns := (ps_conns s)(fd \<mapsto> c')\<rparr>)
               }))"
| "profile_move digest (Profile_Hangup fd) s =
     Some (case ps_conns s fd of
        None \<Rightarrow> s
      | Some c \<Rightarrow>
          if find_sub final_mark (request_buffer c) \<noteq> None then s
          else s\<lparr>ps_world := close_profile_connection c (ps_world s),
                 ps_conns := (ps_conns s)(fd := None)\<rparr>)"

definition profile_serve ::
  "(string \<Rightarrow> packet) \<Rightarrow> profile_event \<Rightarrow> profile_system \<Rightarrow> ((int \<times> string) list \<times> profile_system) option" where
  "profile_serve digest e s =
     (case profile_move digest e s of None \<Rightarrow> None | Some s' \<Rightarrow> Some (written s s', s'))"

lemma profile_move_total: "\<exists>s'. profile_move digest e s = Some s'"
proof (cases e)
  case (Profile_Accept fd)
  then show ?thesis using open_connection_ok [of fd "ps_world s"] by auto
next
  case (Profile_Message fd lay)
  show ?thesis
  proof (cases "\<exists>c i. ps_conns s fd = Some c \<and> find_sub final_mark (request_buffer c) = Some i")
    case True
    then obtain c i where c: "ps_conns s fd = Some c" "find_sub final_mark (request_buffer c) = Some i"
      by blast
    obtain c' w where "handle_profile_message (\<lambda>t. Some (digest t)) lay (take (i + 7) (request_buffer c))
        (c\<lparr>request_buffer := drop (i + 7) (request_buffer c)\<rparr>, ps_world s) = Some (c', w)"
      using profile_message_ok [of digest lay] by (metis surj_pair)
    with c show ?thesis by (simp add: Profile_Message)
  next
    case False
    then show ?thesis by (auto simp: Profile_Message split: option.split)
  qed
qed simp_all

text \<open>Every move is a step of the relation, so that what holds of its runs holds here.\<close>

lemma profile_move_step:
  "profile_move digest e s = Some s' \<Longrightarrow> s' = s \<or> profile_step digest s s'"
  by (cases e)
    (auto simp: not_less Let_def intro: profile_step.intros split: option.splits if_splits bind_splits)

lemma profile_move_nas:
  assumes "profile_move digest e s = Some s'"
  shows "pw_nas (ps_world s') = pw_nas (ps_world s)"
proof (cases e)
  case (Profile_Accept fd)
  then show ?thesis using assms open_connection_ok [of fd "ps_world s"]
    by (auto split: if_splits bind_splits)
next
  case (Profile_Message fd lay)
  have "pw_nas w = pw_nas (ps_world s)"
    if "handle_profile_message (\<lambda>t. Some (digest t)) lay m (c, ps_world s) = Some (c', w)" for m c c' w
    using profile_message_ok [of digest lay m "(c, ps_world s)"] that by (auto simp: harmless_def)
  then show ?thesis
    using assms by (auto simp: Profile_Message Let_def split: option.splits bind_splits)
qed (use assms in \<open>auto simp: close_profile_connection_def split: option.splits if_splits\<close>)

lemma profile_serve_total: "\<exists>out s'. profile_serve digest e s = Some (out, s')"
  using profile_move_total [of digest e s] by (auto simp: profile_serve_def)

lemma profile_serve_move:
  "profile_serve digest e s = Some (out, s') \<Longrightarrow> profile_move digest e s = Some s' \<and> out = written s s'"
  by (auto simp: profile_serve_def split: option.splits)

interpretation profile_connections: total_machine "profile_serve digest" system_inv "\<lambda>_. True"
  for digest
proof
  fix s e
  assume i: "system_inv s"
  obtain out s' where s': "profile_serve digest e s = Some (out, s')" using profile_serve_total by blast
  have "s' = s \<or> profile_step digest s s'"
    using profile_move_step profile_serve_move [OF s'] by blast
  then have "system_inv s'" using i system_inv_step by blast
  with s' show "\<exists>out s'. profile_serve digest e s = Some (out, s') \<and> system_inv s'" by blast
qed

text \<open>The tables of the NAS server may move on under the connections, as long as ids stay.\<close>

lemma system_inv_nas:
  assumes "system_inv s" and "nas_wf st" and "keeps_ids (pw_nas (ps_world s)) st"
  shows "system_inv (s\<lparr>ps_world := (ps_world s)\<lparr>pw_nas := st\<rparr>\<rparr>)"
  using assms(1,2) conn_ok_keeps [OF _ assms(3)] by (auto simp: system_inv_def)

text \<open>A connection whose buffer begins with a login takes the credentials of its token.\<close>

lemma login_takes_credentials:
  assumes "ps_conns s fd = Some c" and "find_sub final_mark (request_buffer c) = Some message_end"
    and "message = take (message_end + 7) (request_buffer c)" and "is_profile_login message = Some True"
  shows "\<exists>out s' c'. profile_serve digest (Profile_Message fd lay) s = Some (out, s') \<and>
    ps_conns s' fd = Some c' \<and>
    credentials c' = credentials_for_token lay (field_after (slashed ''authtoken'') backslash message)
      (pw_nas (ps_world s))"
proof -
  let ?c = "c\<lparr>request_buffer := drop (message_end + 7) (request_buffer c)\<rparr>"
  obtain cw where "handle_profile_message (\<lambda>t. Some (digest t)) lay message (?c, ps_world s) = Some cw"
    "credentials (fst cw) = credentials_for_token lay (field_after (slashed ''authtoken'') backslash message)
      (pw_nas (ps_world s))"
    using login_message_credentials [OF assms(4), of digest lay ?c "ps_world s"] by blast
  with assms(1-3) show ?thesis
    by (cases cw) (simp add: profile_serve_def)
qed

subsection \<open>The chain of tests as a table\<close>

text \<open>
  The specification of the protocol: a complete message begins with a command between backslashes, and
  a table says who handles it.
\<close>

definition message_command :: "string \<Rightarrow> string option" where
  "message_command m =
     (if suffix final_mark m \<and> take 1 m = [backslash] \<and> backslash \<in> set (tl m)
      then Some (command_of m) else None)"

definition command_table ::
  "(string \<Rightarrow> packet option) \<Rightarrow> (string, login_session) layout \<Rightarrow>
   (string \<times> (string \<Rightarrow> profile_conn \<times> profile_world \<Rightarrow> (profile_conn \<times> profile_world) option)) list" where
  "command_table md5 lay =
     [(''login'', handle_login md5 lay), (''getprofile'', handle_getprofile),
      (''updatepro'', handle_updatepro), (''status'', handle_status), (''addbuddy'', handle_addbuddy),
      (''authadd'', handle_authadd), (''delbuddy'', handle_delbuddy)]"

definition dispatch_by_command ::
  "(string \<Rightarrow> packet option) \<Rightarrow> (string, login_session) layout \<Rightarrow> string \<Rightarrow>
   profile_conn \<times> profile_world \<Rightarrow> (profile_conn \<times> profile_world) option" where
  "dispatch_by_command md5 lay m cw =
     (case message_command m of
        None \<Rightarrow> Some cw
      | Some k \<Rightarrow> (case map_of (command_table md5 lay) k of
          None \<Rightarrow> Some cw
        | Some handle \<Rightarrow> handle m cw))"

lemma message_command_iff:
  assumes "backslash \<notin> set k"
  shows "message_command m = Some k \<longleftrightarrow> prefix (slashed k) m \<and> suffix final_mark m"
proof
  assume "message_command m = Some k"
  then have m: "suffix final_mark m" "take 1 m = [backslash]" "backslash \<in> set (tl m)" "command_of m = k"
    by (auto simp: message_command_def split: if_splits)
  then obtain r where r: "m = backslash # r" by (cases m) auto
  then have "dropWhile (\<lambda>d. d \<noteq> backslash) r \<noteq> []" using m(3) by (auto simp: dropWhile_eq_Nil_conv)
  then obtain y ys where y: "dropWhile (\<lambda>d. d \<noteq> backslash) r = y # ys" by (meson list.exhaust)
  then have "y = backslash" using hd_dropWhile [of "\<lambda>d. d \<noteq> backslash" r] by simp
  then have "r = k @ backslash # ys"
    using y m(4) takeWhile_dropWhile_id [of "\<lambda>d. d \<noteq> backslash" r] by (simp add: r command_of_def)
  then show "prefix (slashed k) m \<and> suffix final_mark m"
    using m(1) by (simp add: r slashed_def prefix_def)
next
  assume "prefix (slashed k) m \<and> suffix final_mark m"
  then obtain ys where m: "m = backslash # k @ backslash # ys" "suffix final_mark m"
    by (auto simp: prefix_def slashed_def)
  then have "command_of m = k" using command_of_prefix [OF assms, of m] by (simp add: slashed_def)
  moreover have "take 1 m = [backslash]" "backslash \<in> set (tl m)" by (simp_all add: m(1))
  ultimately show "message_command m = Some k" using m(2) by (simp add: message_command_def)
qed

lemma tests_by_command:
  "is_profile_login m = Some (message_command m = Some ''login'')"
  "is_profile_getprofile m = Some (message_command m = Some ''getprofile'')"
  "is_profile_updatepro m = Some (message_command m = Some ''updatepro'')"
  "is_profile_status m = Some (message_command m = Some ''status'')"
  "is_profile_addbuddy m = Some (message_command m = Some ''addbuddy'')"
  "is_profile_authadd m = Some (message_command m = Some ''authadd'')"
  "is_profile_delbuddy m = Some (message_command m = Some ''delbuddy'')"
  by (simp_all add: message_command_iff)

text \<open>
  C15. The chain of eight tests is the table of commands: every message is handled as the table says for
  its command, a message without a command, or with one that is not in the table, is ignored, and the
  order of the tests does not matter; a keepalive, which is compared as a whole, is echoed.
\<close>

theorem profile_dispatch_by_command:
  "handle_profile_message md5 lay m cw =
     (if is_profile_keepalive m
      then Some (fst cw, send_to (client_socket (fst cw)) profile_keepalive_response (snd cw))
      else dispatch_by_command md5 lay m cw)"
  by (cases "message_command m")
    (auto simp: handle_profile_message_def dispatch_by_command_def command_table_def tests_by_command
      simp del: profile_tests)

end
