(* ===== verification/Dns.thy ===== *)
theory Dns
  imports Cpp_Stream
begin

section \<open>The DNS responder (\<^verbatim>\<open>src/gamespy_dns.cpp\<close>)\<close>

text \<open>
  \<^verbatim>\<open>dns_a_response\<close> answers every query with one A record for the advertised address. The model
  keeps the label walk over the question as a recursive function with a termination proof, the
  checked reads and writes of the packet, and the stream extraction of the address. An empty vector
  is the source's way to say ``no answer''.
\<close>

subsection \<open>The label walk\<close>

text \<open>
  The outer option is an access outside the packet; the inner one is the early \<^verbatim>\<open>return {}\<close> of the
  loop for a label that is too long or runs past the packet.
\<close>

function dns_labels :: "packet \<Rightarrow> nat \<Rightarrow> nat option option" where
  "dns_labels request q =
     (if q < length request then do {
        b \<leftarrow> rd request q;
        (if b = 0 then Some (Some q)
         else let label_length = unat b
              in if 63 < label_length \<or> length request \<le> q + label_length + 1 then Some None
                 else dns_labels request (q + label_length + 1))
      } else Some (Some q))"
  by pat_completeness auto
termination
  by (relation "measure (\<lambda>(request, q). length request - q)") auto

declare dns_labels.simps [simp del]

definition dns_address_ok :: "dotted \<Rightarrow> bool" where
  "dns_address_ok a \<longleftrightarrow>
     \<not> (failbit (after a) \<or> separator a \<noteq> CHR ''.'' \<or> 255 < octet0 a \<or> 255 < octet1 a \<or>
        255 < octet2 a \<or> 255 < octet3 a) \<and> eofbit (skip_ws (after a))"

definition dns_a_response :: "packet \<Rightarrow> string \<Rightarrow> packet option" where
  "dns_a_response request address =
     (if length request < 12 then Some []
      else do {
        walk \<leftarrow> dns_labels request 12;
        (case walk of
           None \<Rightarrow> Some []
         | Some q \<Rightarrow>
             if length request < q + 5 then Some []
             else let question_end = q + 5; a = extract_dotted address
                  in if \<not> dns_address_ok a then Some []
                     else do {
                       copied \<leftarrow> iter_range request 0 question_end;
                       response \<leftarrow> wr_all copied
                         [(2, 0x81), (3, 0x80), (4, 0x00), (5, 0x01), (6, 0x00), (7, 0x01),
                          (11, 0x00), (10, 0x00), (9, 0x00), (8, 0x00)];
                       Some (response @
                         [0xc0, 0x0c, 0x00, 0x01, 0x00, 0x01, 0x00, 0x00, 0x00, 0x3c, 0x00, 0x04,
                          ucast (octet0 a), ucast (octet1 a), ucast (octet2 a), ucast (octet3 a)])
                     })
      })"

text \<open>The address only enters through the stream extraction.\<close>

lemma dns_address_cong:
  "extract_dotted x = extract_dotted y \<Longrightarrow> dns_a_response request x = dns_a_response request y"
  unfolding dns_a_response_def by (erule ssubst) (rule refl)

subsection \<open>The walk stays inside the packet\<close>

lemma dns_labels_in:
  "q \<le> length request \<Longrightarrow>
   \<exists>w. dns_labels request q = Some w \<and> (\<forall>e. w = Some e \<longrightarrow> q \<le> e \<and> e \<le> length request)"
proof (induction request q rule: dns_labels.induct)
  case (1 request q)
  show ?case
  proof (cases "q < length request \<and> request ! q \<noteq> 0 \<and>
      \<not> (63 < unat (request ! q) \<or> length request \<le> q + unat (request ! q) + 1)")
    case True
    then have "rd request q = Some (request ! q)" by (simp add: rd_in)
    with True 1 obtain w where
      "dns_labels request (q + unat (request ! q) + 1) = Some w"
      "\<forall>e. w = Some e \<longrightarrow> q + unat (request ! q) + 1 \<le> e \<and> e \<le> length request"
      by fastforce
    with True show ?thesis
      by (intro exI [of _ w]) (auto simp: dns_labels.simps [of request q] rd_in Let_def)
  next
    case False
    with "1.prems" show ?thesis
      by (auto simp: dns_labels.simps [of request q] rd_in Let_def)
  qed
qed

lemma dns_labels_total [cpp_mem]:
  "12 \<le> length request \<Longrightarrow> \<exists>w. dns_labels request 12 = Some w"
  using dns_labels_in by blast

definition dns_header :: "u8 \<Rightarrow> u8 \<Rightarrow> u8 list" where
  "dns_header id0 id1 = [id0, id1, 0x81, 0x80, 0, 1, 0, 1, 0, 0, 0, 0]"

definition dns_answer :: "dotted \<Rightarrow> u8 list" where
  "dns_answer a =
     [0xc0, 0x0c, 0x00, 0x01, 0x00, 0x01, 0x00, 0x00, 0x00, 0x3c, 0x00, 0x04,
      ucast (octet0 a), ucast (octet1 a), ucast (octet2 a), ucast (octet3 a)]"

lemma dns_header_writes:
  assumes "12 \<le> length xs"
  shows "wr_all xs
     [(2, 0x81), (3, 0x80), (4, 0x00), (5, 0x01), (6, 0x00), (7, 0x01),
      (11, 0x00), (10, 0x00), (9, 0x00), (8, 0x00)] =
     Some (dns_header (xs ! 0) (xs ! 1) @ drop 12 xs)"
proof -
  have "length (take 12 xs) = 12" using assms by simp
  then obtain a b c d e f g h i j k l where "take 12 xs = [a, b, c, d, e, f, g, h, i, j, k, l]"
    by (auto simp: numeral_eq_Suc length_Suc_conv simp del: length_take)
  then obtain r where "xs = [a, b, c, d, e, f, g, h, i, j, k, l] @ r"
    by (metis append_take_drop_id)
  then show ?thesis by (simp add: wr_all_in dns_header_def)
qed

text \<open>Every query gets the empty answer, or the question with a fixed header and one record.\<close>

lemma dns_a_response_cases:
  assumes len: "12 \<le> length request" and walk: "dns_labels request 12 = Some (Some q)"
    and q: "q + 5 \<le> length request" and ok: "dns_address_ok (extract_dotted address)"
  shows "dns_a_response request address =
    Some (dns_header (request ! 0) (request ! 1) @ take (q - 7) (drop 12 request) @
      dns_answer (extract_dotted address))"
proof -
  have q12: "12 \<le> q" using dns_labels_in [OF len] walk by auto
  then have "wr_all (take (q + 5) request)
     [(2, 0x81), (3, 0x80), (4, 0x00), (5, 0x01), (6, 0x00), (7, 0x01),
      (11, 0x00), (10, 0x00), (9, 0x00), (8, 0x00)] =
     Some (dns_header (request ! 0) (request ! 1) @ take (q - 7) (drop 12 request))"
    using q by (subst dns_header_writes) (simp_all add: drop_take)
  then show ?thesis
    using assms by (simp add: dns_a_response_def Let_def iter_range_in dns_answer_def)
qed

subsection \<open>Names on the wire\<close>

text \<open>
  The specification side of the walk: a name is a sequence of labels, each at most 63 bytes long and
  preceded by its length, closed by a zero byte.
\<close>

definition dns_name :: "u8 list list \<Rightarrow> u8 list" where
  "dns_name labels = concat (map (\<lambda>l. word_of_nat (length l) # l) labels) @ [0]"

definition dns_label_ok :: "u8 list \<Rightarrow> bool" where
  "dns_label_ok l \<longleftrightarrow> 0 < length l \<and> length l \<le> 63"

lemma dns_name_Nil [simp]: "dns_name [] = [0]"
  by (simp add: dns_name_def)

lemma dns_name_Cons [simp]: "dns_name (l # ls) = word_of_nat (length l) # l @ dns_name ls"
  by (simp add: dns_name_def)

lemma dns_name_nonempty [simp]: "dns_name ls \<noteq> []"
  by (simp add: dns_name_def)

lemma unat_label_length:
  assumes "dns_label_ok l"
  shows "unat (word_of_nat (length l) :: u8) = length l" "(word_of_nat (length l) :: u8) \<noteq> 0"
proof -
  show u: "unat (word_of_nat (length l) :: u8) = length l"
    using assms by (simp add: dns_label_ok_def unat_of_nat)
  then show "(word_of_nat (length l) :: u8) \<noteq> 0"
    using assms by (metis dns_label_ok_def less_numeral_extra(3) unsigned_0)
qed

lemma dns_labels_name:
  "\<forall>l \<in> set labels. dns_label_ok l \<Longrightarrow>
   dns_labels (pre @ dns_name labels @ rest) (length pre) =
     Some (Some (length pre + length (dns_name labels) - 1))"
proof (induction labels arbitrary: pre)
  case Nil
  then show ?case by (simp add: dns_labels.simps rd_in nth_append)
next
  case (Cons l ls)
  let ?len = "word_of_nat (length l) :: u8"
  have ok: "dns_label_ok l" using Cons.prems by simp
  have "dns_labels (pre @ dns_name (l # ls) @ rest) (length pre) =
      dns_labels ((pre @ ?len # l) @ dns_name ls @ rest) (length (pre @ ?len # l))"
    using ok by (subst dns_labels.simps)
      (simp add: rd_in nth_append Let_def unat_label_length dns_label_ok_def add_ac)
  also have "\<dots> = Some (Some (length (pre @ ?len # l) + length (dns_name ls) - 1))"
    using Cons.prems by (intro Cons.IH) simp
  finally show ?case by simp
qed

lemma dns_address_ok_dotted:
  assumes "a \<le> 255" "b \<le> 255" "c \<le> 255" "d \<le> 255"
  shows "dns_address_ok (extract_dotted (dotted_text a b c d))"
proof -
  have "\<not> 255 < (word_of_nat n :: u32)" if "n \<le> 255" for n
    using that by (simp add: word_less_nat_alt unat_of_nat)
  then show ?thesis using assms
    by (simp add: dns_address_ok_def extract_dotted_text skip_ws_def)
qed

lemma dns_a_response_shape:
  "\<exists>response. dns_a_response request address = Some response \<and>
     (response = [] \<or>
      12 \<le> length request \<and> take 2 response = take 2 request \<and>
      33 \<le> length response \<and> length response \<le> length request + 16)"
proof (cases "12 \<le> length request")
  case False
  then show ?thesis by (simp add: dns_a_response_def)
next
  case True
  then obtain w where w: "dns_labels request 12 = Some w"
    "\<forall>e. w = Some e \<longrightarrow> 12 \<le> e \<and> e \<le> length request"
    using dns_labels_in by blast
  show ?thesis
  proof (cases "\<exists>q. w = Some q \<and> q + 5 \<le> length request \<and> dns_address_ok (extract_dotted address)")
    case False
    with True w show ?thesis
      by (cases w) (auto simp: dns_a_response_def Let_def not_le)
  next
    case ok: True
    then obtain q where q: "w = Some q" "q + 5 \<le> length request"
      "dns_address_ok (extract_dotted address)" by blast
    have "take 2 request = [request ! 0, request ! 1]"
      using True by (intro nth_equalityI) (auto simp: nth_Cons less_2_cases_iff)
    with True w q show ?thesis
      by (simp add: dns_a_response_cases dns_header_def dns_answer_def)
  qed
qed

lemma dns_a_response_total: "\<exists>response. dns_a_response request address = Some response"
  using dns_a_response_shape by blast

subsection \<open>Properties\<close>

text \<open>
  C36. The DNS responder never reads or writes outside its vectors and always returns: its answer
  is empty, or it repeats the transaction id of the query, is at least a header, a root question and
  one record long and at most 16 bytes longer than the query.
\<close>

theorem dns_a_response_safe:
  "\<exists>response. dns_a_response request address = Some response \<and>
     (response = [] \<or>
      12 \<le> length request \<and> take 2 response = take 2 request \<and>
      33 \<le> length response \<and> length response \<le> length request + 16)"
  by (rule dns_a_response_shape)

text \<open>
  C35. A well-formed query whose first question is any sequence of labels, followed by its type and
  class and by anything else, gets exactly one answer: the id, a fixed header with one question and
  one answer, the question as it came, and an A record that points back at the name and holds the four
  octets of the advertised address.
\<close>

theorem dns_answers_question:
  assumes "length header = 12" and "\<forall>l \<in> set labels. dns_label_ok l" and "length question = 4"
    and "a \<le> 255" "b \<le> 255" "c \<le> 255" "d \<le> 255"
  shows "dns_a_response (header @ dns_name labels @ question @ extra) (dotted_text a b c d) =
    Some (dns_header (header ! 0) (header ! 1) @ dns_name labels @ question @
      [0xc0, 0x0c, 0, 1, 0, 1, 0, 0, 0, 0x3c, 0, 4,
       word_of_nat a, word_of_nat b, word_of_nat c, word_of_nat d])"
proof -
  let ?r = "header @ dns_name labels @ question @ extra"
  have pos: "0 < length (dns_name labels)" by simp
  have walk: "dns_labels ?r 12 = Some (Some (12 + length (dns_name labels) - 1))"
    using dns_labels_name [OF assms(2), of header "question @ extra"] assms(1) by simp
  have "dns_a_response ?r (dotted_text a b c d) = Some (dns_header (?r ! 0) (?r ! 1) @
      take (12 + length (dns_name labels) - 1 - 7) (drop 12 ?r) @
      dns_answer (extract_dotted (dotted_text a b c d)))"
    using assms pos walk
    by (intro dns_a_response_cases) (simp_all add: dns_address_ok_dotted)
  moreover have "12 + length (dns_name labels) - 1 - 7 = length (dns_name labels) + 4"
    using pos by simp
  moreover have "(ucast (word_of_nat n :: u32) :: u8) = word_of_nat n" if "n \<le> 255" for n
    using that by (simp add: unsigned_of_nat take_bit_eq_mod)
  ultimately show ?thesis using assms
    by (simp add: nth_append dns_answer_def extract_dotted_text)
qed

theorem dns_answers_question_witness:
  "dns_a_response ([0x12, 0x34, 1, 0, 0, 1, 0, 0, 0, 0, 0, 0] @ dns_name [[110, 97, 115]] @
      [0, 1, 0, 1] @ []) (dotted_text 192 168 1 42) =
    Some (dns_header 0x12 0x34 @ dns_name [[110, 97, 115]] @ [0, 1, 0, 1] @
      [0xc0, 0x0c, 0, 1, 0, 1, 0, 0, 0, 0x3c, 0, 4, 192, 168, 1, 42])"
  using dns_answers_question [of "[0x12, 0x34, 1, 0, 0, 1, 0, 0, 0, 0, 0, 0]" "[[110, 97, 115]]"
      "[0, 1, 0, 1]" 192 168 1 42 "[]"]
  by (simp add: dns_label_ok_def)

text \<open>
  Only the last of the three separators of the advertised address is checked: any two
  characters that are neither digits nor blanks may stand in the place of the first two dots, and
  every query is answered as if they were dots.
\<close>

theorem dns_ignores_first_separators:
  assumes "\<not> is_digit s0" "\<not> is_space s0" "\<not> is_digit s1" "\<not> is_space s1"
    and "a \<le> 255" "b \<le> 255" "c \<le> 255" "d \<le> 255"
  shows "dns_a_response request
      (dec_of_nat a @ [s0] @ dec_of_nat b @ [s1] @ dec_of_nat c @ ''.'' @ dec_of_nat d) =
    dns_a_response request (dotted_text a b c d)"
proof -
  have "extract_dotted
      (dec_of_nat a @ s0 # dec_of_nat b @ s1 # dec_of_nat c @ CHR ''.'' # dec_of_nat d) =
    extract_dotted (dotted_text a b c d)"
    using assms by (intro extract_dotted_seps) simp_all
  then show ?thesis by (intro dns_address_cong) simp
qed

theorem dns_ignores_first_separators_witness:
  "dns_a_response [0x12, 0x34, 1, 0, 0, 1, 0, 0, 0, 0, 0, 0, 1, 110, 0, 0, 1, 0, 1]
     (dec_of_nat 1 @ ''x'' @ dec_of_nat 2 @ ''/'' @ dec_of_nat 3 @ ''.'' @ dec_of_nat 4) =
   dns_a_response [0x12, 0x34, 1, 0, 0, 1, 0, 0, 0, 0, 0, 0, 1, 110, 0, 0, 1, 0, 1]
     (dotted_text 1 2 3 4)"
  using dns_ignores_first_separators [of "CHR ''x''" "CHR ''/''" 1 2 3 4
      "[0x12, 0x34, 1, 0, 0, 1, 0, 0, 0, 0, 0, 0, 1, 110, 0, 0, 1, 0, 1]"]
  by (simp add: is_space_def is_digit_def digit_value_def)

text \<open>
  An advertised address that does not begin with a number, such as a host name, makes the
  responder answer no query at all, well formed or not.
\<close>

theorem dns_hostname_unanswered:
  assumes "address = c # rest" and "\<not> is_space c" and "\<not> is_digit c" and "c \<noteq> CHR ''-''" and "c \<noteq> CHR ''+''"
  shows "dns_a_response request address = Some []"
proof -
  have r: "read_uint 0 (istringstream address) =
      (0, \<lparr>unread = address, failbit = True, eofbit = False\<rparr>)"
    using assms by (simp add: read_uint_def istringstream_def sentry_def Let_def)
  have c: "read_char d \<lparr>unread = u, failbit = True, eofbit = e\<rparr> = (d, \<lparr>unread = u, failbit = True, eofbit = e\<rparr>)"
    and n: "read_uint x \<lparr>unread = u, failbit = True, eofbit = e\<rparr> = (x, \<lparr>unread = u, failbit = True, eofbit = e\<rparr>)"
    for d u e x by (simp_all add: read_char_def read_uint_def sentry_def)
  have "failbit (after (extract_dotted address))"
    by (simp add: extract_dotted_def r c n Let_def)
  then have "\<not> dns_address_ok (extract_dotted address)" by (simp add: dns_address_ok_def)
  moreover obtain response where "dns_a_response request address = Some response"
    using dns_a_response_total by blast
  ultimately show ?thesis
    by (auto simp: dns_a_response_def Let_def split: if_splits option.splits bind_splits)
qed

theorem dns_hostname_unanswered_witness:
  "dns_a_response [0, 1, 1, 0, 0, 1, 0, 0, 0, 0, 0, 0, 1, 0x61, 0, 0, 1, 0, 1] ''kiwii.example'' = Some []"
  by (rule dns_hostname_unanswered [of _ "CHR ''k''" "''iwii.example''"])
    (simp_all add: is_space_def is_digit_def digit_value_def)

end
