(* ===== verification/Server_Dns.thy ===== *)
theory Server_Dns
  imports Dns Net_Address
begin

section \<open>The DNS sockets (\<^verbatim>\<open>handle_dns_packet\<close> and \<^verbatim>\<open>handle_dns_tcp_connection\<close> of \<^verbatim>\<open>src/server_discovery.cpp\<close>)\<close>

definition handle_dns_packet :: "string \<Rightarrow> datagram \<Rightarrow> sent option" where
  "handle_dns_packet address incoming =
     (case recvfrom 512 incoming of
        None \<Rightarrow> Some []
      | Some (request, client_address) \<Rightarrow>
          if length request < 12 then Some []
          else do {
            response \<leftarrow> dns_a_response request address;
            Some (if response = [] then [] else [(client_address, response)])
          })"

text \<open>
  Over TCP a query comes with its length in two bytes. The stream is what the client sends before it
  stops; the result is the list of texts handed to \<^verbatim>\<open>send_all\<close>.
\<close>

definition handle_dns_tcp_connection :: "string \<Rightarrow> packet \<Rightarrow> packet list option" where
  "handle_dns_tcp_connection address incoming =
     (let (length_bytes, incoming') = recv_waitall 2 incoming
      in if length length_bytes \<noteq> 2 then Some []
         else do {
           b0 \<leftarrow> rd length_bytes 0;
           b1 \<leftarrow> rd length_bytes 1;
           let request_size = unat b0 * 256 + unat b1;
           (if request_size = 0 \<or> 4096 < request_size then Some []
            else
              let (request, rest) = recv_waitall request_size incoming'
              in if length request \<noteq> request_size then Some []
                 else do {
                   response \<leftarrow> dns_a_response request address;
                   Some (if response \<noteq> [] \<and> length response \<le> 65535
                     then [[word_of_nat (length response div 256 mod 256),
                            word_of_nat (length response mod 256)], response]
                     else [])
                 })
         })"

text \<open>
  The DNS sockets never fail: a datagram gets at most one answer, to its sender, and over TCP an
  answer goes out as its length in two bytes followed by its bytes, both the answer of the responder
  to what was received.
\<close>

theorem dns_sockets_answer:
  "(\<exists>out. handle_dns_packet address incoming = Some out \<and>
     (out = [] \<or> (\<exists>request client response. recvfrom 512 incoming = Some (request, client) \<and>
        dns_a_response request address = Some response \<and> response \<noteq> [] \<and>
        out = [(client, response)]))) \<and>
   (\<exists>out. handle_dns_tcp_connection address stream = Some out \<and>
     (out = [] \<or> (\<exists>hi lo request rest response. stream = hi # lo # request @ rest \<and>
        length request = unat hi * 256 + unat lo \<and>
        dns_a_response request address = Some response \<and>
        (\<exists>a b. out = [[a, b], response] \<and> unat a * 256 + unat b = length response))))"
proof (intro conjI)
  show "\<exists>out. handle_dns_packet address incoming = Some out \<and>
     (out = [] \<or> (\<exists>request client response. recvfrom 512 incoming = Some (request, client) \<and>
        dns_a_response request address = Some response \<and> response \<noteq> [] \<and>
        out = [(client, response)]))"
  proof (cases "recvfrom 512 incoming")
    case None
    then show ?thesis by (simp add: handle_dns_packet_def)
  next
    case (Some p)
    obtain request client where p: "p = (request, client)" by fastforce
    obtain response where "dns_a_response request address = Some response"
      using dns_a_response_total by blast
    with Some p show ?thesis by (simp add: handle_dns_packet_def)
  qed
next
  show "\<exists>out. handle_dns_tcp_connection address stream = Some out \<and>
     (out = [] \<or> (\<exists>hi lo request rest response. stream = hi # lo # request @ rest \<and>
        length request = unat hi * 256 + unat lo \<and>
        dns_a_response request address = Some response \<and>
        (\<exists>a b. out = [[a, b], response] \<and> unat a * 256 + unat b = length response)))"
  proof (cases "\<exists>hi lo s. stream = hi # lo # s")
    case False
    then have "length stream < 2"
      by (cases stream; cases "tl stream") auto
    then show ?thesis by (simp add: handle_dns_tcp_connection_def recv_waitall_def)
  next
    case True
    then obtain hi lo s where s: "stream = hi # lo # s" by blast
    define n where "n = unat hi * 256 + unat lo"
    obtain response where r: "dns_a_response (take n s) address = Some response"
      using dns_a_response_total by blast
    have e: "handle_dns_tcp_connection address stream = Some
        (if n = 0 \<or> 4096 < n \<or> length (take n s) \<noteq> n \<or> response = [] \<or> 65535 < length response then []
         else [[word_of_nat (length response div 256 mod 256), word_of_nat (length response mod 256)],
               response])"
      using r by (auto simp: handle_dns_tcp_connection_def recv_waitall_def s rd_def n_def
          numeral_2_eq_2 Let_def case_prod_beta simp del: length_take)
    have u: "unat (word_of_nat (length response div 256 mod 256) :: u8) * 256 +
        unat (word_of_nat (length response mod 256) :: u8) = length response"
      if "length response \<le> 65535"
      using that by (simp add: unat_of_nat)
    show ?thesis
    proof (cases "n = 0 \<or> 4096 < n \<or> length (take n s) \<noteq> n \<or> response = [] \<or> 65535 < length response")
      case True
      then show ?thesis unfolding e by simp
    next
      case False
      then have "handle_dns_tcp_connection address stream = Some
          [[word_of_nat (length response div 256 mod 256), word_of_nat (length response mod 256)], response]"
        unfolding e by auto
      moreover have "stream = hi # lo # take n s @ drop n s" "length (take n s) = unat hi * 256 + unat lo"
        using False by (simp_all add: s n_def)
      ultimately show ?thesis using r u False by (metis linorder_not_less)
    qed
  qed
qed

end
