(* ===== verification/Server_Gamestats.thy ===== *)
theory Server_Gamestats
  imports Message_Stream Random_Text
begin

section \<open>The gamestats connection (\<^verbatim>\<open>src/server_gamestats.cpp\<close>)\<close>

text \<open>
  Messages are encrypted up to their end mark by exclusive or with a repeated key. The connection
  greets with an encrypted challenge and answers keepalives. Whether the greeting could be sent is a
  parameter; the result of sending an answer is ignored by the code and here.
\<close>

definition crypt_key :: string where
  "crypt_key = ''GameSpy3D''"

definition gamestats_challenge :: "rng \<Rightarrow> string \<times> rng" where
  "gamestats_challenge g = random_chars 10 upper_alphabet g"

definition char_xor :: "char \<Rightarrow> char \<Rightarrow> char" where
  "char_xor c k = byte_char (char_byte c XOR char_byte k)"

definition gamespy_message :: "string \<Rightarrow> string" where
  "gamespy_message message =
     (let encrypted_size = (case str_find message final_mark 0 of
            None \<Rightarrow> length message | Some final_start \<Rightarrow> final_start)
      in fold (\<lambda>index output.
           output[index := char_xor (output ! index) (crypt_key ! (index mod length crypt_key))])
         [0..<encrypted_size] message)"

definition stats_keepalive :: string where
  "stats_keepalive = slashed ''ka'' @ slashed ''final''"

text \<open>\<^verbatim>\<open>send_gamespy_message\<close> and \<^verbatim>\<open>handle_message\<close>; the state is what has been sent.\<close>

definition send_gamespy_message :: "string \<Rightarrow> string list \<Rightarrow> string list" where
  "send_gamespy_message message sent = (let encrypted = gamespy_message message in sent @ [encrypted])"

declare send_gamespy_message_def [simp]

definition handle_stats_message :: "string \<Rightarrow> string list \<Rightarrow> string list option" where
  "handle_stats_message encrypted_message sent =
     (let message = gamespy_message encrypted_message
      in Some (if message = stats_keepalive then send_gamespy_message stats_keepalive sent else sent))"

definition stats_greeting :: "string \<Rightarrow> string" where
  "stats_greeting challenge =
     slashed ''lc'' @ ''1'' @ slashed ''challenge'' @ challenge @ slashed ''id'' @ ''1'' @ slashed ''final''"

definition handle_gamestats_connection ::
  "int \<Rightarrow> bool \<Rightarrow> string list \<Rightarrow> rng \<Rightarrow> (string list \<times> rng) option" where
  "handle_gamestats_connection fd greeting_sent chunks g =
     (if fd < 0 then Some ([], g)
      else
        let (challenge, g') = gamestats_challenge g;
            greeted = send_gamespy_message (stats_greeting challenge) []
        in if \<not> greeting_sent then Some (greeted, g')
           else do {
             (rest, sent) \<leftarrow> serve_chunks handle_stats_message chunks [] greeted;
             Some (sent, g')
           })"

interpretation gamestats: message_handler handle_stats_message "\<lambda>sent. True"
  by unfold_locales (simp_all add: handle_stats_message_def Let_def)

subsection \<open>The cipher\<close>

fun xor_from :: "nat \<Rightarrow> string \<Rightarrow> string" where
  "xor_from i [] = []"
| "xor_from i (c # cs) = char_xor c (crypt_key ! (i mod 9)) # xor_from (Suc i) cs"

lemma length_crypt_key [simp]: "length crypt_key = 9"
  by (simp add: crypt_key_def)

lemma length_xor_from [simp]: "length (xor_from i s) = length s"
  by (induction s arbitrary: i) simp_all

lemma nth_xor_from:
  "j < length s \<Longrightarrow> xor_from i s ! j = char_xor (s ! j) (crypt_key ! ((i + j) mod 9))"
  by (induction s arbitrary: i j) (auto simp: nth_Cons split: nat.splits)

lemma char_xor_twice [simp]: "char_xor (char_xor c k) k = c"
  by (simp add: char_xor_def xor.assoc)

lemma xor_from_twice [simp]: "xor_from i (xor_from i s) = s"
  by (induction s arbitrary: i) simp_all

lemma xor_from_snoc: "xor_from i (s @ [c]) = xor_from i s @ [char_xor c (crypt_key ! ((i + length s) mod 9))]"
  by (induction s arbitrary: i) simp_all

lemma xor_loop:
  "n \<le> length m \<Longrightarrow>
   fold (\<lambda>index output. output[index := char_xor (output ! index) (crypt_key ! (index mod 9))]) [0..<n] m =
     xor_from 0 (take n m) @ drop n m"
proof (induction n)
  case 0
  then show ?case by simp
next
  case (Suc n)
  then have e: "drop n m = m ! n # drop (Suc n) m" by (simp add: Cons_nth_drop_Suc)
  have t: "take (Suc n) m = take n m @ [m ! n]" using Suc.prems by (simp add: take_Suc_conv_app_nth)
  show ?case using Suc e by (simp add: nth_append list_update_append t xor_from_snoc)
qed

definition mark_at :: "string \<Rightarrow> nat" where
  "mark_at m = (case find_sub final_mark m of None \<Rightarrow> length m | Some i \<Rightarrow> i)"

lemma mark_at_le: "mark_at m \<le> length m"
  by (auto simp: mark_at_def split: option.split dest: find_sub_bound)

lemma gamespy_message_eq:
  "gamespy_message m = xor_from 0 (take (mark_at m) m) @ drop (mark_at m) m"
  using xor_loop [OF mark_at_le, of m]
  by (simp add: gamespy_message_def mark_at_def Let_def)

text \<open>
  The end mark cannot appear in the encryption of a text without control characters: at every
  position of the key, one of its first six characters would decrypt to one.
\<close>

definition plain_text :: "string \<Rightarrow> bool" where
  "plain_text s \<longleftrightarrow> list_all (\<lambda>c. 0x20 \<le> char_byte c) s"

definition control_at :: "nat \<Rightarrow> nat" where
  "control_at p = (if p = 3 then 2 else if p = 6 then 4 else if p = 7 then 3 else if p = 8 then 0 else 1)"

lemma char_byte_xor: "char_byte (char_xor c k) = char_byte c XOR char_byte k"
  by (simp add: char_xor_def)

lemma control_decrypted:
  assumes "p < 9"
  shows "control_at p < 6 \<and>
    char_byte (char_xor (final_mark ! control_at p) (crypt_key ! ((p + control_at p) mod 9))) < 0x20"
proof -
  have "p = 0 \<or> p = 1 \<or> p = 2 \<or> p = 3 \<or> p = 4 \<or> p = 5 \<or> p = 6 \<or> p = 7 \<or> p = 8"
    using assms by arith
  then show ?thesis
    by (elim disjE; simp add: control_at_def final_mark_def crypt_key_def char_byte_xor;
      simp add: char_byte_def)
qed

lemma mark_kept:
  assumes i: "find_sub final_mark m = Some i" and p: "plain_text (take i m)"
  shows "find_sub final_mark (gamespy_message m) = Some i"
proof -
  let ?e = "gamespy_message m"
  have b: "i + 7 \<le> length m" using find_sub_bound [OF i] by simp
  have e: "?e = xor_from 0 (take i m) @ drop i m" using i by (simp add: gamespy_message_eq mark_at_def)
  have "prefix final_mark (drop i m)" using i by (simp add: find_sub_Some_iff)
  moreover have "drop i ?e = drop i m" using b by (simp add: e)
  moreover have "\<not> prefix final_mark (drop j ?e)" if j: "j < i" for j
  proof
    assume "prefix final_mark (drop j ?e)"
    then obtain r where r: "drop j ?e = final_mark @ r" by (auto simp: prefix_def)
    have l: "j + 7 \<le> length ?e" using arg_cong [OF r, of length] j b by (simp add: e)
    have n: "?e ! (j + t) = final_mark ! t" if "t < 7" for t
      using arg_cong [OF r, of "\<lambda>x. x ! t"] that l by (simp add: nth_append)
    have "j + 6 \<le> i"
    proof (rule ccontr)
      assume "\<not> j + 6 \<le> i"
      then have t: "i - j < 6" "0 < i - j" using j by simp_all
      have "?e ! i = final_mark ! 0"
        using \<open>prefix final_mark (drop i m)\<close> b by (auto simp: e nth_append prefix_def hd_drop_conv_nth [symmetric] final_mark_def)
      then have "final_mark ! (i - j) = final_mark ! 0" using n [of "i - j"] t j by simp
      moreover have "i - j = 1 \<or> i - j = 2 \<or> i - j = 3 \<or> i - j = 4 \<or> i - j = 5" using t by arith
      ultimately show False by (elim disjE) (simp_all add: final_mark_def)
    qed
    define t where "t = control_at (j mod 9)"
    have t: "t < 6" and c: "char_byte (char_xor (final_mark ! t) (crypt_key ! ((j mod 9 + t) mod 9))) < 0x20"
      using control_decrypted [of "j mod 9"] by (simp_all add: t_def)
    have jt: "j + t < i" using t \<open>j + 6 \<le> i\<close> by simp
    have "final_mark ! t = char_xor (m ! (j + t)) (crypt_key ! ((j + t) mod 9))"
      using n [of t] t jt b by (simp add: e nth_append nth_xor_from)
    then have "m ! (j + t) = char_xor (final_mark ! t) (crypt_key ! ((j mod 9 + t) mod 9))"
      by (simp add: mod_add_left_eq)
    moreover have "m ! (j + t) \<in> set (take i m)" using jt b by (auto simp: in_set_conv_nth)
    ultimately show False using p c by (auto simp: plain_text_def list_all_iff)
  qed
  ultimately show ?thesis using b by (simp add: find_sub_Some_iff e)
qed

lemma gamespy_message_twice:
  assumes "find_sub final_mark m = Some i" and "plain_text (take i m)"
  shows "gamespy_message (gamespy_message m) = m"
proof -
  have "mark_at m = i" "mark_at (gamespy_message m) = i" "i \<le> length m"
    using assms mark_kept [OF assms] find_sub_bound [OF assms(1)] by (simp_all add: mark_at_def)
  then show ?thesis by (simp add: gamespy_message_eq [of "gamespy_message m"]) (simp add: gamespy_message_eq)
qed

lemma plain_alphabet: "set s \<subseteq> set upper_alphabet \<Longrightarrow> plain_text s \<and> backslash \<notin> set s \<and> CHR ''f'' \<notin> set s"
proof -
  have "list_all (\<lambda>c. 0x20 \<le> char_byte c \<and> c \<noteq> backslash \<and> c \<noteq> CHR ''f'') upper_alphabet"
    by (simp add: upper_alphabet_def char_byte_def)
  then show "set s \<subseteq> set upper_alphabet \<Longrightarrow> plain_text s \<and> backslash \<notin> set s \<and> CHR ''f'' \<notin> set s"
    by (auto simp: plain_text_def list_all_iff)
qed

lemma greeting_mark:
  assumes "backslash \<notin> set challenge" and "CHR ''f'' \<notin> set challenge"
  shows "find_sub final_mark (stats_greeting challenge) = Some (21 + length challenge)"
proof -
  have "find_sub final_mark (challenge @ slashed ''id'' @ ''1'' @ slashed ''final'') =
      map_option (\<lambda>i. length challenge + i) (find_sub final_mark (slashed ''id'' @ ''1'' @ slashed ''final''))"
    using assms(1) by (intro find_sub_skip) (simp_all add: final_mark_def)
  also have "find_sub final_mark (slashed ''id'' @ ''1'' @ slashed ''final'') = Some 5" by code_simp
  finally have f: "find_sub final_mark (challenge @ slashed ''id'' @ ''1'' @ slashed ''final'') =
      Some (length challenge + 5)" by simp
  show ?thesis unfolding stats_greeting_def slashed_def final_mark_def
    using f [unfolded slashed_def final_mark_def] assms(2)
    by (cases challenge) (simp_all add: numeral_eq_Suc)
qed

text \<open>The answers of a connection.\<close>

lemma handle_stats_all:
  "handle_all handle_stats_message ms sent = Some (sent @
     map (\<lambda>m. gamespy_message stats_keepalive) (filter (\<lambda>m. gamespy_message m = stats_keepalive) ms))"
  by (induction ms arbitrary: sent) (simp_all add: handle_stats_message_def Let_def)

subsection \<open>Properties\<close>

text \<open>
  The cipher is its own inverse on every message whose text before the end mark has no control
  character, and it leaves the end mark where it is, so that the receiver cuts the stream at the same
  place.
\<close>

theorem gamestats_cipher_roundtrip:
  assumes "find_sub final_mark m = Some i" and "plain_text (take i m)"
  shows "gamespy_message (gamespy_message m) = m \<and>
    find_sub final_mark (gamespy_message m) = Some i \<and> length (gamespy_message m) = length m"
  using gamespy_message_twice [OF assms] mark_kept [OF assms] mark_at_le [of m]
  by (simp add: gamespy_message_eq [of m])

theorem gamestats_cipher_roundtrip_witness:
  "gamespy_message (gamespy_message stats_keepalive) = stats_keepalive"
proof -
  have "find_sub final_mark stats_keepalive = Some 4" by code_simp
  moreover have "plain_text (take 4 stats_keepalive)"
    by (simp add: stats_keepalive_def slashed_def plain_text_def char_byte_def)
  ultimately show ?thesis using gamestats_cipher_roundtrip by blast
qed

text \<open>
  C34. A gamestats connection greets with a text that decrypts to a challenge of ten letters, and then,
  however the stream is cut, answers exactly the messages that decrypt to a keepalive, each with an
  encrypted keepalive.
\<close>

theorem gamestats_connection_behaviour:
  assumes "0 \<le> fd"
  shows "\<exists>challenge greeting g'. length challenge = 10 \<and> set challenge \<subseteq> set upper_alphabet \<and>
    gamespy_message greeting = stats_greeting challenge \<and>
    handle_gamestats_connection fd True chunks g = Some (greeting #
      map (\<lambda>m. gamespy_message stats_keepalive)
        (filter (\<lambda>m. gamespy_message m = stats_keepalive) (messages_of (concat chunks))), g')"
proof -
  define challenge where "challenge = fst (gamestats_challenge g)"
  have c: "length challenge = 10" "set challenge \<subseteq> set upper_alphabet"
    using random_chars_set [of upper_alphabet 10 g]
    by (simp_all add: challenge_def gamestats_challenge_def)
  define front where "front = slashed ''lc'' @ ''1'' @ slashed ''challenge'' @ challenge @ slashed ''id'' @ ''1''"
  have "length front = 21 + length challenge" by (simp add: front_def slashed_def)
  moreover have "stats_greeting challenge = front @ slashed ''final''"
    by (simp add: stats_greeting_def front_def)
  ultimately have "take (21 + length challenge) (stats_greeting challenge) = front" by simp
  then have "plain_text (take (21 + length challenge) (stats_greeting challenge))"
    using plain_alphabet [OF c(2)] by (simp add: plain_text_def front_def slashed_def char_byte_def)
  then have g: "gamespy_message (gamespy_message (stats_greeting challenge)) = stats_greeting challenge"
    using gamespy_message_twice greeting_mark plain_alphabet [OF c(2)] by blast
  obtain st where st: "serve_chunks handle_stats_message chunks []
      [gamespy_message (stats_greeting challenge)] = Some (remainder_of (concat chunks), st)"
    "handle_all handle_stats_message (messages_of (concat chunks))
      [gamespy_message (stats_greeting challenge)] = Some st"
    using gamestats.serve_total by blast
  then have "handle_gamestats_connection fd True chunks g = Some
      (gamespy_message (stats_greeting challenge) # map (\<lambda>m. gamespy_message stats_keepalive)
        (filter (\<lambda>m. gamespy_message m = stats_keepalive) (messages_of (concat chunks))),
       snd (gamestats_challenge g))"
    using assms by (simp add: handle_gamestats_connection_def handle_stats_all case_prod_beta
        challenge_def Let_def)
  with c g show ?thesis by blast
qed

theorem gamestats_connection_behaviour_witness:
  "\<exists>greeting g'. handle_gamestats_connection 4 True [] \<lparr>draws = (\<lambda>n. n), drawn = 0\<rparr> = Some ([greeting], g')"
proof -
  have "messages_of [] = []" by code_simp
  then show ?thesis
    using gamestats_connection_behaviour [of 4 "[]" "\<lparr>draws = (\<lambda>n. n), drawn = 0\<rparr>"] by auto
qed

end
