(* ===== verification/Server_Relay.thy ===== *)
theory Server_Relay
  imports Cpp_Number
begin

section \<open>The relay (\<^verbatim>\<open>src/server_discovery.cpp\<close>) and its TLS context (\<^verbatim>\<open>src/server_sockets.cpp\<close>)\<close>

text \<open>
  OpenSSL is not modelled: whether each call succeeds is a parameter. What is modelled is who owns
  what. An object is \<^const>\<open>Some\<close> name or the null pointer; the list of live objects holds what has been
  made and not freed; freeing an object that is not live is an error, the outer \<^const>\<open>None\<close>.
\<close>

datatype tls_object = Context | Key_Context | Key | Certificate | Connection

definition tls_new :: "bool \<Rightarrow> tls_object \<Rightarrow> tls_object list \<Rightarrow> tls_object option \<times> tls_object list" where
  "tls_new ok x live = (if ok then (Some x, x # live) else (None, live))"

definition tls_free :: "tls_object option \<Rightarrow> tls_object list \<Rightarrow> tls_object list option" where
  "tls_free p live =
     (case p of
        None \<Rightarrow> Some live
      | Some x \<Rightarrow> if x \<in> set live then Some (remove1 x live) else None)"

subsection \<open>The TLS context\<close>

record context_calls =
  ctx_new :: bool
  key_ctx_new :: bool
  x509_new :: bool
  keygen_init :: bool
  set_keygen_bits :: bool
  keygen :: bool
  x509_sign :: bool
  use_certificate :: bool
  use_private_key :: bool

text \<open>The result and the objects that are live when the function returns.\<close>

definition create_relay_ssl_context ::
  "context_calls \<Rightarrow> tls_object list \<Rightarrow> (tls_object option \<times> tls_object list) option" where
  "create_relay_ssl_context calls live =
     (let (ctx, live1) = tls_new (ctx_new calls) Context live
      in if ctx = None then Some (None, live1)
         else
           let (key_context, live2) = tls_new (key_ctx_new calls) Key_Context live1;
               (certificate, live3) = tls_new (x509_new calls) Certificate live2
           in if key_context = None \<or> certificate = None \<or> \<not> keygen_init calls \<or>
                 \<not> set_keygen_bits calls \<or> \<not> keygen calls
              then do {
                l1 \<leftarrow> tls_free key_context live3;
                l2 \<leftarrow> tls_free None l1;
                l3 \<leftarrow> tls_free certificate l2;
                l4 \<leftarrow> tls_free ctx l3;
                Some (None, l4)
              }
              else
                let (key, live4) = tls_new True Key live3
                in do {
                  live5 \<leftarrow> tls_free key_context live4;
                  (if \<not> x509_sign calls \<or> \<not> use_certificate calls \<or> \<not> use_private_key calls
                   then do {
                     l1 \<leftarrow> tls_free certificate live5;
                     l2 \<leftarrow> tls_free key l1;
                     l3 \<leftarrow> tls_free ctx l2;
                     Some (None, l3)
                   }
                   else do {
                     l1 \<leftarrow> tls_free certificate live5;
                     l2 \<leftarrow> tls_free key l1;
                     Some (ctx, l2)
                   })
                })"

subsection \<open>A relay connection\<close>

text \<open>What the peek, the handshake and the read deliver.\<close>

record relay_calls =
  peeked :: packet
  ssl_new :: bool
  ssl_set_fd :: bool
  ssl_accept :: bool
  received :: packet

definition relay_hex :: "packet \<Rightarrow> string" where
  "relay_hex packet =
     concat (map (\<lambda>byte. put_padded 2 (CHR ''0'') (hex_of_nat hex_lower (unat byte))) packet)"

definition relay_log :: "packet \<Rightarrow> string list" where
  "relay_log packet =
     (if packet = [] then []
      else [''GameSpy relay request ('' @ dec_of_nat (length packet) @ '' bytes): '' @
        relay_hex packet @ [CHR 0x0A]])"

definition relay_raw_line :: string where
  "relay_raw_line = ''GameSpy relay raw connection accepted'' @ [CHR 0x0A]"

definition relay_failed_line :: string where
  "relay_failed_line = ''GameSpy relay TLS handshake failed'' @ [CHR 0x0A]"

record relay_result =
  closed :: "int list"
  live_objects :: "tls_object list"
  logged :: "string list"

definition handle_relay_connection ::
  "int \<Rightarrow> relay_calls \<Rightarrow> tls_object list \<Rightarrow> relay_result option" where
  "handle_relay_connection client_socket calls live =
     (if client_socket < 0 then Some \<lparr>closed = [], live_objects = live, logged = []\<rparr>
      else case peeked calls of
        [] \<Rightarrow> Some \<lparr>closed = [client_socket], live_objects = live, logged = []\<rparr>
      | first_byte # _ \<Rightarrow>
          if first_byte = 0x16
          then
            let (ssl, live1) = tls_new (ssl_new calls) Connection live
            in if ssl = None \<or> \<not> ssl_set_fd calls \<or> \<not> ssl_accept calls
               then do {
                 live2 \<leftarrow> tls_free ssl live1;
                 Some \<lparr>closed = [client_socket], live_objects = live2,
                       logged = [relay_failed_line]\<rparr>
               }
               else do {
                 let output = relay_log (take 4096 (received calls));
                 live2 \<leftarrow> tls_free ssl live1;
                 Some \<lparr>closed = [client_socket], live_objects = live2, logged = output\<rparr>
               }
          else Some \<lparr>closed = [client_socket], live_objects = live,
                     logged = relay_raw_line # relay_log (take 4096 (received calls))\<rparr>)"

subsection \<open>Properties\<close>

lemma hex_pair: "length (put_padded 2 (CHR ''0'') (hex_of_nat hex_lower (unat (b :: u8)))) = 2"
proof -
  have "unat b < 2 ^ LENGTH(8)" by (rule unsigned_less)
  then have "length (hex_of_nat hex_lower (unat b)) \<le> Suc 1" by (intro length_hex_of_nat) simp
  then show ?thesis by (intro length_put_padded) simp
qed

lemma length_relay_hex: "length (relay_hex packet) = 2 * length packet"
proof (induction packet)
  case Nil
  then show ?case by (simp add: relay_hex_def)
next
  case (Cons b packet)
  then show ?case using hex_pair [of b] by (simp add: relay_hex_def)
qed

text \<open>
  The making of the TLS context frees everything it made but the context it returns, and frees
  nothing twice, whichever call fails; it returns a context exactly when all calls succeed.
\<close>

theorem relay_context_owned:
  "create_relay_ssl_context calls [] = Some
     (if ctx_new calls \<and> key_ctx_new calls \<and> x509_new calls \<and> keygen_init calls \<and>
         set_keygen_bits calls \<and> keygen calls \<and> x509_sign calls \<and> use_certificate calls \<and>
         use_private_key calls
      then (Some Context, [Context]) else (None, []))"
  by (simp add: create_relay_ssl_context_def tls_new_def tls_free_def Let_def)

text \<open>
  A relay connection closes its socket exactly once and frees the TLS connection it made, on every
  path; and it logs the bytes it read, two digits each, unless the handshake failed or nothing came.
\<close>

theorem relay_connection_owned:
  "\<exists>result. handle_relay_connection client_socket calls live = Some result \<and>
     closed result = (if client_socket < 0 then [] else [client_socket]) \<and>
     live_objects result = live \<and>
     (\<exists>notes digits. notes \<in> {[], [relay_raw_line], [relay_failed_line]} \<and>
        (logged result = notes \<or>
         logged result = notes @ [''GameSpy relay request ('' @
             dec_of_nat (length (take 4096 (received calls))) @ '' bytes): '' @ digits @ [CHR 0x0A]]) \<and>
        length digits = 2 * length (take 4096 (received calls)))"
  using length_relay_hex [of "take 4096 (received calls)"]
  by (cases "peeked calls")
    (fastforce simp: handle_relay_connection_def tls_new_def tls_free_def relay_log_def Let_def
      simp del: length_take)+

end
