(* ===== verification/Sockets.thy ===== *)
theory Sockets
  imports KiWii_Prelude
begin

section \<open>Sockets (\<^verbatim>\<open>src/server_sockets.cpp\<close>)\<close>

text \<open>
  The calls of the kernel are read from a script: what \<^verbatim>\<open>send\<close>, \<^verbatim>\<open>socket\<close>, \<^verbatim>\<open>bind\<close> and
  \<^verbatim>\<open>listen\<close> return, in the order they are called. A function that uses up its script returns
  \<^const>\<open>None\<close>: the program is then still inside the call. What it wrote, to a socket or to the
  console, which descriptors are open and how they are set up is recorded, so that a theorem can speak
  about it.
\<close>

subsection \<open>Sending everything\<close>

datatype send_result = Sent nat | Interrupted | Send_Error

text \<open>The loop of \<^verbatim>\<open>send_all\<close>: whether it succeeded, and what went out.\<close>

fun send_all :: "send_result list \<Rightarrow> 'a list \<Rightarrow> nat \<Rightarrow> 'a list \<Rightarrow> (bool \<times> 'a list) option" where
  "send_all script data sent wire =
     (if sent < length data then
        (case script of
           [] \<Rightarrow> None
         | Interrupted # rest \<Rightarrow> send_all rest data sent wire
         | Send_Error # rest \<Rightarrow> Some (False, wire)
         | Sent result # rest \<Rightarrow>
             (if result = 0 then Some (False, wire)
              else send_all rest data (sent + result) (wire @ take result (drop sent data))))
      else Some (True, wire))"

declare send_all.simps [simp del]

lemma send_all_unfold [simp]:
  "\<not> sent < length data \<Longrightarrow> send_all script data sent wire = Some (True, wire)"
  "sent < length data \<Longrightarrow> send_all [] data sent wire = None"
  "sent < length data \<Longrightarrow> send_all (Interrupted # rest) data sent wire = send_all rest data sent wire"
  "sent < length data \<Longrightarrow> send_all (Send_Error # rest) data sent wire = Some (False, wire)"
  "sent < length data \<Longrightarrow> send_all (Sent 0 # rest) data sent wire = Some (False, wire)"
  "sent < length data \<Longrightarrow> 0 < k \<Longrightarrow> send_all (Sent k # rest) data sent wire =
     send_all rest data (sent + k) (wire @ take k (drop sent data))"
  by (subst send_all.simps, simp)+

text \<open>The kernel never reports more bytes than it was given, and makes progress when it does not fail.\<close>

fun sends_within :: "nat \<Rightarrow> send_result list \<Rightarrow> bool" where
  "sends_within n [] \<longleftrightarrow> True"
| "sends_within n (Sent k # rest) \<longleftrightarrow> k \<le> n \<and> sends_within (n - k) rest"
| "sends_within n (r # rest) \<longleftrightarrow> sends_within n rest"

lemma send_all_wire:
  "send_all script data sent (take sent data) = Some (ok, wire) \<Longrightarrow>
   sends_within (length data - sent) script \<Longrightarrow> sent \<le> length data \<Longrightarrow>
   prefix wire data \<and> (ok \<longleftrightarrow> wire = data)"
proof (induction script data sent "take sent data" rule: send_all.induct)
  case (1 script data sent)
  show ?case
  proof (cases "sent < length data")
    case False
    with 1 show ?thesis by auto
  next
    case True
    then have ne: "take sent data \<noteq> data" by (metis length_take min.absorb2 nat_neq_iff less_imp_le_nat)
    show ?thesis
    proof (cases script)
      case Nil
      with True "1.prems" show ?thesis by simp
    next
      case (Cons r rest)
      show ?thesis
      proof (cases r)
        case (Sent k)
        have t: "take sent data @ take k (drop sent data) = take (sent + k) data"
          by (simp add: take_add)
        have b: "sent + k \<le> length data" "sends_within (length data - (sent + k)) rest"
          using "1.prems" True Cons Sent by auto
        show ?thesis
        proof (cases "k = 0")
          case True
          with "1.prems" \<open>sent < length data\<close> Cons Sent ne show ?thesis
            by (auto simp: take_is_prefix)
        next
          case False
          with "1.prems" True Cons Sent have "send_all rest data (sent + k) (take (sent + k) data) = Some (ok, wire)"
            by (simp add: t)
          then show ?thesis
            using 1(1) [OF True Cons Sent False t] b by simp
        qed
      next
        case Interrupted
        with "1.prems" True Cons have "send_all rest data sent (take sent data) = Some (ok, wire)"
          by simp
        then show ?thesis using 1 True Cons Interrupted by simp
      next
        case Send_Error
        with "1.prems" True Cons ne show ?thesis
          by (auto simp: take_is_prefix)
      qed
    qed
  qed
qed

text \<open>It returns as soon as the kernel has made enough progress or failed.\<close>

lemma send_all_returns:
  "length data - sent \<le> length (filter (\<lambda>r. r \<noteq> Interrupted) script) \<Longrightarrow>
   \<exists>res. send_all script data sent wire = Some res"
proof (induction script data sent wire rule: send_all.induct)
  case (1 script data sent wire)
  show ?case
  proof (cases "sent < length data \<and> script \<noteq> []")
    case False
    with 1 show ?thesis by auto
  next
    case True
    then obtain r rest where s: "script = r # rest" by (cases script) auto
    show ?thesis
    proof (cases r)
      case (Sent k)
      with True s 1 show ?thesis by (cases "k = 0") auto
    next
      case Interrupted
      with True s 1 show ?thesis by auto
    next
      case Send_Error
      moreover have "\<exists>ok. \<not> ok" by blast
      ultimately show ?thesis using True s by simp
    qed
  qed
qed

subsection \<open>The kernel and the console\<close>

datatype socket_type = Sock_Stream | Sock_Dgram

text \<open>What the kernel keeps of a socket: its type, the options set, its address, its queue.\<close>

record socket_state =
  sock_type :: socket_type
  reuse_address :: bool
  bound_to :: "(u32 \<times> u16) option"
  listen_queue :: "nat option"
  receive_timeout :: int
  keepalive :: bool

datatype signal = Sigint | Sigterm

datatype console_stream = Cout | Cerr

text \<open>
  The open descriptors, what is known of each, the signals that have a handler, and whether the coming
  calls succeed. As POSIX has it, \<^verbatim>\<open>socket\<close> and \<^verbatim>\<open>accept\<close> return the lowest descriptor that is not open,
  or -1. What the program writes to
  \<^verbatim>\<open>std::cout\<close> and \<^verbatim>\<open>std::cerr\<close> is recorded statement by statement.
\<close>

record kernel =
  open_fds :: "nat list"
  socket_table :: "int \<Rightarrow> socket_state option"
  socket_ok :: "bool list"
  bind_ok :: "bool list"
  listen_ok :: "bool list"
  accept_ok :: "bool list"
  handled :: "signal set"
  console :: "(console_stream \<times> string) list"

definition sys_print :: "console_stream \<Rightarrow> string \<Rightarrow> kernel \<Rightarrow> kernel" where
  "sys_print out line k = k\<lparr>console := console k @ [(out, line)]\<rparr>"

fun next_outcome :: "bool list \<Rightarrow> bool \<times> bool list" where
  "next_outcome [] = (True, [])"
| "next_outcome (b # bs) = (b, bs)"

definition lowest_free :: "nat list \<Rightarrow> nat" where
  "lowest_free fds = hd (filter (\<lambda>n. n \<notin> set fds) [0..<Suc (length fds)])"

definition new_socket :: "socket_type \<Rightarrow> socket_state" where
  "new_socket type = \<lparr>sock_type = type, reuse_address = False, bound_to = None,
     listen_queue = None, receive_timeout = 0, keepalive = False\<rparr>"

definition update_socket :: "(socket_state \<Rightarrow> socket_state) \<Rightarrow> int \<Rightarrow> kernel \<Rightarrow> kernel" where
  "update_socket f fd k =
     k\<lparr>socket_table := (socket_table k)(fd := map_option f (socket_table k fd))\<rparr>"

definition sys_socket :: "socket_type \<Rightarrow> kernel \<Rightarrow> int \<times> kernel" where
  "sys_socket type k =
     (let (ok, rest) = next_outcome (socket_ok k); fd = lowest_free (open_fds k)
      in if ok then (int fd, k\<lparr>socket_ok := rest, open_fds := open_fds k @ [fd],
                               socket_table := (socket_table k)(int fd \<mapsto> new_socket type)\<rparr>)
         else (-1, k\<lparr>socket_ok := rest\<rparr>))"

definition sys_bind :: "int \<Rightarrow> u32 \<times> u16 \<Rightarrow> kernel \<Rightarrow> int \<times> kernel" where
  "sys_bind fd address k =
     (let (ok, rest) = next_outcome (bind_ok k); k' = k\<lparr>bind_ok := rest\<rparr>
      in if ok then (0, update_socket (\<lambda>s. s\<lparr>bound_to := Some address\<rparr>) fd k') else (-1, k'))"

definition sys_listen :: "int \<Rightarrow> nat \<Rightarrow> kernel \<Rightarrow> int \<times> kernel" where
  "sys_listen fd queue k =
     (let (ok, rest) = next_outcome (listen_ok k); k' = k\<lparr>listen_ok := rest\<rparr>
      in if ok then (0, update_socket (\<lambda>s. s\<lparr>listen_queue := Some queue\<rparr>) fd k') else (-1, k'))"

definition sys_accept :: "kernel \<Rightarrow> int \<times> kernel" where
  "sys_accept k =
     (let (ok, rest) = next_outcome (accept_ok k); fd = lowest_free (open_fds k)
      in if ok then (int fd, k\<lparr>accept_ok := rest, open_fds := open_fds k @ [fd],
                               socket_table := (socket_table k)(int fd \<mapsto> new_socket Sock_Stream)\<rparr>)
         else (-1, k\<lparr>accept_ok := rest\<rparr>))"

definition sys_signal :: "signal \<Rightarrow> kernel \<Rightarrow> kernel" where
  "sys_signal s k = k\<lparr>handled := insert s (handled k)\<rparr>"

definition sys_close :: "int \<Rightarrow> kernel \<Rightarrow> kernel" where
  "sys_close fd k = k\<lparr>open_fds := filter (\<lambda>n. int n \<noteq> fd) (open_fds k),
                      socket_table := (socket_table k)(fd := None)\<rparr>"

definition set_reuse_address :: "int \<Rightarrow> kernel \<Rightarrow> kernel" where
  "set_reuse_address = update_socket (\<lambda>s. s\<lparr>reuse_address := True\<rparr>)"

definition set_receive_timeout :: "int \<Rightarrow> int \<Rightarrow> kernel \<Rightarrow> kernel" where
  "set_receive_timeout fd seconds = update_socket (\<lambda>s. s\<lparr>receive_timeout := seconds\<rparr>) fd"

definition set_keepalive :: "int \<Rightarrow> kernel \<Rightarrow> kernel" where
  "set_keepalive = update_socket (\<lambda>s. s\<lparr>keepalive := True\<rparr>)"

subsection \<open>Opening sockets\<close>

text \<open>\<^verbatim>\<open>INADDR_ANY\<close>; the port is kept in host order.\<close>

definition inaddr_any :: u32 where
  "inaddr_any = 0"

definition open_socket :: "socket_type \<Rightarrow> u16 \<Rightarrow> kernel \<Rightarrow> int \<times> kernel" where
  "open_socket type port k =
     (let (socket_fd, k1) = sys_socket type k
      in if socket_fd < 0 then (-1, k1)
         else let (bound, k2) = sys_bind socket_fd (inaddr_any, port) (set_reuse_address socket_fd k1)
              in if bound < 0 then (-1, sys_close socket_fd k2) else (socket_fd, k2))"

definition open_tcp_socket :: "u16 \<Rightarrow> kernel \<Rightarrow> int \<times> kernel" where
  "open_tcp_socket port k =
     (let (socket_fd, k1) = open_socket Sock_Stream port k
      in if 0 \<le> socket_fd
         then let (listening, k2) = sys_listen socket_fd 8 k1
              in if listening < 0 then (-1, sys_close socket_fd k2) else (socket_fd, k2)
         else (socket_fd, k1))"

definition open_udp_socket :: "u16 \<Rightarrow> kernel \<Rightarrow> int \<times> kernel" where
  "open_udp_socket port k = open_socket Sock_Dgram port k"

lemma lowest_free_not_open: "lowest_free fds \<notin> set fds"
  and lowest_free_least: "n < lowest_free fds \<Longrightarrow> n \<in> set fds"
proof -
  have "\<exists>n \<in> set [0..<Suc (length fds)]. n \<notin> set fds"
  proof (rule ccontr)
    assume "\<not> ?thesis"
    then have "set [0..<Suc (length fds)] \<subseteq> set fds" by blast
    then have "card (set [0..<Suc (length fds)]) \<le> card (set fds)" by (intro card_mono) simp_all
    with card_length [of fds] show False by simp
  qed
  moreover define free where "free = filter (\<lambda>n. n \<notin> set fds) [0..<Suc (length fds)]"
  ultimately have ne: "free \<noteq> []" by (simp add: filter_empty_conv del: upt_Suc)
  have lf: "lowest_free fds = hd free" by (simp only: lowest_free_def free_def)
  have mem: "n \<in> set free \<longleftrightarrow> n < Suc (length fds) \<and> n \<notin> set fds" for n
    by (auto simp: free_def simp del: upt_Suc)
  have "sorted free" unfolding free_def by (intro sorted_wrt_filter) (simp del: upt_Suc)
  then have least: "hd free \<le> n" if "n \<in> set free" for n
    using that by (cases free) auto
  have h: "hd free \<in> set free" using ne by (rule hd_in_set)
  then show "lowest_free fds \<notin> set fds" by (simp add: mem lf)
  show "n \<in> set fds" if "n < lowest_free fds"
    using that h least [of n] mem [of n] mem [of "hd free"] by (force simp: lf)
qed

text \<open>
  What opening a socket may do: fail, with the descriptors as they were and no entry left for the one
  it tried, or open the lowest free descriptor, with the given entry and no other changed.
\<close>

definition opens_one :: "socket_state \<Rightarrow> kernel \<Rightarrow> int \<times> kernel \<Rightarrow> bool" where
  "opens_one entry k res \<longleftrightarrow>
     console (snd res) = console k \<and>
     (let fd = lowest_free (open_fds k)
      in fst res = -1 \<and> open_fds (snd res) = open_fds k \<and>
           socket_table (snd res) \<in> {socket_table k, (socket_table k)(int fd := None)} \<or>
         fst res = int fd \<and> open_fds (snd res) = open_fds k @ [fd] \<and>
           socket_table (snd res) = (socket_table k)(int fd \<mapsto> entry))"

lemma close_new [simp]:
  "filter (\<lambda>n. n \<noteq> lowest_free fds) fds = fds"
  using lowest_free_not_open by (intro filter_True) metis

definition bound_socket :: "socket_type \<Rightarrow> u16 \<Rightarrow> socket_state" where
  "bound_socket type port = \<lparr>sock_type = type, reuse_address = True,
     bound_to = Some (inaddr_any, port),
     listen_queue = (case type of Sock_Stream \<Rightarrow> Some 8 | Sock_Dgram \<Rightarrow> None), receive_timeout = 0,
     keepalive = False\<rparr>"

lemmas kernel_calls = sys_socket_def sys_bind_def sys_listen_def sys_close_def set_reuse_address_def
  update_socket_def new_socket_def Let_def

lemma open_socket_one: "opens_one (bound_socket type port\<lparr>listen_queue := None\<rparr>) k (open_socket type port k)"
  by (simp add: opens_one_def open_socket_def kernel_calls bound_socket_def split: prod.splits)

lemma open_tcp_one: "opens_one (bound_socket Sock_Stream port) k (open_tcp_socket port k)"
  using open_socket_one [of Sock_Stream port k]
  by (auto simp: opens_one_def open_tcp_socket_def kernel_calls bound_socket_def split: prod.splits)

lemma open_udp_one: "opens_one (bound_socket Sock_Dgram port) k (open_udp_socket port k)"
  using open_socket_one [of Sock_Dgram port k] by (simp add: open_udp_socket_def bound_socket_def)

text \<open>An option changes the one socket it is set on.\<close>

lemma set_receive_timeout_table:
  "socket_table (set_receive_timeout fd seconds k) fd' =
     (if fd' = fd then map_option (\<lambda>s. s\<lparr>receive_timeout := seconds\<rparr>) (socket_table k fd)
      else socket_table k fd')"
  by (simp add: set_receive_timeout_def update_socket_def)

subsection \<open>Properties\<close>

text \<open>
  C40. \<^verbatim>\<open>send_all\<close> sends a prefix of its data, and reports success exactly when that is all of it;
  it returns once the kernel has answered as many calls, interruptions aside, as there are bytes.
\<close>

theorem send_all_complete:
  assumes "sends_within (length data) script"
    and "length data \<le> length (filter (\<lambda>r. r \<noteq> Interrupted) script)"
  shows "\<exists>ok wire. send_all script data 0 [] = Some (ok, wire) \<and> prefix wire data \<and>
    (ok \<longleftrightarrow> wire = data)"
  using send_all_wire [of script data 0] send_all_returns [of data 0 script "[]"] assms by force

theorem send_all_complete_witness:
  "\<exists>ok wire. send_all [Sent 2, Interrupted, Sent 1, Send_Error] ''abc'' 0 [] = Some (ok, wire) \<and>
     prefix wire ''abc'' \<and> (ok \<longleftrightarrow> wire = ''abc'')"
  using send_all_complete [of "''abc''" "[Sent 2, Interrupted, Sent 1, Send_Error]"] by simp

text \<open>
  Opening a socket either fails and leaves the open descriptors as they were, whichever of the
  calls failed, or opens exactly one new descriptor and returns it.
\<close>

theorem open_sockets_no_leak:
  "(fst (open_tcp_socket port k) = -1 \<and> open_fds (snd (open_tcp_socket port k)) = open_fds k \<or>
    (\<exists>fd. fd \<notin> set (open_fds k) \<and> fst (open_tcp_socket port k) = int fd \<and>
       open_fds (snd (open_tcp_socket port k)) = open_fds k @ [fd])) \<and>
   (fst (open_udp_socket port k) = -1 \<and> open_fds (snd (open_udp_socket port k)) = open_fds k \<or>
    (\<exists>fd. fd \<notin> set (open_fds k) \<and> fst (open_udp_socket port k) = int fd \<and>
       open_fds (snd (open_udp_socket port k)) = open_fds k @ [fd]))"
  using open_tcp_one [of port k] open_udp_one [of port k] lowest_free_not_open [of "open_fds k"]
  by (auto simp: opens_one_def Let_def)

end
