(* ===== verification/Config.thy ===== *)
theory Config
  imports Cpp_Number
begin

section \<open>The configuration (\<^verbatim>\<open>src/config.cpp\<close>)\<close>

text \<open>
  The environment is a map from names to values; an unset variable and an empty one count the same.
  The three ways of failing are the two \<^verbatim>\<open>std::runtime_error\<close> the code throws and what \<^verbatim>\<open>std::stoul\<close>
  throws. The members are read in the order of the struct, and the first failure ends the reading.
\<close>

record config =
  server_name :: string
  advertised_address :: string
  health_port :: u16
  dns_port :: u16
  nas_port :: u16
  qr_port :: u16
  natneg_port :: u16
  profile_port :: u16
  player_search_port :: u16
  gamestats_port :: u16
  relay_port :: u16
  game_port :: u16
  gamespy_secret_key :: string

datatype config_error = Missing_Variable string | Invalid_Port string | Not_A_Number stoul_error

type_synonym environment = "string \<Rightarrow> string option"

text \<open>\<^verbatim>\<open>value == nullptr || *value == '\0'\<close>\<close>

definition is_unset :: "string option \<Rightarrow> bool" where
  "is_unset v = (case v of None \<Rightarrow> True | Some s \<Rightarrow> s = [])"

definition required_environment :: "environment \<Rightarrow> string \<Rightarrow> config_error + string" where
  "required_environment getenv name =
     (let v = getenv name in if is_unset v then Inl (Missing_Variable name) else Inr (the v))"

definition port_environment :: "environment \<Rightarrow> string \<Rightarrow> u16 \<Rightarrow> config_error + u16" where
  "port_environment getenv name fallback =
     (let v = getenv name
      in if is_unset v then Inr fallback
         else case stoul (the v) of
                Inl e \<Rightarrow> Inl (Not_A_Number e)
              | Inr port \<Rightarrow>
                  if port = 0 \<or> 65535 < port then Inl (Invalid_Port name) else Inr (ucast port))"

definition optional_environment :: "environment \<Rightarrow> string \<Rightarrow> string \<Rightarrow> string" where
  "optional_environment getenv name fallback =
     (let v = getenv name in if is_unset v then fallback else the v)"

definition and_then :: "'e + 'a \<Rightarrow> ('a \<Rightarrow> 'e + 'b) \<Rightarrow> 'e + 'b" where
  "and_then r f = (case r of Inl e \<Rightarrow> Inl e | Inr x \<Rightarrow> f x)"

definition config_from_environment :: "environment \<Rightarrow> config_error + config" where
  "config_from_environment getenv =
     and_then (required_environment getenv ''MKWII_SERVER_NAME'') (\<lambda>name.
     and_then (required_environment getenv ''MKWII_ADVERTISED_ADDRESS'') (\<lambda>address.
     and_then (port_environment getenv ''MKWII_HEALTH_PORT'' 8080) (\<lambda>health.
     and_then (port_environment getenv ''MKWII_DNS_PORT'' 53) (\<lambda>dns.
     and_then (port_environment getenv ''MKWII_NAS_PORT'' 80) (\<lambda>nas.
     and_then (port_environment getenv ''MKWII_QR_PORT'' 27900) (\<lambda>qr.
     and_then (port_environment getenv ''MKWII_NATNEG_PORT'' 27901) (\<lambda>natneg.
     and_then (port_environment getenv ''MKWII_PROFILE_PORT'' 29900) (\<lambda>profile.
     and_then (port_environment getenv ''MKWII_PLAYER_SEARCH_PORT'' 29901) (\<lambda>player_search.
     and_then (port_environment getenv ''MKWII_GAMESTATS_PORT'' 29920) (\<lambda>gamestats.
     and_then (port_environment getenv ''MKWII_RELAY_PORT'' 22000) (\<lambda>relay.
     and_then (port_environment getenv ''MKWII_GAME_PORT'' 28910) (\<lambda>game.
     Inr \<lparr>server_name = name, advertised_address = address, health_port = health, dns_port = dns,
          nas_port = nas, qr_port = qr, natneg_port = natneg, profile_port = profile,
          player_search_port = player_search, gamestats_port = gamestats, relay_port = relay,
          game_port = game,
          gamespy_secret_key =
            optional_environment getenv ''MKWII_GAMESPY_SECRET_KEY'' ''9r3Rmy''\<rparr>))))))))))))"

subsection \<open>What a configuration holds\<close>

text \<open>The specification of a port variable: unset, or a number from 1 to 65535.\<close>

definition port_of :: "environment \<Rightarrow> string \<Rightarrow> u16 \<Rightarrow> u16 option" where
  "port_of getenv name fallback =
     (case getenv name of
        None \<Rightarrow> Some fallback
      | Some s \<Rightarrow>
          if s = [] then Some fallback
          else case stoul s of
                 Inl e \<Rightarrow> None
               | Inr n \<Rightarrow> if 1 \<le> unat n \<and> unat n \<le> 65535 then Some (word_of_nat (unat n)) else None)"

definition set_value :: "environment \<Rightarrow> string \<Rightarrow> string \<Rightarrow> bool" where
  "set_value getenv name s \<longleftrightarrow> getenv name = Some s \<and> s \<noteq> []"

lemma and_then_Inr: "and_then r f = Inr y \<longleftrightarrow> (\<exists>x. r = Inr x \<and> f x = Inr y)"
  by (auto simp: and_then_def split: sum.splits)

lemma required_Inr: "required_environment getenv name = Inr s \<longleftrightarrow> set_value getenv name s"
  by (auto simp: required_environment_def set_value_def is_unset_def Let_def split: option.splits if_splits)

lemma port_Inr: "port_environment getenv name fallback = Inr p \<longleftrightarrow> port_of getenv name fallback = Some p"
proof -
  have "(n = 0 \<or> 65535 < n) \<longleftrightarrow> \<not> (1 \<le> unat n \<and> unat n \<le> 65535)" for n :: u64
    using unat_gt_0 [of n] by (auto simp: word_less_nat_alt simp del: unat_gt_0)
  then show ?thesis
    by (auto simp: port_environment_def port_of_def is_unset_def Let_def
        split: option.splits sum.splits if_splits)
qed

lemma optional_eq:
  "optional_environment getenv name fallback =
     (case getenv name of None \<Rightarrow> fallback | Some s \<Rightarrow> if s = [] then fallback else s)"
  by (auto simp: optional_environment_def is_unset_def split: option.splits)

subsection \<open>Properties\<close>


text \<open>
  The value of a port variable is not checked to its end, and a negative number wraps: the decimal
  number \<open>n\<close> with anything but a digit after it, and the negative number \<open>n - 2^64\<close> likewise, both
  configure port \<open>n\<close>.
\<close>

theorem port_text_not_checked:
  assumes "1 \<le> n" and "n \<le> 65535" and "junk = [] \<or> \<not> is_digit (hd junk)"
  shows "port_environment (getenv(name \<mapsto> dec_of_nat n @ junk)) name fallback = Inr (word_of_nat n) \<and>
    port_environment (getenv(name \<mapsto> CHR ''-'' # dec_of_nat (2 ^ 64 - n) @ junk)) name fallback =
      Inr (word_of_nat n)"
proof -
  have p: "stoul (dec_of_nat n @ junk) = Inr (word_of_nat n)"
    using assms by (intro stoul_dec_of_nat) simp_all
  define m where "m = 2 ^ 64 - n"
  have m: "m < 2 ^ 64" "m + n = 2 ^ 64" using assms by (simp_all add: m_def)
  then have "stoul (CHR ''-'' # dec_of_nat m @ junk) = Inr (- word_of_nat m)"
    using takeWhile_dec [OF assms(3), of m] by (simp add: stoul_def is_space_def Let_def)
  moreover have "- word_of_nat m = (word_of_nat n :: u64)"
  proof -
    have "(word_of_nat m :: u64) + word_of_nat n = word_of_nat (2 ^ 64)"
      by (simp only: of_nat_add [symmetric] m(2))
    then have "(word_of_nat m :: u64) + word_of_nat n = 0" by simp
    then show ?thesis by (rule minus_unique)
  qed
  moreover have u: "unat (word_of_nat n :: u64) = n" using assms by (simp add: unat_of_nat)
  ultimately show ?thesis
    unfolding m_def [symmetric] using p assms by (simp add: port_Inr port_of_def u)
qed

theorem port_text_not_checked_witness:
  "port_environment ((\<lambda>_. None)(''MKWII_DNS_PORT'' \<mapsto> ''53abc'')) ''MKWII_DNS_PORT'' 53 = Inr 53 \<and>
   port_environment ((\<lambda>_. None)(''MKWII_DNS_PORT'' \<mapsto> ''-18446744073709551563'')) ''MKWII_DNS_PORT'' 53 = Inr 53"
proof -
  have d: "dec_of_nat 53 = ''53''" "dec_of_nat 18446744073709551563 = ''18446744073709551563''"
    by (simp_all add: dec_of_nat.simps digit_char_def)
  have "\<not> is_digit (hd ''abc'')" by (simp add: is_digit_def digit_value_def)
  then show ?thesis
    using port_text_not_checked [of 53 "''abc''" "\<lambda>_. None" "''MKWII_DNS_PORT''" 53]
      port_text_not_checked [of 53 "[]" "\<lambda>_. None" "''MKWII_DNS_PORT''" 53]
    by (simp add: d)
qed

end
