(* ===== verification/Server_Main.thy ===== *)
theory Server_Main
  imports Sockets Config
begin

section \<open>Start, main loop and stop (\<^verbatim>\<open>src/server.cpp\<close>, \<^verbatim>\<open>src/main.cpp\<close>)\<close>

text \<open>
  The start opens eleven listening sockets over the kernel of \<open>Sockets\<close> and gives up, closing what it
  opened, at the first that fails. The main loop waits with \<^verbatim>\<open>select\<close>, handles datagrams and the health
  check itself and starts a thread for every readable connection socket; the thread calls \<^verbatim>\<open>accept\<close>.
  The stop joins all threads. The loop, the threads, the connections that wait in the kernel and the
  signal are a labelled step relation, so that every interleaving is covered.
\<close>

datatype service = Svc_Health | Svc_Qr | Svc_Dns | Svc_Dns_Tcp | Svc_Natneg | Svc_Game | Svc_Nas |
  Svc_Profile | Svc_Player_Search | Svc_Gamestats | Svc_Relay

subsection \<open>Starting\<close>

text \<open>The listening sockets in the order they are opened.\<close>

definition listeners :: "config \<Rightarrow> (service \<times> socket_type \<times> u16) list" where
  "listeners c =
     [(Svc_Health, Sock_Stream, health_port c), (Svc_Qr, Sock_Dgram, qr_port c),
      (Svc_Dns, Sock_Dgram, dns_port c), (Svc_Dns_Tcp, Sock_Stream, dns_port c),
      (Svc_Natneg, Sock_Dgram, natneg_port c), (Svc_Game, Sock_Stream, game_port c),
      (Svc_Nas, Sock_Stream, nas_port c), (Svc_Profile, Sock_Stream, profile_port c),
      (Svc_Player_Search, Sock_Stream, player_search_port c),
      (Svc_Gamestats, Sock_Stream, gamestats_port c), (Svc_Relay, Sock_Stream, relay_port c)]"

fun close_sockets :: "int list \<Rightarrow> kernel \<Rightarrow> kernel" where
  "close_sockets [] k = k"
| "close_sockets (socket_fd # sockets) k =
     close_sockets sockets (if 0 \<le> socket_fd then sys_close socket_fd k else k)"

definition open_listener :: "socket_type \<Rightarrow> u16 \<Rightarrow> kernel \<Rightarrow> int \<times> kernel" where
  "open_listener type port k =
     (case type of Sock_Stream \<Rightarrow> open_tcp_socket port k | Sock_Dgram \<Rightarrow> open_udp_socket port k)"

definition new_line :: string where
  "new_line = [CHR 0x0A]"

fun service_name :: "service \<Rightarrow> string" where
  "service_name Svc_Health = ''health port''"
| "service_name Svc_Qr = ''GameSpy QR port''"
| "service_name Svc_Dns = ''DNS port''"
| "service_name Svc_Dns_Tcp = ''DNS TCP port''"
| "service_name Svc_Natneg = ''GameSpy NATNEG port''"
| "service_name Svc_Game = ''GameSpy browser port''"
| "service_name Svc_Nas = ''NAS port''"
| "service_name Svc_Profile = ''GameSpy profile port''"
| "service_name Svc_Player_Search = ''GameSpy player search port''"
| "service_name Svc_Gamestats = ''GameSpy gamestats port''"
| "service_name Svc_Relay = ''GameSpy relay port''"

definition bind_error :: "service \<Rightarrow> string" where
  "bind_error s = ''could not bind '' @ service_name s @ new_line"

definition relay_error :: string where
  "relay_error = ''could not initialize relay TLS context'' @ new_line"

definition port_line :: "string \<Rightarrow> u16 \<Rightarrow> string" where
  "port_line what port = what @ '' port: '' @ dec_of_nat (unat port) @ new_line"

definition start_banner :: "config \<Rightarrow> string" where
  "start_banner c =
     ''server '' @ [CHR 0x27] @ server_name c @ [CHR 0x27] @ '' started'' @ new_line @
     ''advertised address: '' @ advertised_address c @ new_line @
     port_line ''DNS UDP/TCP'' (dns_port c) @
     port_line ''NAS HTTP'' (nas_port c) @
     port_line ''GameSpy QR'' (qr_port c) @
     port_line ''GameSpy NATNEG'' (natneg_port c) @
     port_line ''GameSpy profile'' (profile_port c) @
     port_line ''GameSpy player search'' (player_search_port c) @
     port_line ''GameSpy gamestats'' (gamestats_port c) @
     port_line ''GameSpy relay'' (relay_port c) @
     port_line ''GameSpy browser'' (game_port c)"

fun open_listeners ::
  "(service \<times> socket_type \<times> u16) list \<Rightarrow> int list \<Rightarrow> kernel \<Rightarrow> int list option \<times> kernel" where
  "open_listeners [] sockets k = (Some sockets, k)"
| "open_listeners ((service, type, port) # rest) sockets k =
     (let (socket_fd, k') = open_listener type port k
      in if 0 \<le> socket_fd then open_listeners rest (sockets @ [socket_fd]) k'
         else (None, close_sockets sockets (sys_print Cerr (bind_error service) k')))"

definition start_server :: "config \<Rightarrow> bool \<Rightarrow> kernel \<Rightarrow> int list option \<times> kernel" where
  "start_server c relay_ssl_context_ok k =
     (case open_listeners (listeners c) [] k of
        (None, k') \<Rightarrow> (None, k')
      | (Some sockets, k') \<Rightarrow>
          if relay_ssl_context_ok then (Some sockets, sys_print Cout (start_banner c) k')
          else (None, close_sockets sockets (sys_print Cerr relay_error k')))"

text \<open>\<^verbatim>\<open>std::signal\<close> for the two signals, both with \<^verbatim>\<open>stop_server\<close> as their handler.\<close>

definition register_signals :: "kernel \<Rightarrow> kernel" where
  "register_signals k = sys_signal Sigterm (sys_signal Sigint k)"

text \<open>The exit code, and the kernel when the server has stopped.\<close>

definition run_server :: "config \<Rightarrow> bool \<Rightarrow> kernel \<Rightarrow> int \<times> kernel" where
  "run_server c relay_ssl_context_ok k =
     (case start_server c relay_ssl_context_ok (register_signals k) of
        (None, k') \<Rightarrow> (1, k')
      | (Some sockets, k') \<Rightarrow>
          (0, sys_print Cout (''server stopped'' @ new_line) (close_sockets sockets k')))"

text \<open>
  The texts of the exceptions \<^verbatim>\<open>main\<close> reports. What the standard library's own exceptions say is not
  specified, so it is a parameter.
\<close>

fun config_error_text :: "(stoul_error \<Rightarrow> string) \<Rightarrow> config_error \<Rightarrow> string" where
  "config_error_text stoul_what (Missing_Variable name) = ''missing required environment variable: '' @ name"
| "config_error_text stoul_what (Invalid_Port name) = ''invalid port in environment variable: '' @ name"
| "config_error_text stoul_what (Not_A_Number e) = stoul_what e"

definition main_program ::
  "(stoul_error \<Rightarrow> string) \<Rightarrow> environment \<Rightarrow> bool \<Rightarrow> kernel \<Rightarrow> int \<times> kernel" where
  "main_program stoul_what getenv relay_ssl_context_ok k =
     (case config_from_environment getenv of
        Inl error \<Rightarrow>
          (1, sys_print Cerr
                (''configuration error: '' @ config_error_text stoul_what error @ new_line) k)
      | Inr c \<Rightarrow> run_server c relay_ssl_context_ok k)"

subsection \<open>One round of the main loop\<close>

datatype action = Handle service | Spawn service

text \<open>The tests after \<^verbatim>\<open>select\<close>, in their order.\<close>

definition dispatch_order :: "action list" where
  "dispatch_order =
     [Handle Svc_Qr, Handle Svc_Dns, Spawn Svc_Dns_Tcp, Handle Svc_Natneg, Spawn Svc_Game,
      Spawn Svc_Nas, Spawn Svc_Profile, Spawn Svc_Player_Search, Spawn Svc_Gamestats,
      Spawn Svc_Relay, Handle Svc_Health]"

fun service_of :: "action \<Rightarrow> service" where
  "service_of (Handle s) = s"
| "service_of (Spawn s) = s"

definition dispatch :: "(service \<Rightarrow> bool) \<Rightarrow> action list" where
  "dispatch readable = filter (\<lambda>a. readable (service_of a)) dispatch_order"

text \<open>The health check, which the main thread answers itself.\<close>

definition line_end :: string where
  "line_end = [CHR 0x0D, CHR 0x0A]"

definition health_response :: string where
  "health_response = ''HTTP/1.1 200 OK'' @ line_end @ ''Content-Type: text/plain'' @ line_end @
     ''Content-Length: 3'' @ line_end @ ''Connection: close'' @ line_end @ line_end @ ''ok'' @ [CHR 0x0A]"

definition handle_health :: "int \<Rightarrow> string list" where
  "handle_health client_socket = (if 0 \<le> client_socket then [health_response] else [])"

datatype phase = Looping | Joining | Stopped

text \<open>
  \<open>backlog\<close> counts the connections a client has opened and nobody has accepted; \<open>blocked\<close> the threads
  that have not come back from \<^verbatim>\<open>accept\<close>; \<open>serving\<close> those that have; \<open>workers\<close> the length of the
  vector of threads.
\<close>

record server_threads =
  keep_running :: bool
  main_phase :: phase
  backlog :: "service \<Rightarrow> nat"
  blocked :: "service \<Rightarrow> nat"
  serving :: "service \<Rightarrow> nat"
  workers :: nat

definition threads_start :: server_threads where
  "threads_start = \<lparr>keep_running = True, main_phase = Looping, backlog = (\<lambda>_. 0), blocked = (\<lambda>_. 0),
     serving = (\<lambda>_. 0), workers = 0\<rparr>"

fun perform :: "action \<Rightarrow> server_threads \<Rightarrow> server_threads" where
  "perform (Spawn s) st = st\<lparr>blocked := (blocked st)(s := blocked st s + 1), workers := workers st + 1\<rparr>"
| "perform (Handle s) st = st\<lparr>backlog := (backlog st)(s := backlog st s - 1)\<rparr>"

definition main_round :: "server_threads \<Rightarrow> server_threads" where
  "main_round st = fold perform (dispatch (\<lambda>s. 0 < backlog st s)) st"

text \<open>The handler of the signals, and what a signal does: without a handler it ends the process.\<close>

definition stop_server :: "server_threads \<Rightarrow> server_threads" where
  "stop_server st = st\<lparr>keep_running := False\<rparr>"

declare stop_server_def [simp]

definition deliver_signal :: "signal \<Rightarrow> kernel \<Rightarrow> server_threads \<Rightarrow> server_threads option" where
  "deliver_signal s k st = (if s \<in> handled k then Some (stop_server st) else None)"

lemma registered_signals_stop:
  "deliver_signal s (register_signals k) st = Some (stop_server st)"
  by (cases s) (simp_all add: deliver_signal_def register_signals_def sys_signal_def)

datatype label = Arrive service | Round | Accept service | Finish service | Signal | Leave | Stop

inductive server_step :: "server_threads \<Rightarrow> label \<Rightarrow> server_threads \<Rightarrow> bool" where
  arrive: "server_step st (Arrive s) (st\<lparr>backlog := (backlog st)(s := backlog st s + 1)\<rparr>)"
| round: "main_phase st = Looping \<Longrightarrow> keep_running st \<Longrightarrow> server_step st Round (main_round st)"
| accept: "0 < blocked st s \<Longrightarrow> 0 < backlog st s \<Longrightarrow>
    server_step st (Accept s) (st\<lparr>backlog := (backlog st)(s := backlog st s - 1),
      blocked := (blocked st)(s := blocked st s - 1), serving := (serving st)(s := serving st s + 1)\<rparr>)"
| finish: "0 < serving st s \<Longrightarrow>
    server_step st (Finish s) (st\<lparr>serving := (serving st)(s := serving st s - 1)\<rparr>)"
| signal: "keep_running st \<Longrightarrow> server_step st Signal (stop_server st)"
| leave: "main_phase st = Looping \<Longrightarrow> \<not> keep_running st \<Longrightarrow>
    server_step st Leave (st\<lparr>main_phase := Joining\<rparr>)"
| stop: "main_phase st = Joining \<Longrightarrow> (\<And>s. blocked st s = 0 \<and> serving st s = 0) \<Longrightarrow>
    server_step st Stop (st\<lparr>main_phase := Stopped\<rparr>)"

inductive server_run :: "server_threads \<Rightarrow> label list \<Rightarrow> server_threads \<Rightarrow> bool" where
  nil: "server_run st [] st"
| step: "server_step st l st' \<Longrightarrow> server_run st' ls st'' \<Longrightarrow> server_run st (l # ls) st''"

inductive_cases server_step_elims: "server_step st l st'"

subsection \<open>The sockets of the server\<close>

lemma open_fds_close:
  "open_fds (close_sockets sockets k) = filter (\<lambda>n. int n \<notin> set sockets) (open_fds k)"
proof (induction sockets k rule: close_sockets.induct)
  case (1 k)
  then show ?case by simp
next
  case (2 socket_fd sockets k)
  show ?case
    unfolding close_sockets.simps 2
    by (auto simp: sys_close_def intro!: filter_cong)
qed

lemma open_fds_print [simp]: "open_fds (sys_print out line k) = open_fds k"
  by (simp add: sys_print_def)

lemma console_print [simp]: "console (sys_print out line k) = console k @ [(out, line)]"
  by (simp add: sys_print_def)

lemma socket_table_print [simp]: "socket_table (sys_print out line k) = socket_table k"
  by (simp add: sys_print_def)

lemma console_close [simp]: "console (close_sockets sockets k) = console k"
  by (induction sockets k rule: close_sockets.induct) (simp_all add: sys_close_def)

lemma register_signals_frame [simp]:
  "open_fds (register_signals k) = open_fds k" "console (register_signals k) = console k"
  by (simp_all add: register_signals_def sys_signal_def)

lemma open_listener_one: "opens_one (bound_socket type port) k (open_listener type port k)"
  by (cases type) (simp_all add: open_listener_def open_tcp_one open_udp_one)

text \<open>The sockets opened so far are fresh, increasing, and below every descriptor to come.\<close>

definition opened_over :: "nat list \<Rightarrow> int list \<Rightarrow> kernel \<Rightarrow> bool" where
  "opened_over base sockets k \<longleftrightarrow>
     (\<exists>fds. sockets = map int fds \<and> open_fds k = base @ fds \<and> sorted_wrt (<) fds \<and>
        set fds \<inter> set base = {} \<and> (\<forall>n \<in> set fds. n < lowest_free (open_fds k)))"

lemma opened_over_step:
  assumes "opened_over base sockets k" and "open_listener type port k = (fd, k')" and "0 \<le> fd"
  shows "opened_over base (sockets @ [fd]) k'"
proof -
  obtain fds where f: "sockets = map int fds" "open_fds k = base @ fds" "sorted_wrt (<) fds"
    "set fds \<inter> set base = {}" "\<forall>n \<in> set fds. n < lowest_free (open_fds k)"
    using assms(1) by (auto simp: opened_over_def)
  define l where "l = lowest_free (open_fds k)"
  have r: "fd = int l" "open_fds k' = base @ fds @ [l]"
    using open_listener_one [of type port k] assms(2,3) f(2) by (auto simp: opens_one_def Let_def l_def)
  have "n < lowest_free (open_fds k')" if "n \<le> l" for n
  proof -
    have "m \<in> set (open_fds k')" if "m \<le> l" for m
      using that lowest_free_least [of m "open_fds k"] r(2) f(2) by (cases "m = l") (auto simp: l_def)
    then show ?thesis using lowest_free_not_open [of "open_fds k'"] \<open>n \<le> l\<close>
      by (meson leI le_trans)
  qed
  moreover have "l \<notin> set base" "l \<notin> set fds"
    using lowest_free_not_open [of "open_fds k"] f(2) by (auto simp: l_def)
  ultimately show ?thesis
    unfolding opened_over_def using f r
    by (intro exI [of _ "fds @ [l]"]) (auto simp: sorted_wrt_append l_def less_imp_le)
qed

lemma opened_over_print [simp]: "opened_over base sockets (sys_print out line k) = opened_over base sockets k"
  by (simp add: opened_over_def)

lemma opened_over_close: "opened_over base sockets k \<Longrightarrow> open_fds (close_sockets sockets k) = base"
  by (auto simp: opened_over_def open_fds_close filter_id_conv filter_empty_conv disjoint_iff)

lemma open_listeners_spec:
  "opened_over base sockets k \<Longrightarrow>
   (case open_listeners ls sockets k of
      (None, k') \<Rightarrow> open_fds k' = base
    | (Some sockets', k') \<Rightarrow> opened_over base sockets' k' \<and> length sockets' = length sockets + length ls)"
proof (induction ls sockets k rule: open_listeners.induct)
  case (1 sockets k)
  then show ?case by simp
next
  case (2 service type port rest sockets k)
  obtain fd k' where o: "open_listener type port k = (fd, k')" by fastforce
  show ?case
  proof (cases "0 \<le> fd")
    case True
    then show ?thesis
      using 2 o opened_over_step [OF "2.prems" o True] by (auto split: prod.splits option.splits)
  next
    case False
    then have "open_fds k' = open_fds k" using open_listener_one [of type port k] o
      by (auto simp: opens_one_def Let_def)
    then have "open_fds (close_sockets sockets (sys_print Cerr (bind_error service) k')) = base"
      using opened_over_close [OF "2.prems"] by (simp add: open_fds_close)
    with o False show ?thesis by simp
  qed
qed

text \<open>How the sockets of a list of listeners are set up, and what a failure says.\<close>

definition set_up :: "(service \<times> socket_type \<times> u16) list \<Rightarrow> int list \<Rightarrow> kernel \<Rightarrow> bool" where
  "set_up ls sockets k \<longleftrightarrow>
     map (socket_table k) sockets = map (\<lambda>(service, type, port). Some (bound_socket type port)) ls"

lemma open_listeners_set_up:
  "opened_over base sockets k \<Longrightarrow> set_up before sockets k \<Longrightarrow>
   (case open_listeners ls sockets k of
      (None, k') \<Rightarrow> \<exists>l \<in> set ls. console k' = console k @ [(Cerr, bind_error (fst l))]
    | (Some sockets', k') \<Rightarrow> set_up (before @ ls) sockets' k' \<and> console k' = console k)"
proof (induction ls sockets k arbitrary: before rule: open_listeners.induct)
  case (1 sockets k)
  then show ?case by simp
next
  case (2 service type port rest sockets k)
  obtain fd k' where o: "open_listener type port k = (fd, k')" by fastforce
  have one: "opens_one (bound_socket type port) k (fd, k')"
    using open_listener_one [of type port k] o by simp
  then have con: "console k' = console k" by (simp add: opens_one_def)
  show ?case
  proof (cases "0 \<le> fd")
    case True
    have "set_up (before @ [(service, type, port)]) (sockets @ [fd]) k'"
    proof -
      have t: "fd = int (lowest_free (open_fds k))"
        "socket_table k' = (socket_table k)(fd \<mapsto> bound_socket type port)"
        using one True by (auto simp: opens_one_def Let_def)
      have "fd \<notin> set sockets"
        using "2.prems"(1) lowest_free_not_open [of "open_fds k"] t(1) by (auto simp: opened_over_def)
      then have "map (socket_table k') sockets = map (socket_table k) sockets" by (auto simp: t(2))
      with "2.prems"(2) t(2) show ?thesis by (simp add: set_up_def)
    qed
    note this = 2(1) [OF o [symmetric] refl True opened_over_step [OF "2.prems"(1) o True] this]
    with True o con show ?thesis by (auto split: prod.splits option.splits)
  next
    case False
    with o con show ?thesis by simp
  qed
qed

lemma opened_over_start: "opened_over (open_fds k) [] k"
  by (simp add: opened_over_def)

lemma start_server_spec:
  "case start_server c tls k of
     (None, k') \<Rightarrow> open_fds k' = open_fds k
   | (Some sockets, k') \<Rightarrow> opened_over (open_fds k) sockets k' \<and> length sockets = 11"
  using open_listeners_spec [OF opened_over_start, of k "listeners c"]
  by (auto simp: start_server_def listeners_def opened_over_close split: prod.splits option.splits
      simp del: open_listeners.simps)

subsection \<open>The threads of the server\<close>

text \<open>The services are finitely many, so that sums over them make sense.\<close>

instantiation service :: enum
begin

definition enum_service :: "service list" where
  "enum_service = map service_of dispatch_order"

definition enum_all_service :: "(service \<Rightarrow> bool) \<Rightarrow> bool" where
  "enum_all_service P \<longleftrightarrow> list_all P enum_class.enum"

definition enum_ex_service :: "(service \<Rightarrow> bool) \<Rightarrow> bool" where
  "enum_ex_service P \<longleftrightarrow> list_ex P enum_class.enum"

instance
proof
  have "s \<in> set enum_class.enum" for s :: service
    by (cases s) (simp_all add: enum_service_def dispatch_order_def)
  then show u: "(UNIV :: service set) = set enum_class.enum" by blast
  show "distinct (enum_class.enum :: service list)" by (simp add: enum_service_def dispatch_order_def)
  show "enum_class.enum_all P \<longleftrightarrow> Ball UNIV P" for P :: "service \<Rightarrow> bool"
    unfolding enum_all_service_def u by (simp add: list_all_iff)
  show "enum_class.enum_ex P \<longleftrightarrow> Bex UNIV P" for P :: "service \<Rightarrow> bool"
    unfolding enum_ex_service_def u by (simp add: list_ex_iff)
qed

end

text \<open>The waiting a thread still has to do: a blocked one counts twice, for its \<^verbatim>\<open>accept\<close> and its service.\<close>

definition remaining_work :: "server_threads \<Rightarrow> nat" where
  "remaining_work st = (\<Sum>s\<in>UNIV. 2 * blocked st s + serving st s)"

lemma remaining_work_decreases:
  assumes "2 * blocked st' s + serving st' s + 1 = 2 * blocked st s + serving st s"
    and "\<And>t. t \<noteq> s \<Longrightarrow> blocked st' t = blocked st t \<and> serving st' t = serving st t"
  shows "remaining_work st = Suc (remaining_work st')"
proof -
  have "(\<Sum>t\<in>UNIV - {s}. 2 * blocked st' t + serving st' t) = (\<Sum>t\<in>UNIV - {s}. 2 * blocked st t + serving st t)"
    using assms(2) by (intro sum.cong) auto
  with assms(1) show ?thesis
    by (simp add: remaining_work_def sum.remove [of UNIV s])
qed

lemma no_work_left: "remaining_work st = 0 \<longleftrightarrow> (\<forall>s. blocked st s = 0 \<and> serving st s = 0)"
  by (simp add: remaining_work_def)

text \<open>A step that lets a thread go on which has something left to do.\<close>

definition serves :: "server_threads \<Rightarrow> label \<Rightarrow> bool" where
  "serves st l \<longleftrightarrow> l = Stop \<or> (\<exists>s. l \<in> {Accept s, Finish s} \<and> 0 < blocked st s + serving st s)"

lemma stop_when_served:
  "main_phase st = Joining \<Longrightarrow> (\<And>s. blocked st s \<le> backlog st s) \<Longrightarrow>
   \<exists>ls st'. server_run st ls st' \<and> main_phase st' = Stopped \<and> length ls = Suc (remaining_work st) \<and>
     list_all (serves st) ls"
proof (induction "remaining_work st" arbitrary: st)
  case 0
  then have "\<forall>s. blocked st s = 0 \<and> serving st s = 0" using no_work_left [of st] by simp
  then have "server_step st Stop (st\<lparr>main_phase := Stopped\<rparr>)"
    using 0 by (intro server_step.stop) simp_all
  then have "server_run st [Stop] (st\<lparr>main_phase := Stopped\<rparr>)"
    by (rule server_run.step [OF _ server_run.nil])
  then show ?case using 0(1) by (intro exI [of _ "[Stop]"]) (auto simp: serves_def)
next
  case (Suc n)
  then obtain s where s: "0 < serving st s \<or> 0 < blocked st s"
    using no_work_left [of st] by (metis gr0I nat.distinct(1))
  obtain l st' where st': "server_step st l st'" "remaining_work st = Suc (remaining_work st')"
    "main_phase st' = Joining" "\<forall>s. blocked st' s \<le> backlog st' s" "serves st l"
    "\<forall>t. 0 < blocked st' t + serving st' t \<longrightarrow> 0 < blocked st t + serving st t"
  proof (cases "0 < serving st s")
    case True
    let ?st' = "st\<lparr>serving := (serving st)(s := serving st s - 1)\<rparr>"
    have "server_step st (Finish s) ?st'" using True by (rule server_step.finish)
    moreover have "remaining_work st = Suc (remaining_work ?st')"
      using True by (intro remaining_work_decreases [where s = s]) simp_all
    ultimately show ?thesis using that [of "Finish s" ?st'] Suc.prems True by (simp add: serves_def)
  next
    case False
    with s have b: "0 < blocked st s" by simp
    then have a: "0 < backlog st s" using Suc.prems(2) [of s] by linarith
    let ?st' = "st\<lparr>backlog := (backlog st)(s := backlog st s - 1),
      blocked := (blocked st)(s := blocked st s - 1), serving := (serving st)(s := serving st s + 1)\<rparr>"
    have "server_step st (Accept s) ?st'" using b a by (rule server_step.accept)
    moreover have "remaining_work st = Suc (remaining_work ?st')"
      using b by (intro remaining_work_decreases [where s = s]) simp_all
    moreover have "\<forall>t. blocked ?st' t \<le> backlog ?st' t" using Suc.prems(2) by (simp add: diff_le_mono)
    ultimately show ?thesis using that [of "Accept s" ?st'] Suc.prems b by (simp add: serves_def)
  qed
  then obtain ls st'' where r: "server_run st' ls st''" "main_phase st'' = Stopped"
    "length ls = Suc (remaining_work st')" "list_all (serves st') ls"
    using Suc.hyps(1) [of st'] Suc.hyps(2) by auto
  have "list_all (serves st) ls"
    using r(4) st'(6) by (auto simp: list_all_iff serves_def)
  then show ?case
    using st' r by (intro exI [of _ "l # ls"] exI [of _ st'']) (auto intro: server_run.step)
qed

text \<open>No thread outlives the server.\<close>

lemma stopped_stays:
  assumes "server_step st l st'" and "main_phase st = Stopped \<longrightarrow> (\<forall>s. blocked st s = 0 \<and> serving st s = 0)"
  shows "main_phase st' = Stopped \<longrightarrow> (\<forall>s. blocked st' s = 0 \<and> serving st' s = 0)"
  using assms
proof (cases rule: server_step.cases)
  case round
  have "main_phase (fold perform as st) = main_phase st" for "as"
  proof (induction "as" arbitrary: st)
    case (Cons a "as")
    then show ?case by (cases a) simp_all
  qed simp
  with round show ?thesis by (simp add: main_round_def)
qed auto

lemma stopped_joined:
  "server_run st ls st' \<Longrightarrow> (main_phase st = Stopped \<longrightarrow> (\<forall>s. blocked st s = 0 \<and> serving st s = 0)) \<Longrightarrow>
   main_phase st' = Stopped \<longrightarrow> (\<forall>s. blocked st' s = 0 \<and> serving st' s = 0)"
  by (induction rule: server_run.induct) (blast dest: stopped_stays)+

subsection \<open>Properties\<close>

text \<open>
  C29. The start is all or nothing: either it fails and the open descriptors are what they were,
  whichever socket or the TLS context failed, or it opens eleven fresh sockets, in increasing order, so
  that the last one, on which \<^verbatim>\<open>select\<close> bases its range, is the highest.
\<close>

theorem start_all_or_nothing:
  "(case start_server c relay_ssl_context_ok k of
      (None, k') \<Rightarrow> open_fds k' = open_fds k
    | (Some sockets, k') \<Rightarrow> length sockets = 11 \<and> sorted_wrt (<) sockets \<and>
        list_all (\<lambda>fd. 0 \<le> fd \<and> nat fd \<notin> set (open_fds k) \<and> fd \<le> last sockets) sockets \<and>
        open_fds k' = open_fds k @ map nat sockets)"
proof -
  have l: "fd \<le> last xs" if "sorted_wrt (<) xs" "fd \<in> set xs" for fd and xs :: "int list"
    using that by (induction xs) (auto simp: less_imp_le)
  have m: "map nat (map int fds) = fds" for fds by (induction fds) simp_all
  show ?thesis
  proof (cases "start_server c relay_ssl_context_ok k")
    case (Pair r k')
    show ?thesis
    proof (cases r)
      case None
      then show ?thesis using start_server_spec [where c = c and tls = relay_ssl_context_ok and k = k] Pair by simp
    next
      case (Some sockets)
      then obtain fds where f: "sockets = map int fds" "open_fds k' = open_fds k @ fds"
        "sorted_wrt (<) fds" "set fds \<inter> set (open_fds k) = {}" "length sockets = 11"
        using start_server_spec [where c = c and tls = relay_ssl_context_ok and k = k] Pair by (auto simp: opened_over_def)
      then have "sorted_wrt (<) sockets" by (simp add: sorted_wrt_map)
      with f l [OF this] show ?thesis
        unfolding Pair Some by (auto simp: list_all_iff m simp del: map_map)
    qed
  qed
qed



text \<open>
  What the operator reads: one line on the error stream and exit code 1, or the banner, the farewell and
  exit code 0.
\<close>

lemma program_console:
  assumes "main_program stoul_what getenv relay_ssl_context_ok k = (code, k')"
  shows "code = 1 \<and> (\<exists>line. console k' = console k @ [(Cerr, line)]) \<or>
    code = 0 \<and> (\<exists>c. config_from_environment getenv = Inr c \<and>
      console k' = console k @ [(Cout, start_banner c), (Cout, ''server stopped'' @ new_line)])"
proof (cases "config_from_environment getenv")
  case (Inl e)
  then show ?thesis using assms by (auto simp: main_program_def)
next
  case (Inr c)
  then show ?thesis
    using open_listeners_set_up [OF opened_over_start, of "[]" "register_signals k" "listeners c"] assms
    by (auto simp: main_program_def run_server_def start_server_def set_up_def
        split: prod.splits option.splits if_splits simp del: open_listeners.simps)
qed

text \<open>
  When a stop has begun and every thread that waits in \<^verbatim>\<open>accept\<close> has a connection to accept, the
  stop can finish without a new client, in as many steps as the threads have left; and a server that
  has stopped, however it got there, has no thread left.
\<close>

theorem stop_finishes:
  assumes "server_run threads_start past st" and "main_phase st = Joining"
    and "\<forall>s. blocked st s \<le> backlog st s"
  shows "\<exists>ls st'. server_run st ls st' \<and> main_phase st' = Stopped \<and>
    length ls = Suc (remaining_work st) \<and> remaining_work st' = 0"
proof -
  obtain ls st' where r: "server_run st ls st'" "main_phase st' = Stopped" "length ls = Suc (remaining_work st)"
    using stop_when_served [OF assms(2)] assms(3) by blast
  have "\<forall>s. blocked st' s = 0 \<and> serving st' s = 0"
    using stopped_joined [OF r(1)] assms(2) r(2) by simp
  then have "remaining_work st' = 0" by (simp add: no_work_left)
  with r show ?thesis by blast
qed

theorem stop_finishes_witness:
  "\<exists>ls st'. server_run (threads_start\<lparr>keep_running := False, main_phase := Joining\<rparr>) ls st' \<and>
    main_phase st' = Stopped"
proof -
  have "server_run threads_start [Signal, Leave] (threads_start\<lparr>keep_running := False, main_phase := Joining\<rparr>)"
    using server_step.signal [of threads_start] server_step.leave [of "threads_start\<lparr>keep_running := False\<rparr>"]
    by (auto simp: threads_start_def intro!: server_run.step server_run.nil)
  from stop_finishes [OF this] show ?thesis by (simp add: threads_start_def) blast
qed

text \<open>The run of the next property, state by state.\<close>

definition hung :: server_threads where
  "hung = \<lparr>keep_running = False, main_phase = Joining, backlog = (\<lambda>_. 0),
     blocked = (\<lambda>_. 0)(Svc_Nas := 1), serving = (\<lambda>_. 0), workers = 2\<rparr>"

lemma two_rounds_one_connection:
  "server_run threads_start
     [Arrive Svc_Nas, Round, Round, Accept Svc_Nas, Finish Svc_Nas, Signal, Leave] hung"
proof -
  let ?s1 = "threads_start\<lparr>backlog := (\<lambda>_. 0)(Svc_Nas := 1)\<rparr>"
  let ?s2 = "?s1\<lparr>blocked := (\<lambda>_. 0)(Svc_Nas := 1), workers := 1\<rparr>"
  let ?s3 = "?s1\<lparr>blocked := (\<lambda>_. 0)(Svc_Nas := 2), workers := 2\<rparr>"
  let ?s4 = "threads_start\<lparr>blocked := (\<lambda>_. 0)(Svc_Nas := 1), serving := (\<lambda>_. 0)(Svc_Nas := 1), workers := 2\<rparr>"
  let ?s5 = "threads_start\<lparr>blocked := (\<lambda>_. 0)(Svc_Nas := 1), workers := 2\<rparr>"
  let ?s6 = "?s5\<lparr>keep_running := False\<rparr>"
  have z: "(\<lambda>_. 0 :: nat)(Svc_Nas := 0) = (\<lambda>_. 0)" by (simp add: fun_eq_iff)
  have s1: "server_step threads_start (Arrive Svc_Nas) ?s1"
    using server_step.arrive [of threads_start Svc_Nas] by (simp add: threads_start_def)
  have s2: "server_step ?s1 Round ?s2"
    using server_step.round [of ?s1]
    by (simp add: threads_start_def main_round_def dispatch_def dispatch_order_def)
  have s3: "server_step ?s2 Round ?s3"
    using server_step.round [of ?s2]
    by (simp add: threads_start_def main_round_def dispatch_def dispatch_order_def numeral_2_eq_2)
  have s4: "server_step ?s3 (Accept Svc_Nas) ?s4"
    using server_step.accept [of ?s3 Svc_Nas] by (simp add: threads_start_def z numeral_2_eq_2)
  have s5: "server_step ?s4 (Finish Svc_Nas) ?s5"
    using server_step.finish [of ?s4 Svc_Nas] by (simp add: threads_start_def z)
  have s6: "server_step ?s5 Signal ?s6"
    using server_step.signal [of ?s5] by (simp add: threads_start_def)
  have s7: "server_step ?s6 Leave hung"
    using server_step.leave [of ?s6] by (simp add: threads_start_def hung_def)
  show ?thesis
    by (intro server_run.step [OF s1] server_run.step [OF s2] server_run.step [OF s3]
        server_run.step [OF s4] server_run.step [OF s5] server_run.step [OF s6]
        server_run.step [OF s7] server_run.nil)
qed

text \<open>
  C33. A readable socket stays readable until its thread has called \<^verbatim>\<open>accept\<close>, and every round starts a
  thread for it: one connection can leave a second thread behind that waits in \<^verbatim>\<open>accept\<close>. A stop
  then joins a thread that nothing wakes: no step is left but a new connection from outside.
\<close>

theorem stop_can_hang:
  "\<exists>st. server_run threads_start
       [Arrive Svc_Nas, Round, Round, Accept Svc_Nas, Finish Svc_Nas, Signal, Leave] st \<and>
     main_phase st = Joining \<and>
     \<not> (\<exists>l st'. server_step st l st' \<and> l \<notin> range Arrive)"
proof (intro exI conjI)
  show "\<not> (\<exists>l st'. server_step hung l st' \<and> l \<notin> range Arrive)"
    by (auto simp: hung_def elim!: server_step_elims split: if_splits)
qed (use two_rounds_one_connection in \<open>simp_all add: hung_def\<close>)

end
