(* ===== verification/Server_World.thy ===== *)
theory Server_World
  imports Discovery_Threads Natneg_Runs Nas_Threads Profile_Threads Server_Dns Server_Gamestats
    Server_Relay Server_Main
begin

section \<open>The whole server\<close>

text \<open>
  One record holds what the threads of the server share, one event is what one thread does without
  another coming in between, and \<open>serve\<close> hands each event to the code of its component, as the main loop
  of \<^verbatim>\<open>src/server.cpp\<close> and the threads it starts do. The profile server and the NAS server work on the
  same tables. The rest of a datagram's handling may fall between the sections of a QR packet here,
  which is more than the one main thread allows.
\<close>

record server_world =
  w_discovery :: discovery
  w_natneg :: natneg_sessions
  w_profiles :: profile_system
  w_nas_workers :: "int \<Rightarrow> nas_worker option"
  w_stats_generator :: rng
  w_tls :: "tls_object list"

datatype world_event =
    On_Discovery discovery_input
  | On_Natneg natneg_event
  | On_Dns datagram
  | On_Health int
  | On_Dns_Stream packet
  | On_Browser packet
  | On_Nas nas_event
  | On_Profile profile_event
  | On_Stats int bool "string list"
  | On_Relay int relay_calls

datatype world_output =
    From_Discovery discovery_output
  | From_Natneg sent
  | From_Dns sent
  | From_Health "string list"
  | From_Dns_Stream "packet list"
  | From_Browser "packet list"
  | From_Nas "string list"
  | From_Profile "(int \<times> string) list"
  | From_Stats "string list"
  | From_Relay relay_result

definition pool_of :: "server_world \<Rightarrow> nas_pool" where
  "pool_of w = \<lparr>pool_state = pw_nas (ps_world (w_profiles w)), pool_workers = w_nas_workers w\<rparr>"

definition with_pool :: "nas_pool \<Rightarrow> server_world \<Rightarrow> server_world" where
  "with_pool p w =
     w\<lparr>w_profiles := (w_profiles w)\<lparr>ps_world := (ps_world (w_profiles w))\<lparr>pw_nas := pool_state p\<rparr>\<rparr>,
       w_nas_workers := pool_workers p\<rparr>"

text \<open>The parameters stand for MD5 and \<^verbatim>\<open>inet_pton\<close>.\<close>

fun serve ::
  "config \<Rightarrow> (string \<Rightarrow> packet) \<Rightarrow> (string \<Rightarrow> (u8 \<times> u8 \<times> u8 \<times> u8) option) \<Rightarrow>
   world_event \<Rightarrow> server_world \<Rightarrow> (world_output \<times> server_world) option" where
  "serve c digest inet_pton (On_Discovery e) w =
     map_option (\<lambda>(out, d). (From_Discovery out, w\<lparr>w_discovery := d\<rparr>))
       (discovery_serve (gamespy_secret_key c) e (w_discovery w))"
| "serve c digest inet_pton (On_Natneg e) w =
     map_option (\<lambda>(out, s). (From_Natneg out, w\<lparr>w_natneg := s\<rparr>)) (natneg_serve e (w_natneg w))"
| "serve c digest inet_pton (On_Dns incoming) w =
     map_option (\<lambda>out. (From_Dns out, w)) (handle_dns_packet (advertised_address c) incoming)"
| "serve c digest inet_pton (On_Health fd) w = Some (From_Health (handle_health fd), w)"
| "serve c digest inet_pton (On_Dns_Stream stream) w =
     map_option (\<lambda>out. (From_Dns_Stream out, w))
       (handle_dns_tcp_connection (advertised_address c) stream)"
| "serve c digest inet_pton (On_Browser stream) w =
     map_option (\<lambda>out. (From_Browser out, w)) (handle_game_connection inet_pton stream)"
| "serve c digest inet_pton (On_Nas e) w =
     map_option (\<lambda>(out, p). (From_Nas out, with_pool p w)) (nas_serve e (pool_of w))"
| "serve c digest inet_pton (On_Profile e) w =
     map_option (\<lambda>(out, s). (From_Profile out, w\<lparr>w_profiles := s\<rparr>))
       (profile_serve digest e (w_profiles w))"
| "serve c digest inet_pton (On_Stats fd greeting_sent chunks) w =
     map_option (\<lambda>(out, g). (From_Stats out, w\<lparr>w_stats_generator := g\<rparr>))
       (handle_gamestats_connection fd greeting_sent chunks (w_stats_generator w))"
| "serve c digest inet_pton (On_Relay fd calls) w =
     map_option (\<lambda>result. (From_Relay result, w\<lparr>w_tls := live_objects result\<rparr>))
       (handle_relay_connection fd calls (w_tls w))"

record server_seeds =
  qr_seed :: rng
  nas_seed :: rng
  profile_seed :: rng
  stats_seed :: rng

definition world_start :: "server_seeds \<Rightarrow> (nat \<Rightarrow> nat) \<Rightarrow> server_world" where
  "world_start seeds clock =
     \<lparr>w_discovery = discovery_start (qr_seed seeds), w_natneg = [],
      w_profiles = profile_start (nas_seed seeds) (profile_seed seeds) clock,
      w_nas_workers = Map.empty, w_stats_generator = stats_seed seeds, w_tls = [Context]\<rparr>"

subsection \<open>Nothing fails\<close>

definition world_inv :: "server_world \<Rightarrow> bool" where
  "world_inv w \<longleftrightarrow>
     discovery_inv (w_discovery w) \<and> natneg_inv (w_natneg w) \<and> pool_inv (pool_of w) \<and>
     system_inv (w_profiles w) \<and> w_tls w = [Context]"

fun world_possible :: "world_event \<Rightarrow> bool" where
  "world_possible (On_Nas e) \<longleftrightarrow> nas_possible e"
| "world_possible e \<longleftrightarrow> True"

lemma pool_with [simp]: "pool_of (with_pool p w) = p"
  by (simp add: pool_of_def with_pool_def)

lemma with_pool_frame [simp]:
  "w_discovery (with_pool p w) = w_discovery w" "w_natneg (with_pool p w) = w_natneg w"
  "w_tls (with_pool p w) = w_tls w" "ps_conns (w_profiles (with_pool p w)) = ps_conns (w_profiles w)"
  by (simp_all add: with_pool_def)

lemma pool_frame [simp]:
  "pool_of (w\<lparr>w_discovery := d\<rparr>) = pool_of w" "pool_of (w\<lparr>w_natneg := n\<rparr>) = pool_of w"
  "pool_of (w\<lparr>w_stats_generator := g\<rparr>) = pool_of w" "pool_of (w\<lparr>w_tls := l\<rparr>) = pool_of w"
  by (simp_all add: pool_of_def)

lemma nas_serve_keeps_ids:
  assumes "pool_inv p" and "nas_possible e" and "nas_serve e p = Some (out, p')"
  shows "keeps_ids (pool_state p) (pool_state p')"
proof (cases "\<exists>fd now wk. e = Nas_Section fd now \<and> pool_workers p fd = Some wk")
  case True
  then obtain fd now wk where e: "e = Nas_Section fd now" and w: "pool_workers p fd = Some wk" by blast
  then have n: "before_year_10000 now" using assms(2) by simp
  show ?thesis
    using pool_section_steps [OF assms(1) n w] assms(3) unfolding e by (auto simp del: nas_serve.simps)
next
  case False
  then have "pool_state p' = pool_state p"
    using assms(3) by (cases e) (auto split: option.splits if_splits)
  then show ?thesis by (simp add: keeps_ids_refl)
qed

lemma gamestats_total: "\<exists>out g'. handle_gamestats_connection fd ok chunks g = Some (out, g')"
proof -
  obtain st where "serve_chunks handle_stats_message chunks []
      [gamespy_message (stats_greeting (fst (gamestats_challenge g)))] =
      Some (remainder_of (concat chunks), st)"
    using gamestats.serve_total by blast
  then show ?thesis by (simp add: handle_gamestats_connection_def case_prod_beta Let_def)
qed

lemma browser_total: "\<exists>out. handle_game_connection inet_pton stream = Some out"
proof (cases "\<exists>b0 b1 s. stream = b0 # b1 # s")
  case False
  then have "length stream < 2" by (cases stream; cases "tl stream") auto
  then show ?thesis by (simp add: handle_game_connection_def recv_waitall_def)
next
  case True
  then obtain b0 b1 s where s: "stream = b0 # b1 # s" by blast
  let ?p = "[b0, b1] @ take (unat b0 * 256 + unat b1 - 2) s"
  obtain ok r where "parse_browser_request ?p no_request = Some (ok, r)"
    using parse_browser_total by blast
  then show ?thesis
    by (simp add: s handle_game_connection_def recv_waitall_def rd_def numeral_2_eq_2 Let_def)
qed

lemma relay_total: "\<exists>r. handle_relay_connection fd calls tls = Some r \<and> live_objects r = tls"
  by (cases "peeked calls") (auto simp: handle_relay_connection_def tls_new_def tls_free_def Let_def)

lemma dns_total:
  "\<exists>out. handle_dns_packet address incoming = Some out"
  "\<exists>out. handle_dns_tcp_connection address stream = Some out"
  using dns_sockets_answer [where address = address and incoming = incoming and stream = stream] by blast+

lemma world_steps:
  assumes "world_inv w" and "world_possible e"
  shows "\<exists>out w'. serve c digest inet_pton e w = Some (out, w') \<and> world_inv w'"
proof (cases e)
  case (On_Discovery x)
  then show ?thesis
    using discovery_threads.step_total [where s = "w_discovery w" and e = x and secret_key = "gamespy_secret_key c"] assms(1)
    by (auto simp: world_inv_def simp del: discovery_serve.simps)
next
  case (On_Natneg x)
  then show ?thesis
    using natneg_machine.step_total [of "w_natneg w" x] assms(1) by (auto simp: world_inv_def)
next
  case (On_Dns incoming)
  then show ?thesis
    using dns_total(1) [of "advertised_address c" incoming] assms(1) by auto
next
  case (On_Health fd)
  with assms(1) show ?thesis by simp
next
  case (On_Dns_Stream stream)
  then show ?thesis
    using dns_total(2) [of "advertised_address c" stream] assms(1) by auto
next
  case (On_Browser stream)
  then show ?thesis using browser_total [of inet_pton stream] assms(1) by auto
next
  case (On_Nas x)
  have p: "pool_inv (pool_of w)" "nas_possible x" using assms On_Nas by (simp_all add: world_inv_def)
  obtain out p' where x: "nas_serve x (pool_of w) = Some (out, p')" "pool_inv p'"
    using nas_threads.step_total [OF p] by blast
  have "system_inv (w_profiles (with_pool p' w))"
    using system_inv_nas [of "w_profiles w" "pool_state p'"] nas_serve_keeps_ids [OF p x(1)] assms(1) x(2)
    by (simp add: world_inv_def with_pool_def pool_inv_def) (simp add: pool_of_def)
  with x assms(1) show ?thesis by (simp add: On_Nas world_inv_def del: nas_serve.simps)
next
  case (On_Profile x)
  obtain out s' where x: "profile_serve digest x (w_profiles w) = Some (out, s')" "system_inv s'"
    using profile_connections.step_total [where s = "w_profiles w" and e = x and digest = digest] assms(1) by (auto simp: world_inv_def)
  then have "pw_nas (ps_world s') = pw_nas (ps_world (w_profiles w))"
    using profile_serve_move profile_move_nas by blast
  then have "pool_of (w\<lparr>w_profiles := s'\<rparr>) = pool_of w" by (simp add: pool_of_def)
  with x assms(1) show ?thesis by (simp add: On_Profile world_inv_def)
next
  case (On_Stats fd ok chunks)
  then show ?thesis
    using gamestats_total [of fd ok chunks "w_stats_generator w"] assms(1) by (auto simp: world_inv_def)
next
  case (On_Relay fd calls)
  then show ?thesis
    using relay_total [of fd calls "w_tls w"] assms(1) by (auto simp: world_inv_def)
qed

interpretation whole_server: total_machine "serve c digest inet_pton" world_inv world_possible
  for c digest inet_pton
  using world_steps by unfold_locales blast

lemma world_start_inv: "world_inv (world_start seeds clock)"
proof -
  have "pool_of (world_start seeds clock) = nas_pool_start (nas_seed seeds)"
    by (simp add: pool_of_def world_start_def profile_start_def nas_pool_start_def)
  then show ?thesis
    using discovery_start_inv(1) natneg_start_inv pool_start_inv system_inv_start
    by (simp add: world_inv_def world_start_def)
qed

end
