(* ===== verification/World_Laws.thy ===== *)
theory World_Laws
  imports Server_World
begin

section \<open>The laws of the whole server\<close>

text \<open>
  The components run in the whole server as they run alone, and the properties that need several of
  them: from a heartbeat to a search, from a NAS login to a profile login, with anything in between.
\<close>

subsection \<open>The components\<close>

fun discovery_input_of :: "world_event \<Rightarrow> discovery_input option" where
  "discovery_input_of (On_Discovery e) = Some e"
| "discovery_input_of e = None"

fun natneg_event_of :: "world_event \<Rightarrow> natneg_event option" where
  "natneg_event_of (On_Natneg e) = Some e"
| "natneg_event_of e = None"

fun nas_event_of :: "world_event \<Rightarrow> nas_event option" where
  "nas_event_of (On_Nas e) = Some e"
| "nas_event_of e = None"

lemma discovery_input_of_iff: "discovery_input_of e = Some f \<longleftrightarrow> e = On_Discovery f"
  by (cases e) simp_all

lemma natneg_event_of_iff: "natneg_event_of e = Some f \<longleftrightarrow> e = On_Natneg f"
  by (cases e) simp_all

lemma nas_event_of_iff: "nas_event_of e = Some f \<longleftrightarrow> e = On_Nas f"
  by (cases e) simp_all

lemma pool_profiles:
  "profile_serve digest e (w_profiles w) = Some (out, s) \<Longrightarrow> pool_of (w\<lparr>w_profiles := s\<rparr>) = pool_of w"
  using profile_serve_move profile_move_nas by (fastforce simp: pool_of_def)

interpretation discovery_part: component "serve c digest inet_pton"
  "discovery_serve (gamespy_secret_key c)" w_discovery discovery_input_of From_Discovery
  for c digest inet_pton
proof
  fix e f w out w'
  assume "discovery_input_of e = Some f" and "serve c digest inet_pton e w = Some (out, w')"
  then show "\<exists>p. discovery_serve (gamespy_secret_key c) f (w_discovery w) = Some (p, w_discovery w') \<and>
      out = From_Discovery p"
    by (auto simp: discovery_input_of_iff simp del: discovery_serve.simps)
next
  fix e w out w'
  assume "discovery_input_of e = None" and "serve c digest inet_pton e w = Some (out, w')"
  then show "w_discovery w' = w_discovery w" by (cases e) auto
qed

interpretation natneg_part: component "serve c digest inet_pton" natneg_serve w_natneg natneg_event_of From_Natneg
  for c digest inet_pton
proof
  fix e f w out w'
  assume "natneg_event_of e = Some f" and "serve c digest inet_pton e w = Some (out, w')"
  then show "\<exists>p. natneg_serve f (w_natneg w) = Some (p, w_natneg w') \<and> out = From_Natneg p"
    by (auto simp: natneg_event_of_iff)
next
  fix e w out w'
  assume "natneg_event_of e = None" and "serve c digest inet_pton e w = Some (out, w')"
  then show "w_natneg w' = w_natneg w" by (cases e) auto
qed

interpretation nas_part: component "serve c digest inet_pton" nas_serve pool_of nas_event_of From_Nas
  for c digest inet_pton
proof
  fix e f w out w'
  assume "nas_event_of e = Some f" and "serve c digest inet_pton e w = Some (out, w')"
  then show "\<exists>p. nas_serve f (pool_of w) = Some (p, pool_of w') \<and> out = From_Nas p"
    by (auto simp: nas_event_of_iff simp del: nas_serve.simps)
next
  fix e w out w'
  assume "nas_event_of e = None" and "serve c digest inet_pton e w = Some (out, w')"
  then show "pool_of w' = pool_of w" by (cases e) (auto simp: pool_profiles)
qed

text \<open>A fact of a component lasts in the whole server as it lasts in the component.\<close>

lemma listing_lasts_in_server:
  assumes "world_inv w" and "listed_since k s since (w_discovery w)"
    and "run_events (serve c digest inet_pton) es w = Some (outs, w')"
    and "list_all (\<lambda>e. pred_option (meanwhile k since) (discovery_input_of e)) es"
  shows "listed_since k s since (w_discovery w')"
proof -
  obtain ps where "run_events (discovery_serve (gamespy_secret_key c)) (List.map_filter discovery_input_of es)
      (w_discovery w) = Some (ps, w_discovery w')"
    using discovery_part.run_alone [OF assms(3)] by blast
  moreover have "list_all (meanwhile k since) (List.map_filter discovery_input_of es)"
    using assms(4) by (induction es) (auto simp: List.map_filter_def)
  ultimately show ?thesis
    using listing_lasts.run_keeps [of "w_discovery w" _ k s since] assms(1,2)
    by (auto simp: world_inv_def list_all_iff)
qed

lemma session_lasts_in_server:
  assumes "world_inv w" and "session_held user session (pool_of w)"
    and "run_events (serve c digest inet_pton) es w = Some (outs, w')"
    and "list_all world_possible es" and "list_all (\<lambda>e. pred_option (no_login_of user) (nas_event_of e)) es"
  shows "session_held user session (pool_of w')"
proof -
  obtain ps where "run_events nas_serve (List.map_filter nas_event_of es) (pool_of w) = Some (ps, pool_of w')"
    using nas_part.run_alone [OF assms(3)] by blast
  moreover have "list_all nas_possible (List.map_filter nas_event_of es)"
    using assms(4)
  proof (induction es)
    case (Cons e es)
    then show ?case by (cases e) (auto simp: List.map_filter_def)
  qed (simp add: List.map_filter_def)
  moreover have "list_all (no_login_of user) (List.map_filter nas_event_of es)"
    using assms(5) by (induction es) (auto simp: List.map_filter_def)
  ultimately show ?thesis
    using session_lasts.run_keeps [of "pool_of w" _ user session] assms(1,2)
    by (auto simp: world_inv_def)
qed

lemma unlisted_lasts_in_server:
  assumes "world_inv w" and "unlisted k (w_discovery w)"
    and "run_events (serve c digest inet_pton) es w = Some (outs, w')"
    and "list_all (\<lambda>e. pred_option (no_opening k) (discovery_input_of e)) es"
  shows "unlisted k (w_discovery w')"
proof -
  obtain ps where "run_events (discovery_serve (gamespy_secret_key c)) (List.map_filter discovery_input_of es)
      (w_discovery w) = Some (ps, w_discovery w')"
    using discovery_part.run_alone [OF assms(3)] by blast
  moreover have "list_all (no_opening k) (List.map_filter discovery_input_of es)"
    using assms(4) by (induction es) (auto simp: List.map_filter_def)
  ultimately show ?thesis
    using unlisted_lasts.run_keeps [of "w_discovery w" _ k] assms(1,2)
    by (auto simp: world_inv_def list_all_iff)
qed

lemma listed_was_announced:
  assumes "run_events (serve c digest inet_pton) es (world_start seeds clock) = Some (outs, w)"
    and "registry_of (w_discovery w) k = Some (s, t)"
  shows "\<exists>now incoming packet client. On_Discovery (Qr_Receive now incoming) \<in> set es \<and>
    recvfrom 2048 incoming = Some (packet, client) \<and> opens packet client k s"
proof -
  have i: "w_discovery (world_start seeds clock) = discovery_start (qr_seed seeds)"
    by (simp add: world_start_def)
  obtain ps where "run_events (discovery_serve (gamespy_secret_key c)) (List.map_filter discovery_input_of es)
      (discovery_start (qr_seed seeds)) = Some (ps, w_discovery w)"
    using discovery_part.run_alone [OF assms(1)] unfolding i by blast
  from listed_announced [OF this discovery_start_inv(1) assms(2)]
  obtain now incoming packet client where
    "Qr_Receive now incoming \<in> set (List.map_filter discovery_input_of es)"
    "recvfrom 2048 incoming = Some (packet, client)" "opens packet client k s"
    by (auto simp: discovery_start_inv(2)) (simp add: discovery_start_def)
  moreover from this(1) have "On_Discovery (Qr_Receive now incoming) \<in> set es"
    by (auto simp: List.map_filter_def discovery_input_of_iff)
  ultimately show ?thesis by blast
qed

text \<open>An answer of a search in the whole server.\<close>

lemma search_in_server:
  assumes "world_inv w" and "d_searches (w_discovery w) fd = Some (Search_Pruned request)"
  shows "\<exists>sessions w'. serve c digest inet_pton (On_Discovery (Search_Answer fd lay)) w =
      Some (From_Discovery (Answer (render_sessions sessions)), w') \<and>
    set sessions = {s. \<exists>k t. registry_of (w_discovery w) k = Some (s, t) \<and>
      os_profile_id s \<in> set (asked_profiles request)}"
proof -
  have "discovery_inv (w_discovery w)" using assms(1) by (simp add: world_inv_def)
  then obtain sessions d where a: "discovery_serve (gamespy_secret_key c) (Search_Answer fd lay) (w_discovery w) =
      Some (Answer (render_sessions sessions), d)"
    "set sessions = {s. \<exists>k t. registry_of (w_discovery w) k = Some (s, t) \<and>
       os_profile_id s \<in> set (asked_profiles request)}"
    using search_lists_registry [OF _ assms(2)] by blast
  then have "serve c digest inet_pton (On_Discovery (Search_Answer fd lay)) w =
      Some (From_Discovery (Answer (render_sessions sessions)), w\<lparr>w_discovery := d\<rparr>)" by simp
  with a(2) show ?thesis by blast
qed

lemma registry_id:
  assumes "world_inv w" and "registry_of (w_discovery w) k = Some (s, t)"
  shows "os_session_id s = k"
  using assms by (auto simp: world_inv_def discovery_inv_def qr_inv_def registry_of_def dest: registry.reg_id)

subsection \<open>Properties\<close>


definition sample_seeds :: server_seeds where
  "sample_seeds = \<lparr>qr_seed = sample_generator, nas_seed = sample_generator,
     profile_seed = sample_generator, stats_seed = sample_generator\<rparr>"

definition sample_config :: config where
  "sample_config = \<lparr>server_name = ''KiWii'', advertised_address = ''192.168.1.84'',
     health_port = 8080, dns_port = 53, nas_port = 80, qr_port = 27900, natneg_port = 27901,
     profile_port = 29900, player_search_port = 29901, gamestats_port = 29920, relay_port = 443,
     game_port = 28910, gamespy_secret_key = ''9r3Rmy''\<rparr>"





text \<open>A server whose main thread has pruned and is about to answer the sample heartbeat.\<close>

definition announcing_world :: server_world where
  "announcing_world = (world_start sample_seeds (\<lambda>_. 0))
     \<lparr>w_discovery := (discovery_start sample_generator)
        \<lparr>d_main := Qr_Pruned (sample_heartbeat ''1'') sample_client\<rparr>\<rparr>"

lemma announcing_world_inv: "world_inv announcing_world"
  using world_start_inv [of sample_seeds "\<lambda>_. 0"] discovery_start_inv(1) [of sample_generator]
  by (simp add: world_inv_def announcing_world_def discovery_inv_def)

definition sample_search :: string where
  "sample_search = slashed ''opids'' @ ''7'' @ slashed ''final''"

lemma sample_search_asks: "asked_profiles sample_search = [''7'']"
  by code_simp

lemma sample_session_profile: "os_profile_id (described_session (sample_heartbeat ''1'') 7 sample_client) = ''7''"
  by code_simp


text \<open>
  C3. A NAS login opens the profile server, however much later: the answer of the login carries the
  challenge and the token of a session the server keeps, and as long as the user does not log in
  again, whatever else happens, a profile connection that presents this token becomes this user, with
  the profile id the login found, unless another user's session holds the very same token.
\<close>

theorem nas_login_opens_profile_later:
  assumes "world_inv w" and "w_nas_workers w fd = Some (Nas_Identified request user profile)"
    and "\<forall>other wk. other \<noteq> fd \<longrightarrow> w_nas_workers w other = Some wk \<longrightarrow> \<not> logs_in user wk"
    and "now < 253402300800"
    and "serve c digest inet_pton (On_Nas (Nas_Section fd now)) w = Some (From_Nas answer, w1)"
    and "um_find (login_sessions (pool_state (pool_of w1))) user = Some session"
    and "run_events (serve c digest inet_pton) es w1 = Some (outs, w2)"
    and "list_all world_possible es"
    and "list_all (\<lambda>e. pred_option (no_login_of user) (nas_event_of e)) es"
    and "ps_conns (w_profiles w2) pfd = Some conn"
    and "find_sub final_mark (request_buffer conn) = Some message_end"
    and "message = take (message_end + 7) (request_buffer conn)"
    and "is_profile_login message = Some True"
    and "field_after (slashed ''authtoken'') backslash message = ls_token session"
    and "\<forall>v s. um_find (login_sessions (pool_state (pool_of w2))) v = Some s \<longrightarrow>
      ls_token s = ls_token session \<longrightarrow> v = user"
  shows "\<exists>d out w3 conn'. answer = [plain_response (login_text session d)] \<and>
    serve c digest inet_pton (On_Profile (Profile_Message pfd lay)) w2 = Some (From_Profile out, w3) \<and>
    ps_conns (w_profiles w3) pfd = Some conn' \<and>
    credentials conn' = \<lparr>lc_challenge = ls_challenge session, lc_token = ls_token session,
      lc_user_id = user, lc_profile_id = profile\<rparr>"
proof -
  have n: "before_year_10000 now" using assms(4) by (simp add: before_year_10000_def)
  have wf: "nas_wf (pool_state (pool_of w))" using assms(1) by (simp add: world_inv_def pool_inv_def)
  obtain session' st d where s: "nas_section now (Nas_Identified request user profile) (pool_state (pool_of w)) =
      Some (Nas_Answered (plain_response (login_text session' d)), st)"
    "um_find (login_sessions st) user = Some session'" "ls_profile_id session' = profile"
    using login_stores [OF wf n] by blast
  have "pool_workers (pool_of w) fd = Some (Nas_Identified request user profile)"
    using assms(2) by (simp add: pool_of_def)
  then have p: "answer = [plain_response (login_text session' d)]"
    "pool_of w1 = (pool_of w)\<lparr>pool_state := st, pool_workers := (pool_workers (pool_of w))(fd := None)\<rparr>"
    using assms(5) s(1) by auto
  with s(2) assms(6) have e: "session' = session" by simp
  have h1: "session_held user session (pool_of w1)"
    using s(2) assms(3) unfolding p(2) e by (auto simp: session_held_def pool_of_def)
  have i1: "world_inv w1"
    using whole_server.step_inv [OF assms(1) _ assms(5)] n by simp
  have "session_held user session (pool_of w2)"
    by (rule session_lasts_in_server [OF i1 h1 assms(7-9)])
  then have f: "um_find (login_sessions (pool_state (pool_of w2))) user = Some session"
    by (simp add: session_held_def)
  have "um_valid (login_sessions (pool_state (pool_of w2)))"
    using whole_server.run_inv [OF i1 assms(8,7)] by (simp add: world_inv_def pool_inv_def nas_wf_def)
  then have cr: "credentials_for_token lay (ls_token session) (pool_state (pool_of w2)) =
      \<lparr>lc_challenge = ls_challenge session, lc_token = ls_token session, lc_user_id = user,
       lc_profile_id = ls_profile_id session\<rparr>"
    using credentials_unique [OF _ f refl] assms(15) by blast
  obtain out s' conn' where "profile_serve digest (Profile_Message pfd lay) (w_profiles w2) = Some (out, s')"
    "ps_conns s' pfd = Some conn'"
    "credentials conn' = credentials_for_token lay (ls_token session) (pw_nas (ps_world (w_profiles w2)))"
    using login_takes_credentials [OF assms(10-13)] assms(14) by metis
  then show ?thesis
    using cr p(1) s(3) e by (auto simp: pool_of_def)
qed

text \<open>A server with a login in its second section, and a generator that always draws the first character.\<close>

definition first_draws :: rng where
  "first_draws = \<lparr>draws = (\<lambda>_. 0), drawn = 0\<rparr>"

definition identified_nas :: nas_state where
  "identified_nas = (nas_start first_draws)\<lparr>next_profile_id := 2, user_profile_ids := [(''MTAx'', ''1'')]\<rparr>"

definition login_world :: server_world where
  "login_world = with_pool
     \<lparr>pool_state = identified_nas, pool_workers = [4 \<mapsto> Nas_Identified sample_login ''MTAx'' ''1'']\<rparr>
     (world_start sample_seeds (\<lambda>_. 0))"

definition first_session :: login_session where
  "first_session = \<lparr>ls_challenge = replicate 8 (CHR ''0''), ls_token = ''NDS'' @ replicate 80 (CHR ''0''),
     ls_request_body = body_of sample_login, ls_profile_id = ''1''\<rparr>"

definition token_message :: string where
  "token_message = render [''login'', [], ''authtoken'', ls_token first_session, ''final'']"

lemma login_world_inv: "world_inv login_world"
proof -
  have n: "nas_wf identified_nas"
    by (simp add: nas_wf_def identified_nas_def nas_start_def logins_inv_def um_valid_def um_find_def)
  then have "pool_inv (pool_of login_world)"
    by (auto simp: login_world_def pool_inv_def workers_ok_def identified_nas_def um_find_def split: if_splits)
  moreover have "system_inv (w_profiles login_world)"
    using n by (simp add: login_world_def with_pool_def system_inv_def world_start_def profile_start_def
        um.valid_empty)
  ultimately show ?thesis
    using world_start_inv [of sample_seeds "\<lambda>_. 0"] by (simp add: world_inv_def login_world_def)
qed

lemma first_random: "random_chars n alnum_alphabet \<lparr>draws = (\<lambda>_. 0), drawn = k\<rparr> =
    (replicate n (CHR ''0''), \<lparr>draws = (\<lambda>_. 0), drawn = k + n\<rparr>)"
  by (induction n arbitrary: k) (simp_all add: uniform_def alnum_alphabet_def)

lemma token_message_facts:
  "find_sub final_mark token_message = Some 101" "length token_message = 108"
  "is_profile_login token_message = Some True"
  "field_after (slashed ''authtoken'') backslash token_message = ls_token first_session"
  by code_simp+

theorem nas_login_opens_profile_later_witness:
  "\<exists>answer w1 outs w2 out w3 conn.
    serve sample_config (\<lambda>t. []) (\<lambda>_. None) (On_Nas (Nas_Section 4 0)) login_world =
      Some (From_Nas answer, w1) \<and>
    run_events (serve sample_config (\<lambda>t. []) (\<lambda>_. None))
      [On_Profile (Profile_Accept 7), On_Nas (Nas_Accept 5 [''GET /'']),
       On_Profile (Profile_Receive 7 token_message)] w1 = Some (outs, w2) \<and>
    serve sample_config (\<lambda>t. []) (\<lambda>_. None) (On_Profile (Profile_Message 7 reverse_order)) w2 =
      Some (From_Profile out, w3) \<and>
    ps_conns (w_profiles w3) 7 = Some conn \<and> lc_user_id (credentials conn) = ''MTAx''"
proof -
  let ?serve = "serve sample_config (\<lambda>t. []) (\<lambda>_. None)"
  let ?es = "[On_Profile (Profile_Accept 7), On_Nas (Nas_Accept 5 [''GET /'']),
       On_Profile (Profile_Receive 7 token_message)]"
  obtain d where d: "current_datetime 0 = Some d" using datetime_total [of 0] by auto
  have w: "pool_of login_world = \<lparr>pool_state = identified_nas,
      pool_workers = [4 \<mapsto> Nas_Identified sample_login ''MTAx'' ''1'']\<rparr>"
    by (simp add: login_world_def)
  have wk: "w_nas_workers login_world = [4 \<mapsto> Nas_Identified sample_login ''MTAx'' ''1'']"
    by (simp add: login_world_def with_pool_def)
  have l: "\<forall>other wk. other \<noteq> 4 \<longrightarrow> w_nas_workers login_world other = Some wk \<longrightarrow> \<not> logs_in ''MTAx'' wk"
    by (simp add: wk)
  define w1 where "w1 = with_pool \<lparr>pool_state = store_login_session ''MTAx'' first_session
      (identified_nas\<lparr>text_generator := \<lparr>draws = (\<lambda>_. 0), drawn = 88\<rparr>\<rparr>), pool_workers = Map.empty\<rparr> login_world"
  have s: "nas_section 0 (Nas_Identified sample_login ''MTAx'' ''1'') identified_nas =
      Some (Nas_Answered (plain_response (login_text first_session d)),
        store_login_session ''MTAx'' first_session
          (identified_nas\<lparr>text_generator := \<lparr>draws = (\<lambda>_. 0), drawn = 88\<rparr>\<rparr>))"
    by (simp add: nas_section_def session_section_def nas_readers nas_random_text_def d first_session_def
        identified_nas_def nas_start_def first_draws_def first_random Let_def)
  then have w1: "?serve (On_Nas (Nas_Section 4 0)) login_world =
      Some (From_Nas [plain_response (login_text first_session d)], w1)"
    by (simp add: w w1_def)
  have f: "um_find (login_sessions (pool_state (pool_of w1))) ''MTAx'' = Some first_session"
    by (simp add: w1_def store_login_session_def um_find_set)
  obtain conn v where o: "open_profile_connection 7 (ps_world (w_profiles w1)) = Some (conn, v)"
    "request_buffer conn = []" "pw_nas v = pw_nas (ps_world (w_profiles w1))"
    using open_connection_ok [of 7 "ps_world (w_profiles w1)"] by blast
  have n: "ps_conns (w_profiles w1) 7 = None" "w_nas_workers w1 5 = None"
    by (simp_all add: w1_def login_world_def with_pool_def world_start_def profile_start_def)
  have e: "token_message \<noteq> []" "find_sub final_mark [] = None"
    using token_message_facts(2) by auto
  obtain outs w2 where w2: "run_events ?serve ?es w1 = Some (outs, w2)"
    "ps_conns (w_profiles w2) 7 = Some (conn\<lparr>request_buffer := token_message\<rparr>)"
    "login_sessions (pool_state (pool_of w2)) = login_sessions (pool_state (pool_of w1))"
    using o n e by (simp add: profile_serve_def pool_of_def with_pool_def)
  have u: "\<forall>v s. um_find (login_sessions (pool_state (pool_of w2))) v = Some s \<longrightarrow>
      ls_token s = ls_token first_session \<longrightarrow> v = ''MTAx''"
    unfolding w2(3) by (simp add: w1_def store_login_session_def um_find_set identified_nas_def nas_start_def um_find_def)
  have q: "\<not> logs_in ''MTAx'' (Nas_Received (nas_receive [''GET /''] []))" by code_simp
  have t: "take (101 + 7) token_message = token_message" using token_message_facts(2) by simp
  obtain out w3 conn' where "?serve (On_Profile (Profile_Message 7 reverse_order)) w2 = Some (From_Profile out, w3)"
    "ps_conns (w_profiles w3) 7 = Some conn'" "lc_user_id (credentials conn') = ''MTAx''"
    using nas_login_opens_profile_later [OF login_world_inv _ l _ w1 f w2(1) _ _ w2(2) _ _ _ _ u,
        where message = token_message and message_end = 101 and lay = reverse_order]
      q t token_message_facts by (auto simp: wk)
  with w1 w2(1) show ?thesis by blast
qed

text \<open>
  C7. A search never lists a session that was not announced: for each session it lists, a QR packet came
  before that is a heartbeat of this session, from the address and with the profile that are listed, and
  not a closing one; and the search asked for this profile.
\<close>

theorem search_lists_announced:
  assumes "run_events (serve c digest inet_pton) es (world_start seeds clock) = Some (outs, w)"
    and "list_all world_possible es"
    and "d_searches (w_discovery w) fd = Some (Search_Pruned request)"
  shows "\<exists>sessions w'. serve c digest inet_pton (On_Discovery (Search_Answer fd lay)) w =
      Some (From_Discovery (Answer (render_sessions sessions)), w') \<and>
    (\<forall>s \<in> set sessions. os_profile_id s \<in> set (asked_profiles request) \<and>
       (\<exists>now incoming packet client. On_Discovery (Qr_Receive now incoming) \<in> set es \<and>
          recvfrom 2048 incoming = Some (packet, client) \<and> opens packet client (os_session_id s) s))"
proof -
  have i: "world_inv w" by (rule whole_server.run_inv [OF world_start_inv assms(2,1)])
  from search_in_server [OF i assms(3)]
  obtain sessions w' where a: "serve c digest inet_pton (On_Discovery (Search_Answer fd lay)) w =
      Some (From_Discovery (Answer (render_sessions sessions)), w')"
    "set sessions = {s. \<exists>k t. registry_of (w_discovery w) k = Some (s, t) \<and>
       os_profile_id s \<in> set (asked_profiles request)}"
    by blast
  have "os_profile_id s \<in> set (asked_profiles request) \<and>
      (\<exists>now incoming packet client. On_Discovery (Qr_Receive now incoming) \<in> set es \<and>
         recvfrom 2048 incoming = Some (packet, client) \<and> opens packet client (os_session_id s) s)"
    if s: "s \<in> set sessions" for s
  proof -
    obtain k t where k: "registry_of (w_discovery w) k = Some (s, t)"
      "os_profile_id s \<in> set (asked_profiles request)"
      using s a(2) by blast
    with listed_was_announced [OF assms(1) k(1)] registry_id [OF i k(1)] show ?thesis by simp
  qed
  with a(1) show ?thesis by blast
qed

theorem search_lists_announced_witness:
  "\<exists>outs w sessions w'. run_events (serve sample_config (\<lambda>t. []) (\<lambda>_. None))
      [On_Discovery (Qr_Receive 5 (Some (sample_heartbeat ''1'', sample_client))),
       On_Discovery (Search_Request 4 sample_search), On_Discovery (Qr_Prune insertion_order 6),
       On_Discovery (Qr_Respond 7), On_Discovery (Search_Prune 4 insertion_order 9)]
      (world_start sample_seeds (\<lambda>_. 0)) = Some (outs, w) \<and>
    serve sample_config (\<lambda>t. []) (\<lambda>_. None) (On_Discovery (Search_Answer 4 insertion_order)) w =
      Some (From_Discovery (Answer (render_sessions sessions)), w') \<and>
    os_profile_id ` set sessions \<subseteq> {''7''}"
proof -
  let ?es = "[On_Discovery (Qr_Receive 5 (Some (sample_heartbeat ''1'', sample_client))),
       On_Discovery (Search_Request 4 sample_search), On_Discovery (Qr_Prune insertion_order 6),
       On_Discovery (Qr_Respond 7), On_Discovery (Search_Prune 4 insertion_order 9)]"
  let ?serve = "serve sample_config (\<lambda>t. []) (\<lambda>_. None)"
  have p: "list_all world_possible ?es" by simp
  obtain outs w where w: "run_events ?serve ?es (world_start sample_seeds (\<lambda>_. 0)) = Some (outs, w)"
    using whole_server.run_total [OF world_start_inv p] by blast
  then have "d_searches (w_discovery w) 4 = Some (Search_Pruned sample_search)"
    by (auto simp: run_events_Cons_iff world_start_def discovery_start_def recvfrom_def qr_touch_eq
        sample_heartbeat_session simp del: run_events.simps(2) split: bind_splits)
  from search_lists_announced [OF w p this, of insertion_order] w show ?thesis
    by (auto simp: sample_search_asks simp del: run_events.simps)
qed


definition closing_world :: server_world where
  "closing_world = announcing_world
     \<lparr>w_discovery := (w_discovery announcing_world)
        \<lparr>d_main := Qr_Pruned (sample_heartbeat ''2'') sample_client\<rparr>\<rparr>"


end
