(* ===== verification/Server_Console.thy ===== *)
theory Server_Console
  imports Server_Qr Server_Game Server_Relay
begin

section \<open>What the datagram handlers tell the operator\<close>

text \<open>
  The lines the QR and the NATNEG handler write to \<^verbatim>\<open>std::cout\<close>, as functions beside
  \<^const>\<open>handle_qr_packet\<close> and \<^const>\<open>handle_natneg_packet\<close>, whose control flow they follow: no part of the server reads them
  back. The lines of the relay are part of its handler in \<open>Server_Relay\<close>, those of the start and
  the stop go to the console of the kernel in \<open>Sockets\<close>.
\<close>

subsection \<open>The QR handler\<close>

definition to_console :: "u32 \<Rightarrow> string" where
  "to_console n = dec_of_nat (unat n)"

definition registered_line :: "u32 \<Rightarrow> string" where
  "registered_line session_id =
     ''GameSpy QR session registered: '' @ to_console session_id @ [CHR 0x0A]"

definition challenge_line :: "u32 \<Rightarrow> string" where
  "challenge_line session_id =
     ''GameSpy QR challenge sent for session '' @ to_console session_id @ [CHR 0x0A]"

definition heartbeat_line :: "u32 \<Rightarrow> string \<Rightarrow> string" where
  "heartbeat_line session_id state_changed =
     ''GameSpy QR heartbeat for session '' @ to_console session_id @ '' (state '' @
     (if state_changed = [] then ''unchanged'' else state_changed) @ '')'' @ [CHR 0x0A]"

definition availability_line :: "sockaddr_in \<Rightarrow> string" where
  "availability_line client_address =
     ''GameSpy QR availability request from '' @ inet_ntoa (sin_addr client_address) @ [CHR 0x0A]"

definition heartbeat_console ::
  "packet \<Rightarrow> u32 \<Rightarrow> (u32, string) umap \<Rightarrow> string list option" where
  "heartbeat_console packet session_id challenges = do {
     state_changed \<leftarrow> qr_field_value packet ''statechanged'';
     let challenges' = (if state_changed = ''2'' then um_erase session_id challenges else challenges);
     Some ((if um_find challenges' session_id = None then [challenge_line session_id] else []) @
       [heartbeat_line session_id state_changed])
   }"

definition qr_console ::
  "string \<Rightarrow> datagram \<Rightarrow> (u32, string) umap \<Rightarrow> string list option" where
  "qr_console secret_key incoming challenges =
     (case recvfrom 2048 incoming of
        None \<Rightarrow> Some []
      | Some (packet, client_address) \<Rightarrow> do {
          session_id \<leftarrow> qr_session_id packet;
          keepalive \<leftarrow> has_command 0x08 packet;
          (if keepalive then Some []
           else do {
             answers \<leftarrow> has_command 0x01 packet;
             matches \<leftarrow> (if \<not> answers then Some False
               else case um_find challenges session_id of
                   None \<Rightarrow> Some False
                 | Some challenge \<Rightarrow> qr_challenge_matches packet challenge secret_key);
             (if matches then Some [registered_line session_id]
              else do {
                heartbeat \<leftarrow> is_mariokartwii_heartbeat packet;
                (if heartbeat then heartbeat_console packet session_id challenges
                 else do {
                   available \<leftarrow> is_mariokartwii_availability_request packet;
                   Some (if available then [availability_line client_address] else [])
                 })
              })
           })
        })"

lemma qr_console_cases:
  fixes challenges client datagram
  defines "packet \<equiv> take 2048 datagram"
  defines "k \<equiv> packet_session packet"
  shows "qr_console secret_key (Some (datagram, client)) challenges =
    (if 5 \<le> length packet \<and> packet ! 0 = 0x08 then Some []
     else if answers_challenge secret_key packet (um_find challenges k) then Some [registered_line k]
     else if is_mariokartwii_heartbeat packet = Some True then heartbeat_console packet k challenges
     else Some (if is_mariokartwii_availability_request packet = Some True
       then [availability_line client] else []))"
proof -
  obtain hb where hb: "is_mariokartwii_heartbeat packet = Some hb" by (simp add: heartbeat_eq)
  obtain av where av: "is_mariokartwii_availability_request packet = Some av"
    by (simp add: availability_request_iff)
  show ?thesis
    unfolding qr_console_def recvfrom_def
    by (cases "um_find challenges k")
      (simp_all add: packet_def [symmetric] qr_session_id_packet k_def [symmetric] has_command_eq hb av
        answers_challenge_def qr_challenge_matches_eq)
qed

text \<open>The lines that do not just note a heartbeat each stand for an answer.\<close>

definition notes_answer :: "string \<Rightarrow> bool" where
  "notes_answer line \<longleftrightarrow> take 20 line \<noteq> ''GameSpy QR heartbeat''"

lemma notes_answer_simps [simp]:
  "notes_answer (registered_line k)" "notes_answer (challenge_line k)"
  "notes_answer (availability_line client)" "\<not> notes_answer (heartbeat_line k s)"
  by (simp_all add: notes_answer_def registered_line_def challenge_line_def availability_line_def
      heartbeat_line_def numeral_eq_Suc)

text \<open>
  The console tells what the QR socket did: for every datagram, as many lines note an answer as
  answers are sent.
\<close>

theorem qr_console_notes_answers:
  assumes "handle_qr_packet lay secret_key clock incoming st = Some (out, st')"
  shows "\<exists>lines. qr_console secret_key incoming (qr_challenges st) = Some lines \<and>
    length (filter notes_answer lines) = length out"
proof (cases incoming)
  case None
  with assms show ?thesis by (simp add: handle_qr_packet_def qr_console_def recvfrom_def)
next
  case (Some d)
  then obtain datagram client where d: "incoming = Some (datagram, client)" by (cases d) simp
  show ?thesis
    using assms unfolding d handle_qr_packet_cases qr_console_cases
    by (auto simp: handle_heartbeat_eq heartbeat_console_def issue_challenge_eq qr_field_value_eq
        um_find_erase split: if_splits)
qed

subsection \<open>The NATNEG handler\<close>

text \<open>
  \<^verbatim>\<open>std::hex\<close> and \<^verbatim>\<open>setfill\<close> are set on the string stream of the dump; the record type goes to
  \<^verbatim>\<open>std::cout\<close>, which pads with blanks and prints in decimal.
\<close>

definition natneg_record_line :: "packet \<Rightarrow> string option" where
  "natneg_record_line packet = do {
     record_type \<leftarrow> rd packet 7;
     Some (''GameSpy NATNEG record 0x'' @ put_padded 2 (CHR '' '') (dec_of_nat (unat record_type)) @
       '' ('' @ dec_of_nat (length packet) @ '' bytes): '' @ relay_hex packet @ [CHR 0x0A])
   }"

definition natneg_ack_line :: string where
  "natneg_ack_line = ''GameSpy NATNEG initialization acknowledged'' @ [CHR 0x0A]"

definition natneg_console :: "datagram \<Rightarrow> string list option" where
  "natneg_console incoming =
     (case recvfrom 2048 incoming of
        None \<Rightarrow> Some []
      | Some (packet, client_address) \<Rightarrow>
          if packet = [] then Some []
          else do {
            (parsed, client) \<leftarrow> parse_natneg_init packet no_client;
            (if \<not> parsed then Some []
             else do { line \<leftarrow> natneg_record_line packet; Some [line, natneg_ack_line] })
          })"

text \<open>
  The console notes exactly the initialisations that are stored; and the record type, which is zero
  there, is printed as a blank and a zero after the \<^verbatim>\<open>0x\<close>, not as two digits.
\<close>

theorem natneg_console_notes_inits:
  "natneg_console incoming = Some
     (case incoming of
        None \<Rightarrow> []
      | Some (datagram, client) \<Rightarrow>
          let packet = take 2048 datagram
          in if announces packet
             then [''GameSpy NATNEG record 0x 0 ('' @ dec_of_nat (length packet) @ '' bytes): '' @
                     relay_hex packet @ [CHR 0x0A], natneg_ack_line]
             else [])"
proof (cases incoming)
  case None
  then show ?thesis by (simp add: natneg_console_def recvfrom_def)
next
  case (Some d)
  then obtain datagram client where d: "incoming = Some (datagram, client)" by (cases d) simp
  define packet where "packet = take 2048 datagram"
  have line: "natneg_record_line packet = Some (''GameSpy NATNEG record 0x 0 ('' @
      dec_of_nat (length packet) @ '' bytes): '' @ relay_hex packet @ [CHR 0x0A])"
    if "announces packet"
  proof -
    have "rd packet 7 = Some 0" using that by (auto simp: announces_def natneg_init_def rd_def)
    then show ?thesis
      by (simp add: natneg_record_line_def put_padded_def dec_of_nat.simps [of 0] digit_char_def)
  qed
  have "\<not> announces []" by (simp add: announces_def natneg_init_def)
  with line show ?thesis
    by (auto simp: d natneg_console_def recvfrom_def packet_def [symmetric] parse_natneg_init_eq
        announces_def Let_def)
qed

end
