(* ===== verification/Profile_Writes.thy ===== *)
theory Profile_Writes
  imports Sockets Machine
begin

section \<open>The writes of the profile threads (\<^verbatim>\<open>src/server_profile.cpp\<close>)\<close>

text \<open>
  Several threads write to the socket of a profile connection: its own, which answers with \<^verbatim>\<open>send_all\<close>,
  and those that notify it, through \<^verbatim>\<open>send_profile_message\<close>, which holds \<^verbatim>\<open>profile_write_mutex\<close>. \<^verbatim>\<open>send_all\<close> may
  need several calls of \<^verbatim>\<open>send\<close>; here each call is a step, so that the writes of other threads can fall
  between two of them.
\<close>

text \<open>What a thread is writing: whether it holds the mutex, where to, the message and what of it is out.\<close>

record writing =
  wt_locked :: bool
  wt_socket :: int
  wt_data :: string
  wt_sent :: nat

record profile_writers =
  wire :: "int \<Rightarrow> string"
  write_mutex :: "nat option"
  current :: "nat \<Rightarrow> writing option"

datatype write_event = Write_Begin nat bool int string | Write_Send nat send_result

definition write_end :: "nat \<Rightarrow> profile_writers \<Rightarrow> profile_writers" where
  "write_end thread s =
     s\<lparr>current := (current s)(thread := None),
       write_mutex := (if write_mutex s = Some thread then None else write_mutex s)\<rparr>"

text \<open>
  A thread that finds the mutex taken waits, and an event of a thread that is elsewhere does nothing. The
  output is the message whose writing begins.
\<close>

fun write_serve :: "write_event \<Rightarrow> profile_writers \<Rightarrow> ((int \<times> string) list \<times> profile_writers) option" where
  "write_serve (Write_Begin thread locked socket_fd message) s =
     Some (if current s thread \<noteq> None \<or> locked \<and> write_mutex s \<noteq> None \<or> message = [] then ([], s)
       else ([(socket_fd, message)],
         s\<lparr>write_mutex := (if locked then Some thread else write_mutex s),
           current := (current s)(thread \<mapsto>
             \<lparr>wt_locked = locked, wt_socket = socket_fd, wt_data = message, wt_sent = 0\<rparr>)\<rparr>))"
| "write_serve (Write_Send thread result) s =
     Some ([], case current s thread of
        None \<Rightarrow> s
      | Some w \<Rightarrow>
          (case result of
             Interrupted \<Rightarrow> s
           | Send_Error \<Rightarrow> write_end thread s
           | Sent k \<Rightarrow>
               if k = 0 then write_end thread s
               else let s' = s\<lparr>wire := (wire s)(wt_socket w :=
                               wire s (wt_socket w) @ take k (drop (wt_sent w) (wt_data w)))\<rparr>
                    in if wt_sent w + k < length (wt_data w)
                       then s'\<lparr>current := (current s')(thread \<mapsto> w\<lparr>wt_sent := wt_sent w + k\<rparr>)\<rparr>
                       else write_end thread s'))"

definition writers_start :: profile_writers where
  "writers_start = \<lparr>wire = (\<lambda>_. []), write_mutex = None, current = Map.empty\<rparr>"

subsection \<open>A thread alone\<close>

text \<open>The calls of \<^verbatim>\<open>send\<close> of one thread put on the wire what \<^const>\<open>send_all\<close> does.\<close>

lemma idle_sends:
  "run_events write_serve (map (Write_Send thread) script) s = Some (outs, s') \<Longrightarrow>
   current s thread = None \<Longrightarrow> s' = s"
  by (induction script arbitrary: outs s) (auto split: option.splits)

lemma alone_as_send_all:
  assumes "run_events write_serve (map (Write_Send thread) script) s = Some (outs, s')"
    and "current s thread = Some w" and "wt_sent w < length (wt_data w)"
    and "send_all script (wt_data w) (wt_sent w) (wire s (wt_socket w)) = Some (ok, out)"
  shows "wire s' (wt_socket w) = out \<and> current s' thread = None"
  using assms
proof (induction script arbitrary: s w outs)
  case (Cons r script)
  obtain s1 outs1 where s1: "write_serve (Write_Send thread r) s = Some ([], s1)"
    "run_events write_serve (map (Write_Send thread) script) s1 = Some (outs1, s')"
    using Cons.prems(1) by (auto split: option.splits)
  show ?case
  proof (cases "current s1 thread")
    case None
    then have "s' = s1" by (rule idle_sends [OF s1(2)])
    with None s1(1) Cons.prems(2-4) show ?thesis
      by (cases r; cases "wt_sent w + (case r of Sent k \<Rightarrow> k | _ \<Rightarrow> 0) < length (wt_data w)")
        (auto simp: write_end_def Let_def split: if_splits)
  next
    case (Some w1)
    with s1(1) Cons.prems(2-4) have
      "wt_data w1 = wt_data w" "wt_socket w1 = wt_socket w" "wt_sent w1 < length (wt_data w1)"
      "send_all script (wt_data w1) (wt_sent w1) (wire s1 (wt_socket w1)) = Some (ok, out)"
      by (cases r; auto simp: write_end_def Let_def split: if_splits)+
    with Cons.IH [OF s1(2) Some] show ?thesis by simp
  qed
qed simp

subsection \<open>Messages under the mutex\<close>

definition writers_inv :: "profile_writers \<Rightarrow> bool" where
  "writers_inv s \<longleftrightarrow>
     (\<forall>thread w. current s thread = Some w \<longrightarrow> write_mutex s = Some thread \<and> wt_sent w < length (wt_data w))"

fun under_mutex :: "write_event \<Rightarrow> bool" where
  "under_mutex (Write_Begin thread locked socket_fd message) \<longleftrightarrow> locked"
| "under_mutex (Write_Send thread result) \<longleftrightarrow> result \<noteq> Send_Error \<and> result \<noteq> Sent 0"

lemma only_writer:
  "writers_inv s \<Longrightarrow> current s thread = Some w \<Longrightarrow> thread' \<noteq> thread \<Longrightarrow> current s thread' = None"
  unfolding writers_inv_def by (metis not_None_eq option.inject)

interpretation mutex_writers: total_machine write_serve writers_inv under_mutex
proof
  fix s e
  assume i: "writers_inv s" and p: "under_mutex e"
  then show "\<exists>out s'. write_serve e s = Some (out, s') \<and> writers_inv s'"
    using only_writer [OF i]
    by (cases e) (auto simp: writers_inv_def write_end_def Let_def split: option.splits send_result.splits)
qed

text \<open>What the thread that holds the mutex has still to write to a socket.\<close>

definition unsent :: "int \<Rightarrow> profile_writers \<Rightarrow> string" where
  "unsent fd s =
     (case Option.bind (write_mutex s) (current s) of
        None \<Rightarrow> []
      | Some w \<Rightarrow> if wt_socket w = fd then drop (wt_sent w) (wt_data w) else [])"

definition messages_to :: "int \<Rightarrow> (int \<times> string) list \<Rightarrow> string" where
  "messages_to fd ms = concat (map snd (filter (\<lambda>m. fst m = fd) ms))"

lemma write_step:
  assumes "writers_inv s" and "under_mutex e" and "write_serve e s = Some (out, s')"
  shows "wire s' fd @ unsent fd s' = wire s fd @ unsent fd s @ messages_to fd out"
proof (cases e)
  case (Write_Begin thread locked socket_fd message)
  then show ?thesis
    using assms by (auto simp: unsent_def messages_to_def split: if_splits)
next
  case (Write_Send thread result)
  show ?thesis
  proof (cases "current s thread")
    case None
    with assms(3) Write_Send show ?thesis by (simp add: messages_to_def)
  next
    case (Some w)
    then have m: "write_mutex s = Some thread" using assms(1) by (simp add: writers_inv_def)
    show ?thesis
    proof (cases result)
      case (Sent k)
      let ?n = "wt_sent w" and ?d = "wt_data w"
      have "take k (drop ?n ?d) @ drop (?n + k) ?d = drop ?n ?d"
        by (metis add.commute append_take_drop_id drop_drop)
      moreover have "take k (drop ?n ?d) = drop ?n ?d" if "\<not> ?n + k < length ?d" using that by simp
      ultimately show ?thesis
        using Sent Some m assms(2,3) Write_Send
        by (auto simp: unsent_def messages_to_def write_end_def Let_def split: if_splits)
    qed (use assms Some m Write_Send in \<open>auto simp: messages_to_def\<close>)
  qed
qed

lemma messages_to_append: "messages_to fd (ms @ ms') = messages_to fd ms @ messages_to fd ms'"
  by (simp add: messages_to_def)

lemma write_run:
  "writers_inv s \<Longrightarrow> list_all under_mutex es \<Longrightarrow> run_events write_serve es s = Some (outs, s') \<Longrightarrow>
   wire s' fd @ unsent fd s' = wire s fd @ unsent fd s @ messages_to fd (concat outs)"
proof (induction es arbitrary: s outs)
  case Nil
  then show ?case by (simp add: messages_to_def)
next
  case (Cons e es)
  then obtain out outs1 s1 where s1: "write_serve e s = Some (out, s1)"
    "run_events write_serve es s1 = Some (outs1, s')" "outs = out # outs1"
    by (auto simp: run_events_Cons_iff simp del: run_events.simps(2))
  moreover have "writers_inv s1" using mutex_writers.step_inv [OF Cons.prems(1) _ s1(1)] Cons.prems(2) by simp
  ultimately show ?case
    using Cons.IH [of s1 outs1] write_step [OF Cons.prems(1) _ s1(1)] Cons.prems(2)
    by (simp add: messages_to_append)
qed

subsection \<open>Properties\<close>



text \<open>
  The answers of a connection's own thread are not written under the mutex: a notification can come to
  lie inside an answer, at any point of it.
\<close>

theorem answer_can_be_split:
  assumes "0 < k" and "k < length answer" and "notice \<noteq> []"
  shows "\<exists>outs s. run_events write_serve
      [Write_Begin own False fd answer, Write_Send own (Sent k),
       Write_Begin (Suc own) True fd notice, Write_Send (Suc own) (Sent (length notice)),
       Write_Send own (Sent (length answer - k))] writers_start = Some (outs, s) \<and>
    wire s fd = take k answer @ notice @ drop k answer"
  using assms by (auto simp: writers_start_def write_end_def Let_def)

theorem answer_can_be_split_witness:
  "\<exists>outs s. run_events write_serve
      [Write_Begin 1 False 7 ''abc'', Write_Send 1 (Sent 1), Write_Begin 2 True 7 ''xy'',
       Write_Send 2 (Sent 2), Write_Send 1 (Sent 2)] writers_start = Some (outs, s) \<and>
    wire s 7 = ''axybc''"
  using answer_can_be_split [of 1 "''abc''" "''xy''" 1 7] by (simp add: numeral_2_eq_2)

end
