(* ===== verification/Presence.thy ===== *)
theory Presence
  imports World_Laws
begin

section \<open>Who is present, and who is told (\<^verbatim>\<open>src/server_profile.cpp\<close>)\<close>

text \<open>
  The table of active profiles says at which socket a profile is. A connection enters itself with a
  status message and takes itself out, under the profile it has then, when it ends. So the table tells the
  truth as long as nobody who stands in it takes another profile by logging in again; when somebody does,
  the old entry outlives the connection, and the descriptor may be given to another client.
\<close>

subsection \<open>One message\<close>

lemma send_wire [simp]:
  "pw_wire (send_to fd data w) = pw_wire w @ [(fd, data)]"
  "active_profiles (send_to fd data w) = active_profiles w"
  by (simp_all add: send_to_def)

lemma pending_frame [simp]:
  "pw_wire (set_pending p x w) = pw_wire w" "active_profiles (set_pending p x w) = active_profiles w"
  by (simp_all add: set_pending_def)

text \<open>A message changes the credentials or the table, never both; and it names whom it notifies.\<close>

definition names_target :: "string \<Rightarrow> string \<Rightarrow> bool" where
  "names_target request target \<longleftrightarrow>
     profile_field_value request ''newprofileid'' = Some target \<or>
     profile_field_value request ''fromprofileid'' = Some target"

definition told :: "string \<Rightarrow> profile_conn \<times> profile_world \<Rightarrow> profile_conn \<times> profile_world \<Rightarrow> bool" where
  "told request cw cw' \<longleftrightarrow>
     (credentials (fst cw') = credentials (fst cw) \<or>
      active_profiles (snd cw') = active_profiles (snd cw)) \<and>
     (\<exists>out. pw_wire (snd cw') = pw_wire (snd cw) @ out \<and>
       (\<forall>(fd, m) \<in> set out. fd = client_socket (fst cw) \<or>
         (\<exists>target. names_target request target \<and> um_find (active_profiles (snd cw)) target = Some fd)))"

lemma message_told:
  assumes "handle_profile_message md5 lay request cw = Some cw'"
  shows "told request cw cw'"
proof -
  obtain c w where cw: "cw = (c, w)" by fastforce
  have ka: "told request (c, w) (c, send_to (client_socket c) data w)" for data
    by (simp add: told_def)
  have lo: "handle_login md5 lay request (c, w) = Some cw' \<Longrightarrow> told request (c, w) cw'"
    by (auto simp: handle_login_def told_def Let_def split: bind_splits)
  have gp: "handle_getprofile request (c, w) = Some cw' \<Longrightarrow> told request (c, w) cw'"
    by (auto simp: handle_getprofile_def told_def split: bind_splits)
  have up: "handle_updatepro request (c, w) = Some cw' \<Longrightarrow> told request (c, w) cw'"
    by (auto simp: handle_updatepro_def told_def Let_def split: bind_splits if_splits)
  have st: "handle_status request (c, w) = Some cw' \<Longrightarrow> told request (c, w) cw'"
    by (auto simp: handle_status_def told_def split: bind_splits)
  have ad: "handle_addbuddy request (c, w) = Some cw' \<Longrightarrow> told request (c, w) cw'"
    by (auto simp: handle_addbuddy_def told_def names_target_def send_profile_message_def Let_def
        split: bind_splits if_splits option.splits)
  have au: "handle_authadd request (c, w) = Some cw' \<Longrightarrow> told request (c, w) cw'"
    by (auto simp: handle_authadd_def told_def names_target_def send_profile_message_def Let_def
        split: bind_splits if_splits option.splits)
  have de: "handle_delbuddy request (c, w) = Some cw' \<Longrightarrow> told request (c, w) cw'"
    by (auto simp: handle_delbuddy_def told_def Let_def split: bind_splits)
  have no: "told request (c, w) (c, w)" by (simp add: told_def)
  show ?thesis
    using assms ka lo gp up st ad au de no unfolding cw handle_profile_message_def
    by (auto split: if_splits bind_splits)
qed

subsection \<open>The table tells the truth\<close>

definition listed_right :: "profile_system \<Rightarrow> bool" where
  "listed_right s \<longleftrightarrow>
     (\<forall>p fd. um_find (active_profiles (ps_world s)) p = Some fd \<longrightarrow>
        (\<exists>c. ps_conns s fd = Some c \<and> lc_profile_id (credentials c) = p))"

text \<open>A message that leaves a connection its profile, or finds it not listed.\<close>

fun keeps_profile :: "(string \<Rightarrow> packet) \<Rightarrow> profile_event \<Rightarrow> profile_system \<Rightarrow> bool" where
  "keeps_profile digest (Profile_Message fd lay) s =
     (case (ps_conns s fd, profile_move digest (Profile_Message fd lay) s) of
        (Some c, Some s') \<Rightarrow>
          (case ps_conns s' fd of
             None \<Rightarrow> True
           | Some c' \<Rightarrow> lc_profile_id (credentials c') = lc_profile_id (credentials c) \<or>
               um_find (active_profiles (ps_world s)) (lc_profile_id (credentials c)) \<noteq> Some fd)
      | _ \<Rightarrow> True)"
| "keeps_profile digest e s = True"

lemma listed_right_message:
  assumes "system_inv s" and "listed_right s" and "ps_conns s fd = Some c"
    and h: "handle_profile_message (\<lambda>t. Some (digest t)) lay request (c\<lparr>request_buffer := rest\<rparr>, ps_world s) = Some (c', w)"
    and k: "lc_profile_id (credentials c') = lc_profile_id (credentials c) \<or>
       um_find (active_profiles (ps_world s)) (lc_profile_id (credentials c)) \<noteq> Some fd"
  shows "listed_right (s\<lparr>ps_world := w, ps_conns := (ps_conns s)(fd \<mapsto> c')\<rparr>)"
proof -
  have cs: "client_socket c = fd" and v: "um_valid (active_profiles (ps_world s))"
    using assms(1,3) by (auto simp: system_inv_def conn_ok_def)
  have ha: "harmless (c\<lparr>request_buffer := rest\<rparr>, ps_world s) (c', w)"
    using profile_message_ok [of digest lay request "(c\<lparr>request_buffer := rest\<rparr>, ps_world s)"] h by simp
  then have a: "active_profiles w = active_profiles (ps_world s) \<or>
      active_profiles w = um_set (lc_profile_id (credentials c)) fd (active_profiles (ps_world s))"
    by (simp add: harmless_def cs)
  from message_told [OF h] have one: "credentials c' = credentials c \<or> active_profiles w = active_profiles (ps_world s)"
    by (simp add: told_def)
  show ?thesis
    unfolding listed_right_def
  proof (intro allI impI)
    fix p fd'
    assume "um_find (active_profiles (ps_world (s\<lparr>ps_world := w, ps_conns := (ps_conns s)(fd \<mapsto> c')\<rparr>))) p = Some fd'"
    then have f: "um_find (active_profiles w) p = Some fd'" by simp
    consider (old) "um_find (active_profiles (ps_world s)) p = Some fd'"

      | (new) "p = lc_profile_id (credentials c)" "fd' = fd" "credentials c' = credentials c"
    proof (cases "active_profiles w = active_profiles (ps_world s)")
      case True
      with f have "um_find (active_profiles (ps_world s)) p = Some fd'" by simp
      then show thesis by (rule old)
    next
      case False
      with a one have u: "active_profiles w = um_set (lc_profile_id (credentials c)) fd (active_profiles (ps_world s))"
        and cr: "credentials c' = credentials c" by simp_all
      show thesis
        using f cr old new unfolding u by (cases "p = lc_profile_id (credentials c)") (simp_all add: um_find_set)
    qed
    then show "\<exists>x. ps_conns (s\<lparr>ps_world := w, ps_conns := (ps_conns s)(fd \<mapsto> c')\<rparr>) fd' = Some x \<and>
        lc_profile_id (credentials x) = p"
    proof cases
      case old
      then obtain x where x: "ps_conns s fd' = Some x" "lc_profile_id (credentials x) = p"
        using assms(2) by (auto simp: listed_right_def)
      show ?thesis
      proof (cases "fd' = fd")
        case True
        with x assms(3) have "lc_profile_id (credentials c) = p" by simp
        with k old True have "lc_profile_id (credentials c') = p" by simp
        with True show ?thesis by simp
      next
        case False
        with x show ?thesis by simp
      qed
    next
      case new
      then show ?thesis by simp
    qed
  qed
qed

lemma listed_right_move:
  assumes "system_inv s" and "listed_right s" and "keeps_profile digest e s"
    and "profile_move digest e s = Some s'"
  shows "listed_right s'"
proof (cases e)
  case (Profile_Accept fd)
  then show ?thesis
    using assms(2,4) open_connection_ok [of fd "ps_world s"]
    by (auto simp: listed_right_def split: if_splits bind_splits) (metis option.distinct(1))+
next
  case (Profile_Receive fd chunk)
  then show ?thesis
    using assms(2,4) by (fastforce simp: listed_right_def split: option.splits if_splits)
next
  case (Profile_Message fd lay)
  show ?thesis
  proof (cases "s' = s")
    case True
    with assms(2) show ?thesis by simp
  next
    case False
    then obtain c i c' w where c: "ps_conns s fd = Some c"
      and h: "handle_profile_message (\<lambda>t. Some (digest t)) lay (take (i + 7) (request_buffer c))
          (c\<lparr>request_buffer := drop (i + 7) (request_buffer c)\<rparr>, ps_world s) = Some (c', w)"
      and s': "s' = s\<lparr>ps_world := w, ps_conns := (ps_conns s)(fd \<mapsto> c')\<rparr>"
      using assms(4) Profile_Message by (auto simp: Let_def split: option.splits bind_splits)
    have "lc_profile_id (credentials c') = lc_profile_id (credentials c) \<or>
       um_find (active_profiles (ps_world s)) (lc_profile_id (credentials c)) \<noteq> Some fd"
      using assms(3,4) c s' unfolding Profile_Message by (simp del: profile_move.simps)
    from listed_right_message [OF assms(1,2) c h this] show ?thesis by (simp add: s')
  qed
next
  case (Profile_Hangup fd)
  have "um_valid (active_profiles (ps_world s))" using assms(1) by (simp add: system_inv_def)
  then show ?thesis
    using assms(2,4) Profile_Hangup
    by (fastforce simp: listed_right_def close_profile_connection_def um_find_erase
        split: option.splits if_splits)
qed

subsection \<open>In the whole server\<close>

fun keeps_profiles :: "(string \<Rightarrow> packet) \<Rightarrow> world_event \<Rightarrow> server_world \<Rightarrow> bool" where
  "keeps_profiles digest (On_Profile e) w = keeps_profile digest e (w_profiles w)"
| "keeps_profiles digest e w = True"

lemma with_pool_listed [simp]: "listed_right (w_profiles (with_pool p w)) = listed_right (w_profiles w)"
  by (simp add: listed_right_def with_pool_def)

interpretation presence: guarded_fact "serve c digest inet_pton" world_inv world_possible
  "\<lambda>w. listed_right (w_profiles w)" "keeps_profiles digest" for c digest inet_pton
proof
  fix e w out w'
  assume i: "world_inv w" "listed_right (w_profiles w)" "keeps_profiles digest e w"
    and s: "serve c digest inet_pton e w = Some (out, w')"
  show "listed_right (w_profiles w')"
  proof (cases e)
    case (On_Profile x)
    with s obtain o' p where x: "profile_serve digest x (w_profiles w) = Some (o', p)" "w' = w\<lparr>w_profiles := p\<rparr>"
      by auto
    have "listed_right p"
      using listed_right_move [of "w_profiles w" digest x p] profile_serve_move [OF x(1)] i
      by (simp add: On_Profile world_inv_def)
    with x(2) show ?thesis by simp
  qed (use s i(2) in auto)
qed

subsection \<open>Properties\<close>

text \<open>The message a connection handles next.\<close>

definition next_request :: "profile_conn \<Rightarrow> string option" where
  "next_request c = map_option (\<lambda>i. take (i + 7) (request_buffer c)) (find_sub final_mark (request_buffer c))"

text \<open>
  C9. Nobody is told what is meant for somebody else: in every run of the whole server in which no
  connection that is listed takes another profile by a second login, each text that the handling of a
  message sends goes to the connection's own client or to the open connection of the very profile the
  message names, whose credentials the NAS server vouches for.
\<close>

theorem notifications_reach_target:
  assumes "list_all world_possible es"
    and "run_events (serve c digest inet_pton) es (world_start seeds clock) = Some (outs, w)"
    and "run_within (keeps_profiles digest) (serve c digest inet_pton) es (world_start seeds clock)"
    and "serve c digest inet_pton (On_Profile (Profile_Message fd lay)) w = Some (From_Profile out, w')"
    and "(fd', text) \<in> set out"
  shows "\<exists>conn request. ps_conns (w_profiles w) fd = Some conn \<and> next_request conn = Some request \<and>
    (fd' = fd \<or>
     (\<exists>peer. ps_conns (w_profiles w) fd' = Some peer \<and>
        names_target request (lc_profile_id (credentials peer)) \<and>
        authentic (pw_nas (ps_world (w_profiles w))) (credentials peer)))"
proof -
  let ?s = "w_profiles w"
  have iw: "world_inv w" by (rule whole_server.run_inv [OF world_start_inv assms(1,2)])
  have l0: "listed_right (w_profiles (world_start seeds clock))"
    by (simp add: listed_right_def world_start_def profile_start_def um_find_def)
  have l: "listed_right ?s"
    by (rule presence.run_guards [OF world_start_inv assms(1) l0 assms(3,2)])
  obtain s' where s': "profile_move digest (Profile_Message fd lay) ?s = Some s'" "out = written ?s s'"
    using assms(4) profile_serve_move by fastforce
  then have "s' \<noteq> ?s" using assms(5) by (auto simp: written_def)
  then obtain conn i c' w1 where c: "ps_conns ?s fd = Some conn" "find_sub final_mark (request_buffer conn) = Some i"
    and h: "handle_profile_message (\<lambda>t. Some (digest t)) lay (take (i + 7) (request_buffer conn))
        (conn\<lparr>request_buffer := drop (i + 7) (request_buffer conn)\<rparr>, ps_world ?s) = Some (c', w1)"
    and w1: "s' = ?s\<lparr>ps_world := w1, ps_conns := (ps_conns ?s)(fd \<mapsto> c')\<rparr>"
    using s'(1) by (auto simp: Let_def split: option.splits bind_splits)
  have ok: "client_socket conn = fd" using iw c(1) by (auto simp: world_inv_def system_inv_def conn_ok_def)
  from message_told [OF h] obtain o' where o': "pw_wire w1 = pw_wire (ps_world ?s) @ o'"
    "\<forall>(fd1, m) \<in> set o'. fd1 = fd \<or> (\<exists>target. names_target (take (i + 7) (request_buffer conn)) target \<and>
       um_find (active_profiles (ps_world ?s)) target = Some fd1)"
    by (auto simp: told_def ok)
  have "out = o'" by (simp add: s'(2) w1 written_def o'(1))
  with o'(2) assms(5) consider "fd' = fd" | target where
      "names_target (take (i + 7) (request_buffer conn)) target"
      "um_find (active_profiles (ps_world ?s)) target = Some fd'" by fastforce
  then show ?thesis
  proof cases
    case 1
    with c show ?thesis by (simp add: next_request_def)
  next
    case 2
    then obtain peer where p: "ps_conns ?s fd' = Some peer" "lc_profile_id (credentials peer) = target"
      using l by (auto simp: listed_right_def)
    then have "authentic (pw_nas (ps_world ?s)) (credentials peer)"
      using iw by (auto simp: world_inv_def system_inv_def conn_ok_def)
    with p 2(1) c show ?thesis by (auto simp: next_request_def)
  qed
qed

definition status_request :: string where
  "status_request = render [''status'', ''1'', ''sesskey'', ''1'', ''statstring'', ''x'', ''locstring'', ''y'', ''final'']"

definition accept_request :: string where
  "accept_request = render [''authadd'', [], ''sesskey'', ''1'', ''fromprofileid'', ''1'', ''final'']"

definition presence_events :: "world_event list" where
  "presence_events =
     [On_Profile (Profile_Accept 5), On_Profile (Profile_Receive 5 status_request),
      On_Profile (Profile_Message 5 insertion_order), On_Profile (Profile_Accept 6),
      On_Natneg (6, None), On_Profile (Profile_Receive 6 accept_request)]"

definition presence_after :: "world_event list \<Rightarrow> world_event \<Rightarrow> (int \<times> string) list option" where
  "presence_after es e =
     (case run_events (serve sample_config (\<lambda>t. []) (\<lambda>_. None)) es (world_start sample_seeds (\<lambda>_. 0)) of
        None \<Rightarrow> None
      | Some (outs, w) \<Rightarrow>
          (case serve sample_config (\<lambda>t. []) (\<lambda>_. None) e w of
             Some (From_Profile out, w') \<Rightarrow> Some out
           | _ \<Rightarrow> None))"

lemma presence_told: "map_option (map fst) (presence_after presence_events (On_Profile (Profile_Message 6 insertion_order))) = Some [5]"
  by code_simp

lemma presence_within: "run_within (keeps_profiles (\<lambda>t. [])) (serve sample_config (\<lambda>t. []) (\<lambda>_. None))
   presence_events (world_start sample_seeds (\<lambda>_. 0))"
  by code_simp

theorem notifications_reach_target_witness:
  "\<exists>outs w text out w' conn request.
    run_events (serve sample_config (\<lambda>t. []) (\<lambda>_. None)) presence_events (world_start sample_seeds (\<lambda>_. 0)) =
      Some (outs, w) \<and>
    serve sample_config (\<lambda>t. []) (\<lambda>_. None) (On_Profile (Profile_Message 6 insertion_order)) w =
      Some (From_Profile out, w') \<and> (5, text) \<in> set out \<and>
    ps_conns (w_profiles w) 6 = Some conn \<and> next_request conn = Some request \<and>
    (\<exists>peer. ps_conns (w_profiles w) 5 = Some peer \<and> names_target request (lc_profile_id (credentials peer)))"
proof -
  let ?serve = "serve sample_config (\<lambda>t. []) (\<lambda>_. None)"
  let ?e = "On_Profile (Profile_Message 6 insertion_order)"
  obtain outs w out w' where r: "run_events ?serve presence_events (world_start sample_seeds (\<lambda>_. 0)) = Some (outs, w)"
    "?serve ?e w = Some (From_Profile out, w')" "map fst out = [5]"
    using presence_told by (auto simp: presence_after_def simp del: serve.simps split: option.splits world_output.splits)
  then obtain m where t: "(5, m) \<in> set out" by (cases out) auto
  have p: "list_all world_possible presence_events" by (simp add: presence_events_def)
  from notifications_reach_target [OF p r(1) presence_within r(2) t] r t show ?thesis by auto
qed

subsection \<open>The entry that outlives its connection\<close>

text \<open>
  A listed connection that logs in again as another profile leaves its first entry behind: it is not
  erased when the connection ends, and when the descriptor is given to another client, which has not
  said who it is, a notification for the first profile goes to this stranger.
\<close>

lemma authadd_notifies:
  assumes "is_profile_authadd request = Some True"
    and "profile_field_value request ''fromprofileid'' = Some p" and "p \<noteq> []"
    and "um_find (active_profiles w) p = Some fd"
  shows "\<exists>m w'. handle_profile_message md5 lay request (c, w) = Some (c, w') \<and>
    pw_wire w' = pw_wire w @ [(fd, m)]"
proof -
  have "message_command request = Some ''authadd''" using assms(1) by (simp add: tests_by_command del: profile_tests)
  moreover have "\<not> is_profile_keepalive request"
    using assms(1) by (auto simp: is_profile_keepalive_def keepalive_message_def slashed_def)
  ultimately have "handle_profile_message md5 lay request (c, w) = handle_authadd request (c, w)"
    by (simp add: handle_profile_message_def tests_by_command del: profile_tests)
  then show ?thesis
    using assms(2-4) by (simp add: handle_authadd_def send_profile_message_def Let_def)
qed

theorem stale_entry_reaches_stranger:
  assumes "um_find (active_profiles (ps_world s)) p = Some fd" and "0 \<le> fd" and "p \<noteq> []"
    and "ps_conns s fd = Some c" and "request_buffer c = login" and "find_sub final_mark login = Some i"
    and "i + 7 = length login" and "is_profile_login login = Some True"
    and "lc_profile_id (credentials_for_token lay (field_after (slashed ''authtoken'') backslash login)
      (pw_nas (ps_world s))) \<noteq> p"
    and "ps_conns s fd2 = Some d" and "fd2 \<noteq> fd" and "request_buffer d = request"
    and "find_sub final_mark request = Some j" and "j + 7 = length request"
    and "is_profile_authadd request = Some True"
    and "profile_field_value request ''fromprofileid'' = Some p"
  shows "\<exists>out1 out2 out3 m s' stranger.
    run_events (profile_serve digest)
      [Profile_Message fd lay, Profile_Hangup fd, Profile_Accept fd, Profile_Message fd2 lay] s =
      Some ([out1, out2, out3, [(fd, m)]], s') \<and>
    ps_conns s' fd = Some stranger \<and> credentials stranger = default_credentials"
proof -
  obtain c1 w1 where m: "handle_profile_message (\<lambda>t. Some (digest t)) lay login (c\<lparr>request_buffer := []\<rparr>, ps_world s) = Some (c1, w1)"
    and cr: "credentials c1 = credentials_for_token lay (field_after (slashed ''authtoken'') backslash login) (pw_nas (ps_world s))"
    using login_message_credentials [OF assms(8)] by fastforce
  have ha: "harmless (c\<lparr>request_buffer := []\<rparr>, ps_world s) (c1, w1)"
    using profile_message_ok [of digest lay login "(c\<lparr>request_buffer := []\<rparr>, ps_world s)"] m by simp
  have b: "request_buffer c1 = []" using ha by (simp add: harmless_def)
  have "\<not> is_profile_keepalive login"
    using assms(8) by (auto simp: is_profile_keepalive_def keepalive_message_def slashed_def)
  moreover have "message_command login = Some ''login''"
    using assms(8) by (simp add: tests_by_command del: profile_tests)
  ultimately have "handle_login (\<lambda>t. Some (digest t)) lay login (c\<lparr>request_buffer := []\<rparr>, ps_world s) = Some (c1, w1)"
    using m by (simp add: handle_profile_message_def tests_by_command del: profile_tests)
  then have act: "active_profiles w1 = active_profiles (ps_world s)"
    by (auto simp: handle_login_def Let_def split: bind_splits)
  define s1 where "s1 = s\<lparr>ps_world := w1, ps_conns := (ps_conns s)(fd \<mapsto> c1)\<rparr>"
  have e1: "profile_move digest (Profile_Message fd lay) s = Some s1"
    using assms(4-7) m by (simp add: s1_def)
  define s2 where "s2 = s1\<lparr>ps_world := close_profile_connection c1 w1, ps_conns := (ps_conns s1)(fd := None)\<rparr>"
  have nf: "find_sub final_mark [] = None" by (simp add: final_mark_def)
  have e2: "profile_move digest (Profile_Hangup fd) s1 = Some s2"
    using b nf by (simp add: s1_def s2_def)
  obtain c3 w3 where o3: "open_profile_connection fd (ps_world s2) = Some (c3, w3)"
    "credentials c3 = default_credentials" "active_profiles w3 = active_profiles (ps_world s2)"
    using open_connection_ok [of fd "ps_world s2"] by blast
  define s3 where "s3 = s2\<lparr>ps_world := w3, ps_conns := (ps_conns s2)(fd \<mapsto> c3)\<rparr>"
  have e3: "profile_move digest (Profile_Accept fd) s2 = Some s3"
    using assms(2) o3(1) by (simp add: s2_def s3_def)
  have stale: "um_find (active_profiles w3) p = Some fd"
    using assms(1,9) by (simp add: o3(3) s2_def close_profile_connection_def act cr um_find_erase)
  from authadd_notifies [OF assms(15,16,3) stale]
  obtain n w4 where n: "handle_profile_message (\<lambda>t. Some (digest t)) lay request (d\<lparr>request_buffer := []\<rparr>, w3) =
      Some (d\<lparr>request_buffer := []\<rparr>, w4)" "pw_wire w4 = pw_wire w3 @ [(fd, n)]"
    by blast
  define s4 where "s4 = s3\<lparr>ps_world := w4, ps_conns := (ps_conns s3)(fd2 \<mapsto> d\<lparr>request_buffer := []\<rparr>)\<rparr>"
  have e4: "profile_move digest (Profile_Message fd2 lay) s3 = Some s4"
    using assms(10-14) n(1) by (simp add: s1_def s2_def s3_def s4_def)
  have "written s3 s4 = [(fd, n)]" by (simp add: written_def s3_def s4_def n(2))
  moreover have "ps_conns s4 fd = Some c3" using assms(11) by (simp add: s3_def s4_def)
  ultimately show ?thesis
    using e1 e2 e3 e4 o3(2) by (simp add: profile_serve_def del: profile_move.simps)
qed

definition second_login :: string where
  "second_login = render [''login'', [], ''authtoken'', ''T2'', ''final'']"

definition stale_start :: profile_system where
  "stale_start =
     \<lparr>ps_world = \<lparr>pw_nas = (nas_start sample_generator)
          \<lparr>login_sessions := [(''u2'', \<lparr>ls_challenge = ''c'', ls_token = ''T2'', ls_request_body = [], ls_profile_id = ''2''\<rparr>)],
           user_profile_ids := [(''u1'', ''1''), (''u2'', ''2'')]\<rparr>,
        active_profiles = [(''1'', 5)], pending_requests = [], pw_generator = sample_generator,
        pw_clock = (\<lambda>_. 0), pw_clock_reads = 0, pw_wire = []\<rparr>,
      ps_conns = [5 \<mapsto> (idle_conn 5)\<lparr>request_buffer := second_login\<rparr>,
        6 \<mapsto> (idle_conn 6)\<lparr>request_buffer := accept_request\<rparr>]\<rparr>"

theorem stale_entry_reaches_stranger_witness:
  "\<exists>out1 out2 out3 m s' stranger.
    run_events (profile_serve (\<lambda>t. []))
      [Profile_Message 5 insertion_order, Profile_Hangup 5, Profile_Accept 5, Profile_Message 6 insertion_order]
      stale_start = Some ([out1, out2, out3, [(5, m)]], s') \<and>
    ps_conns s' 5 = Some stranger \<and> credentials stranger = default_credentials"
proof -
  let ?c = "(idle_conn 5)\<lparr>request_buffer := second_login\<rparr>" and ?d = "(idle_conn 6)\<lparr>request_buffer := accept_request\<rparr>"
  have l: "find_sub final_mark second_login = Some 20" "20 + 7 = length second_login"
    "is_profile_login second_login = Some True"
    "lc_profile_id (credentials_for_token insertion_order (field_after (slashed ''authtoken'') backslash second_login)
      (pw_nas (ps_world stale_start))) \<noteq> ''1''"
    by code_simp+
  have r: "find_sub final_mark accept_request = Some 35" "35 + 7 = length accept_request"
    "is_profile_authadd accept_request = Some True"
    "profile_field_value accept_request ''fromprofileid'' = Some ''1''"
    by code_simp+
  have "um_find (active_profiles (ps_world stale_start)) ''1'' = Some 5"
    "ps_conns stale_start 5 = Some ?c" "ps_conns stale_start 6 = Some ?d"
    by (simp_all add: stale_start_def um_find_def)
  from stale_entry_reaches_stranger [OF this(1) _ _ this(2) _ l this(3) _ _ r, of "\<lambda>t. []"]
  show ?thesis by simp
qed

end
