(* ===== verification/Nas_Races.thy ===== *)
theory Nas_Races
  imports Nas_Threads
begin

section \<open>The unguarded generator of the NAS threads (\<^verbatim>\<open>random_text\<close> of \<^verbatim>\<open>src/nas_http.cpp\<close>)\<close>

text \<open>
  \<^verbatim>\<open>random_text\<close> draws from a static generator without a lock, and a login draws its challenge and its
  token before it takes the mutex of the sessions. The access is a data race, for which the language
  promises nothing; the mildest thing that can happen is that a thread works on the state of the
  generator it has loaded while another does the same. Here the load and the store are separate steps,
  so that this can be seen.
\<close>

subsection \<open>Load and store\<close>

definition load_generator :: "nas_state \<Rightarrow> rng" where
  "load_generator st = text_generator st"

definition login_with ::
  "rng \<Rightarrow> nat \<Rightarrow> string \<Rightarrow> string \<Rightarrow> string \<Rightarrow> nas_state \<Rightarrow> (nas_worker \<times> nas_state) option" where
  "login_with g now request user_id profile_id st = do {
     let (challenge, g1) = random_chars 8 alnum_alphabet g;
     let (token_text, g2) = random_chars 80 alnum_alphabet g1;
     body \<leftarrow> request_body request;
     let session = \<lparr>ls_challenge = challenge, ls_token = ''NDS'' @ token_text,
       ls_request_body = body, ls_profile_id = profile_id\<rparr>;
     let st1 = store_login_session user_id session (st\<lparr>text_generator := g2\<rparr>);
     datetime \<leftarrow> current_datetime now;
     Some (Nas_Answered (plain_response (login_text session datetime)), st1)
   }"

text \<open>A thread that stores before another loads does what \<^const>\<open>session_section\<close> says.\<close>

lemma login_without_race:
  "login_with (load_generator st) now request user_id profile_id st =
   session_section now request user_id profile_id st"
  by (simp add: login_with_def load_generator_def session_section_def nas_random_text_def
      case_prod_beta Let_def)

text \<open>The session a login draws.\<close>

definition drawn_session :: "rng \<Rightarrow> string \<Rightarrow> string \<Rightarrow> login_session" where
  "drawn_session g request profile_id =
     (let (challenge, g1) = random_chars 8 alnum_alphabet g
      in \<lparr>ls_challenge = challenge, ls_token = ''NDS'' @ fst (random_chars 80 alnum_alphabet g1),
          ls_request_body = body_of request, ls_profile_id = profile_id\<rparr>)"

lemma login_with_eq:
  assumes "before_year_10000 now"
  shows "\<exists>d g'. login_with g now request user profile st =
    Some (Nas_Answered (plain_response (login_text (drawn_session g request profile) d)),
      store_login_session user (drawn_session g request profile) (st\<lparr>text_generator := g'\<rparr>))"
  using datetime_total [of now] assms
  by (auto simp: before_year_10000_def login_with_def drawn_session_def nas_readers case_prod_beta Let_def)

text \<open>An order in which a given entry comes first.\<close>

lift_definition first_in_order :: "'k \<times> 'v \<Rightarrow> ('k, 'v) layout" is
  "\<lambda>x xs. if x \<in> set xs then x # remove1 x xs else xs"
  by auto

lemma first_holder:
  assumes "um_find (login_sessions st) u = Some session"
  shows "\<exists>lay. credentials_for_token lay (ls_token session) st =
    \<lparr>lc_challenge = ls_challenge session, lc_token = ls_token session, lc_user_id = u,
     lc_profile_id = ls_profile_id session\<rparr>"
proof -
  have "(u, session) \<in> set (login_sessions st)"
    using assms by (simp add: um_find_def map_of_SomeD)
  then have "walk (first_in_order (u, session)) (login_sessions st) =
      (u, session) # remove1 (u, session) (login_sessions st)"
    by (simp add: first_in_order.rep_eq)
  then have "credentials_for_token (first_in_order (u, session)) (ls_token session) st =
      \<lparr>lc_challenge = ls_challenge session, lc_token = ls_token session, lc_user_id = u,
       lc_profile_id = ls_profile_id session\<rparr>"
    by (simp add: credentials_for_token_def)
  then show ?thesis by blast
qed

subsection \<open>Properties\<close>

text \<open>
  Two logins that race on the generator are told apart by nobody: when both threads load its state
  before either stores, both users get the same challenge and the same token, both sessions are kept
  under it, and it depends on the order of the hash table which of the two the profile server takes the
  bearer for; each of them can be taken for the other.
\<close>

theorem racing_logins_share_token:
  assumes "before_year_10000 now1" and "before_year_10000 now2" and "user1 \<noteq> user2"
  shows "\<exists>s1 s2 d1 d2 st1 st2.
    login_with (load_generator st) now1 request1 user1 profile1 st =
      Some (Nas_Answered (plain_response (login_text s1 d1)), st1) \<and>
    login_with (load_generator st) now2 request2 user2 profile2 st1 =
      Some (Nas_Answered (plain_response (login_text s2 d2)), st2) \<and>
    ls_token s1 = ls_token s2 \<and> ls_challenge s1 = ls_challenge s2 \<and>
    um_find (login_sessions st2) user1 = Some s1 \<and> um_find (login_sessions st2) user2 = Some s2 \<and>
    (\<exists>lay. lc_user_id (credentials_for_token lay (ls_token s1) st2) = user2 \<and>
       lc_profile_id (credentials_for_token lay (ls_token s1) st2) = profile2) \<and>
    (\<exists>lay. lc_user_id (credentials_for_token lay (ls_token s2) st2) = user1 \<and>
       lc_profile_id (credentials_for_token lay (ls_token s2) st2) = profile1)"
proof -
  let ?g = "load_generator st"
  define s1 where "s1 = drawn_session ?g request1 profile1"
  define s2 where "s2 = drawn_session ?g request2 profile2"
  have eq: "ls_token s1 = ls_token s2" "ls_challenge s1 = ls_challenge s2"
    and pr: "ls_profile_id s1 = profile1" "ls_profile_id s2 = profile2"
    by (simp_all add: s1_def s2_def drawn_session_def case_prod_beta Let_def)
  obtain d1 g1 where l1: "login_with ?g now1 request1 user1 profile1 st =
      Some (Nas_Answered (plain_response (login_text s1 d1)),
        store_login_session user1 s1 (st\<lparr>text_generator := g1\<rparr>))"
    using login_with_eq [OF assms(1)] unfolding s1_def by blast
  define st1 where "st1 = store_login_session user1 s1 (st\<lparr>text_generator := g1\<rparr>)"
  obtain d2 g2 where l2: "login_with ?g now2 request2 user2 profile2 st1 =
      Some (Nas_Answered (plain_response (login_text s2 d2)),
        store_login_session user2 s2 (st1\<lparr>text_generator := g2\<rparr>))"
    using login_with_eq [OF assms(2)] unfolding s2_def by blast
  define st2 where "st2 = store_login_session user2 s2 (st1\<lparr>text_generator := g2\<rparr>)"
  have f: "um_find (login_sessions st2) user1 = Some s1" "um_find (login_sessions st2) user2 = Some s2"
    using assms(3) by (simp_all add: st1_def st2_def store_login_session_def um_find_set)
  show ?thesis
    using l1 l2 eq pr f first_holder [OF f(1)] first_holder [OF f(2)]
    unfolding st1_def [symmetric] st2_def [symmetric] by (metis login_credentials.select_convs(3,4))
qed

theorem racing_logins_share_token_witness:
  "\<exists>s1 s2 d1 d2 st1 st2.
    login_with (load_generator (nas_start sample_generator)) 0 sample_login ''MTAx'' ''1'' (nas_start sample_generator) =
      Some (Nas_Answered (plain_response (login_text s1 d1)), st1) \<and>
    login_with (load_generator (nas_start sample_generator)) 1 sample_login ''MTAy'' ''2'' st1 =
      Some (Nas_Answered (plain_response (login_text s2 d2)), st2) \<and>
    ls_token s1 = ls_token s2 \<and>
    (\<exists>lay. lc_user_id (credentials_for_token lay (ls_token s1) st2) = ''MTAy'')"
  using racing_logins_share_token [of 0 1 "''MTAx''" "''MTAy''" "nas_start sample_generator"
      sample_login "''1''" sample_login "''2''"]
  by (simp add: before_year_10000_def) blast

end
