(* ===== verification/Server_Accept.thy ===== *)
theory Server_Accept
  imports Server_Main
begin

section \<open>Accepting a client, and how a stop depends on clients\<close>

text \<open>
  Every thread begins with \<^verbatim>\<open>accept\<close> and sets options on the socket it gets: four services give it a
  receive timeout, the profile server the keepalive of TCP, and two services nothing. Without a receive
  timeout a thread comes back from \<^verbatim>\<open>recv\<close> only when its client sends or hangs up. What this means for a stop
  is stated over the step relation of the threads.
\<close>

subsection \<open>The beginnings of the handlers\<close>

definition accept_client :: "(int \<Rightarrow> kernel \<Rightarrow> kernel) \<Rightarrow> kernel \<Rightarrow> int \<times> kernel" where
  "accept_client prepare k =
     (let (client_socket, k') = sys_accept k
      in if client_socket < 0 then (client_socket, k') else (client_socket, prepare client_socket k'))"

definition accept_health :: "kernel \<Rightarrow> int \<times> kernel" where
  "accept_health = accept_client (\<lambda>client_socket k. k)"

definition accept_dns_tcp :: "kernel \<Rightarrow> int \<times> kernel" where
  "accept_dns_tcp = accept_client (\<lambda>client_socket k. k)"

definition accept_relay :: "kernel \<Rightarrow> int \<times> kernel" where
  "accept_relay = accept_client (\<lambda>client_socket. set_receive_timeout client_socket 5)"

definition accept_player_search :: "kernel \<Rightarrow> int \<times> kernel" where
  "accept_player_search = accept_client (\<lambda>client_socket. set_receive_timeout client_socket 5)"

definition accept_game :: "kernel \<Rightarrow> int \<times> kernel" where
  "accept_game = accept_client (\<lambda>client_socket. set_receive_timeout client_socket 5)"

definition accept_nas :: "kernel \<Rightarrow> int \<times> kernel" where
  "accept_nas = accept_client (\<lambda>client_socket. set_receive_timeout client_socket 2)"

definition accept_profile :: "kernel \<Rightarrow> int \<times> kernel" where
  "accept_profile = accept_client set_keepalive"

definition accept_gamestats :: "kernel \<Rightarrow> int \<times> kernel" where
  "accept_gamestats = accept_client (\<lambda>client_socket k. k)"

text \<open>The services of datagrams accept nobody.\<close>

fun accept_of :: "service \<Rightarrow> (kernel \<Rightarrow> int \<times> kernel) option" where
  "accept_of Svc_Health = Some accept_health"
| "accept_of Svc_Dns_Tcp = Some accept_dns_tcp"
| "accept_of Svc_Game = Some accept_game"
| "accept_of Svc_Nas = Some accept_nas"
| "accept_of Svc_Profile = Some accept_profile"
| "accept_of Svc_Player_Search = Some accept_player_search"
| "accept_of Svc_Gamestats = Some accept_gamestats"
| "accept_of Svc_Relay = Some accept_relay"
| "accept_of s = None"

lemmas accept_defs = accept_client_def accept_health_def accept_dns_tcp_def accept_relay_def
  accept_player_search_def accept_game_def accept_nas_def accept_profile_def accept_gamestats_def

text \<open>
  How long a thread of a service waits for a silent client, 0 for ever: what the accepted socket says,
  here of a first connection; that it is the same for every kernel is shown below.
\<close>

definition first_kernel :: kernel where
  "first_kernel = \<lparr>open_fds = [], socket_table = Map.empty, socket_ok = [], bind_ok = [], listen_ok = [],
     accept_ok = [], handled = {}, console = []\<rparr>"

definition patience :: "service \<Rightarrow> int" where
  "patience s =
     (case accept_of s of
        None \<Rightarrow> 0
      | Some acc \<Rightarrow>
          let (client_socket, k) = acc first_kernel
          in case socket_table k client_socket of None \<Rightarrow> 0 | Some entry \<Rightarrow> receive_timeout entry)"

lemma patience_table:
  "patience s = (case s of Svc_Nas \<Rightarrow> 2 | Svc_Game \<Rightarrow> 5 | Svc_Player_Search \<Rightarrow> 5 | Svc_Relay \<Rightarrow> 5 | _ \<Rightarrow> 0)"
  by (cases s) (simp_all add: patience_def accept_defs first_kernel_def sys_accept_def lowest_free_def
      set_receive_timeout_def set_keepalive_def update_socket_def new_socket_def)

subsection \<open>Properties of an accepted socket\<close>

text \<open>
  A thread either gets no socket and changes nothing, or gets a fresh one and sets it up for its
  service: with the timeout of the service, and with the keepalive of TCP exactly for the profile server;
  all other sockets keep their state.
\<close>

theorem accepted_socket_options:
  assumes "accept_of s = Some acc"
  shows "\<exists>fd k'. acc k = (fd, k') \<and>
    (fd = -1 \<and> open_fds k' = open_fds k \<and> socket_table k' = socket_table k \<or>
     0 \<le> fd \<and> nat fd \<notin> set (open_fds k) \<and> open_fds k' = open_fds k @ [nat fd] \<and>
     socket_table k' = (socket_table k)(fd \<mapsto>
       (new_socket Sock_Stream)\<lparr>receive_timeout := patience s, keepalive := (s = Svc_Profile)\<rparr>))"
  using assms lowest_free_not_open [of "open_fds k"]
  by (cases s) (auto simp: patience_table accept_defs sys_accept_def set_receive_timeout_def set_keepalive_def
      update_socket_def new_socket_def Let_def split: prod.splits)

theorem accepted_socket_options_witness:
  "\<exists>fd k'. accept_nas \<lparr>open_fds = [0, 1, 2, 4], socket_table = Map.empty, socket_ok = [], bind_ok = [],
      listen_ok = [], accept_ok = [True], handled = {}, console = []\<rparr> = (fd, k') \<and>
    (fd = -1 \<or> nat fd \<notin> {0, 1, 2, 4})"
  using accepted_socket_options [of Svc_Nas accept_nas "\<lparr>open_fds = [0, 1, 2, 4], socket_table = Map.empty,
      socket_ok = [], bind_ok = [], listen_ok = [], accept_ok = [True], handled = {}, console = []\<rparr>"]
  by auto

subsection \<open>Stopping without the help of clients\<close>

text \<open>
  What the server does of its own while its clients keep silent: no connection arrives, and of the
  threads that serve one only those with a timeout finish. (The answers are short, so that \<^verbatim>\<open>send\<close> does not
  wait for the client.)
\<close>

fun of_its_own :: "label \<Rightarrow> bool" where
  "of_its_own (Arrive s) \<longleftrightarrow> False"
| "of_its_own (Finish s) \<longleftrightarrow> 0 < patience s"
| "of_its_own l \<longleftrightarrow> True"

text \<open>Threads that come to an end without a client.\<close>

definition stoppable :: "server_threads \<Rightarrow> bool" where
  "stoppable st \<longleftrightarrow>
     (\<forall>s. blocked st s \<le> backlog st s \<and> (patience s = 0 \<longrightarrow> blocked st s = 0 \<and> serving st s = 0))"

lemma patience_nonneg [simp]: "0 \<le> patience s"
  by (cases s) (simp_all add: patience_table)

lemma stoppable_before:
  assumes "server_step st l st'" and "of_its_own l" and "main_phase st = Joining"
    and "main_phase st' = Joining \<longrightarrow> stoppable st'"
  shows "stoppable st"
  using assms(1)
proof cases
  case (accept s)
  with assms(3,4) have q: "stoppable st'" by simp
  have "blocked st t \<le> backlog st t \<and> (patience t = 0 \<longrightarrow> blocked st t = 0 \<and> serving st t = 0)" for t
  proof (cases "t = s")
    case True
    from q accept have "blocked st s - 1 \<le> backlog st s - 1" "patience s \<noteq> 0"
      by (auto simp: stoppable_def dest!: spec [of _ s])
    with True accept show ?thesis by simp
  next
    case False
    with q accept show ?thesis by (auto simp: stoppable_def dest!: spec [of _ t])
  qed
  then show ?thesis by (simp add: stoppable_def)
next
  case (finish s)
  with assms(2-4) have q: "stoppable st'" and p: "0 < patience s" by simp_all
  have "blocked st t \<le> backlog st t \<and> (patience t = 0 \<longrightarrow> blocked st t = 0 \<and> serving st t = 0)" for t
    using q finish p by (cases "t = s") (auto simp: stoppable_def dest!: spec [of _ t])
  then show ?thesis by (simp add: stoppable_def)
next
  case stop
  then show ?thesis by (simp add: stoppable_def)
qed (use assms in \<open>auto simp: stoppable_def\<close>)

lemma stopped_was_stoppable:
  "server_run st ls st' \<Longrightarrow> list_all of_its_own ls \<Longrightarrow> main_phase st' = Stopped \<Longrightarrow>
   main_phase st = Joining \<Longrightarrow> stoppable st"
proof (induction rule: server_run.induct)
  case (step st l st1 ls st2)
  then show ?case using stoppable_before [OF step.hyps(1)] by simp
qed simp


text \<open>A server with one profile connection open when the signal comes.\<close>

definition one_player :: server_threads where
  "one_player = \<lparr>keep_running = False, main_phase = Joining, backlog = (\<lambda>_. 0), blocked = (\<lambda>_. 0),
     serving = (\<lambda>_. 0)(Svc_Profile := 1), workers = 1\<rparr>"


end
