(* ===== verification/Server_Process.thy ===== *)
theory Server_Process
  imports World_Laws Server_Accept
begin

section \<open>The process: threads and tables together (\<^verbatim>\<open>src/server.cpp\<close>)\<close>

text \<open>
  \<open>Server_Main\<close> counts threads and \<open>Server_World\<close> serves events. Here the two run together: an event of
  a connection needs a thread of its service that has accepted somebody, no two open connections share a
  thread, a thread ends when its connection has, the datagrams and the health check are handled by
  the main thread while it is in its loop, and the main thread leaves the loop between two packets.
\<close>

record process =
  p_threads :: server_threads
  p_world :: server_world

fun event_service :: "world_event \<Rightarrow> service" where
  "event_service (On_Discovery (Search_Request fd request)) = Svc_Player_Search"
| "event_service (On_Discovery (Search_Prune fd lay now)) = Svc_Player_Search"
| "event_service (On_Discovery (Search_Answer fd lay)) = Svc_Player_Search"
| "event_service (On_Discovery e) = Svc_Qr"
| "event_service (On_Natneg e) = Svc_Natneg"
| "event_service (On_Dns incoming) = Svc_Dns"
| "event_service (On_Health fd) = Svc_Health"
| "event_service (On_Dns_Stream stream) = Svc_Dns_Tcp"
| "event_service (On_Browser stream) = Svc_Game"
| "event_service (On_Nas e) = Svc_Nas"
| "event_service (On_Profile e) = Svc_Profile"
| "event_service (On_Stats fd greeting_sent chunks) = Svc_Gamestats"
| "event_service (On_Relay fd calls) = Svc_Relay"

definition on_main_thread :: "service \<Rightarrow> bool" where
  "on_main_thread s \<longleftrightarrow> Handle s \<in> set dispatch_order"

text \<open>The threads of a service that are in the middle of a connection or a request.\<close>

fun open_at :: "service \<Rightarrow> server_world \<Rightarrow> int set" where
  "open_at Svc_Profile w = dom (ps_conns (w_profiles w))"
| "open_at Svc_Nas w = dom (w_nas_workers w)"
| "open_at Svc_Player_Search w = dom (d_searches (w_discovery w))"
| "open_at s w = {}"

definition may_serve :: "world_event \<Rightarrow> process \<Rightarrow> server_world \<Rightarrow> bool" where
  "may_serve e p w' \<longleftrightarrow>
     (let s = event_service e; st = p_threads p
      in if on_main_thread s
         then main_phase st = Looping \<and> (s \<noteq> Svc_Qr \<longrightarrow> d_main (w_discovery (p_world p)) = Qr_Idle)
         else 0 < serving st s \<and> card (open_at s w') \<le> serving st s)"

fun may_change :: "label \<Rightarrow> process \<Rightarrow> bool" where
  "may_change (Finish s) p \<longleftrightarrow> card (open_at s (p_world p)) < serving (p_threads p) s"
| "may_change Round p \<longleftrightarrow> d_main (w_discovery (p_world p)) = Qr_Idle"
| "may_change Leave p \<longleftrightarrow> d_main (w_discovery (p_world p)) = Qr_Idle"
| "may_change l p \<longleftrightarrow> True"

datatype process_label = Thread label | Work world_event world_output

inductive process_step ::
  "config \<Rightarrow> (string \<Rightarrow> packet) \<Rightarrow> (string \<Rightarrow> (u8 \<times> u8 \<times> u8 \<times> u8) option) \<Rightarrow>
   process \<Rightarrow> process_label \<Rightarrow> process \<Rightarrow> bool"
  for c digest inet_pton where
  thread: "server_step (p_threads p) l st \<Longrightarrow> may_change l p \<Longrightarrow>
    process_step c digest inet_pton p (Thread l) (p\<lparr>p_threads := st\<rparr>)"
| work: "world_possible e \<Longrightarrow> serve c digest inet_pton e (p_world p) = Some (out, w) \<Longrightarrow>
    may_serve e p w \<Longrightarrow>
    process_step c digest inet_pton p (Work e out) (p\<lparr>p_world := w\<rparr>)"

inductive process_run ::
  "config \<Rightarrow> (string \<Rightarrow> packet) \<Rightarrow> (string \<Rightarrow> (u8 \<times> u8 \<times> u8 \<times> u8) option) \<Rightarrow>
   process \<Rightarrow> process_label list \<Rightarrow> process \<Rightarrow> bool"
  for c digest inet_pton where
  started: "process_run c digest inet_pton p [] p"
| goes_on: "process_step c digest inet_pton p l p' \<Longrightarrow> process_run c digest inet_pton p' ls p'' \<Longrightarrow>
    process_run c digest inet_pton p (l # ls) p''"

inductive_cases process_stepE: "process_step c digest inet_pton p l p'"

definition process_start :: "server_seeds \<Rightarrow> (nat \<Rightarrow> nat) \<Rightarrow> process" where
  "process_start seeds clock = \<lparr>p_threads = threads_start, p_world = world_start seeds clock\<rparr>"

subsection \<open>The two sides of a run\<close>

fun thread_labels :: "process_label list \<Rightarrow> label list" where
  "thread_labels [] = []"
| "thread_labels (Thread l # ls) = l # thread_labels ls"
| "thread_labels (Work e out # ls) = thread_labels ls"

fun world_events :: "process_label list \<Rightarrow> world_event list" where
  "world_events [] = []"
| "world_events (Thread l # ls) = world_events ls"
| "world_events (Work e out # ls) = e # world_events ls"

fun world_outputs :: "process_label list \<Rightarrow> world_output list" where
  "world_outputs [] = []"
| "world_outputs (Thread l # ls) = world_outputs ls"
| "world_outputs (Work e out # ls) = out # world_outputs ls"

lemma process_sides:
  "process_run c digest inet_pton p ls p' \<Longrightarrow>
   server_run (p_threads p) (thread_labels ls) (p_threads p') \<and>
   run_events (serve c digest inet_pton) (world_events ls) (p_world p) = Some (world_outputs ls, p_world p') \<and>
   list_all world_possible (world_events ls)"
proof (induction rule: process_run.induct)
  case (started p)
  then show ?case by (simp add: server_run.nil)
next
  case (goes_on p l p' ls p'')
  from goes_on.hyps(1) show ?case
  proof cases
    case (thread l' st)
    with goes_on.IH show ?thesis by (auto intro: server_run.step)
  next
    case (work e out w)
    with goes_on.IH show ?thesis by (simp del: serve.simps)
  qed
qed

lemma world_events_append: "world_events (ls @ ls') = world_events ls @ world_events ls'"
  by (induction ls rule: world_events.induct) simp_all

lemma world_events_threads [simp]: "world_events (map Thread ls) = []"
  by (induction ls) simp_all

subsection \<open>Every open connection has its thread\<close>

definition process_inv :: "process \<Rightarrow> bool" where
  "process_inv p \<longleftrightarrow>
     (\<forall>s. finite (open_at s (p_world p)) \<and> card (open_at s (p_world p)) \<le> serving (p_threads p) s) \<and>
     (main_phase (p_threads p) \<noteq> Looping \<longrightarrow>
        \<not> keep_running (p_threads p) \<and> d_main (w_discovery (p_world p)) = Qr_Idle) \<and>
     (main_phase (p_threads p) = Stopped \<longrightarrow>
        (\<forall>s. blocked (p_threads p) s = 0 \<and> serving (p_threads p) s = 0))"

text \<open>An event opens and closes connections of its own service only, and only finitely many.\<close>

lemma profile_move_finite:
  "profile_move digest e s = Some s' \<Longrightarrow> finite (dom (ps_conns s)) \<Longrightarrow> finite (dom (ps_conns s'))"
  by (cases e) (auto simp: Let_def split: if_splits option.splits bind_splits)

lemma nas_serve_finite:
  "nas_serve e p = Some (out, p') \<Longrightarrow> finite (dom (pool_workers p)) \<Longrightarrow> finite (dom (pool_workers p'))"
  by (cases e) (auto split: if_splits option.splits bind_splits nas_worker.splits)

lemma discovery_serve_searches:
  assumes "discovery_serve k e d = Some (out, d')"
  shows "finite (dom (d_searches d)) \<Longrightarrow> finite (dom (d_searches d'))"
    and "event_service (On_Discovery e) = Svc_Qr \<Longrightarrow> d_searches d' = d_searches d"
    and "event_service (On_Discovery e) \<noteq> Svc_Qr \<Longrightarrow> d_main d' = d_main d"
  using assms
  by (cases e; auto split: if_splits option.splits bind_splits qr_main.splits search_worker.splits)+

lemma with_pool_workers [simp]: "w_nas_workers (with_pool p w) = pool_workers p"
  by (simp add: with_pool_def)

lemma serve_opens:
  assumes "serve c digest inet_pton e w = Some (out, w')"
  shows "finite (open_at s w) \<Longrightarrow> finite (open_at s w')"
    and "s \<noteq> event_service e \<Longrightarrow> open_at s w' = open_at s w"
    and "event_service e \<noteq> Svc_Qr \<Longrightarrow> d_main (w_discovery w') = d_main (w_discovery w)"
proof -
  have d: "discovery_serve k x (w_discovery w) = Some (o', d) \<Longrightarrow> event_service (On_Discovery x) = Svc_Qr \<or>
      event_service (On_Discovery x) = Svc_Player_Search" for k x o' d
    by (cases x) simp_all
  show "finite (open_at s w')" if "finite (open_at s w)"
  proof (cases e)
    case (On_Discovery x)
    with assms that show ?thesis
      by (cases s) (auto simp del: discovery_serve.simps intro: discovery_serve_searches(1))
  next
    case (On_Nas x)
    with assms that nas_serve_finite [of x "pool_of w"] show ?thesis
      by (cases s) (auto simp: pool_of_def simp del: nas_serve.simps)
  next
    case (On_Profile x)
    with assms that show ?thesis
      by (cases s) (auto dest!: profile_serve_move intro: profile_move_finite)
  qed (use assms that in \<open>cases s; auto\<close>)+
  show "open_at s w' = open_at s w" if "s \<noteq> event_service e"
  proof (cases e)
    case (On_Discovery x)
    with assms that show ?thesis
      by (cases s; cases x) (auto dest: discovery_serve_searches(2) simp del: discovery_serve.simps)
  qed (use assms that in \<open>cases s; auto\<close>)+
  show "d_main (w_discovery w') = d_main (w_discovery w)" if "event_service e \<noteq> Svc_Qr"
  proof (cases e)
    case (On_Discovery x)
    with assms that show ?thesis
      by (auto dest: discovery_serve_searches(3) simp del: discovery_serve.simps)
  qed (use assms in auto)
qed

lemma main_thread_services: "on_main_thread s \<longleftrightarrow> s \<in> {Svc_Qr, Svc_Dns, Svc_Natneg, Svc_Health}"
  by (cases s) (simp_all add: on_main_thread_def dispatch_order_def)

lemma main_round_serving [simp]:
  "serving (main_round st) = serving st" "main_phase (main_round st) = main_phase st"
proof -
  have "serving (fold perform xs st) = serving st \<and> main_phase (fold perform xs st) = main_phase st" for xs
  proof (induction xs arbitrary: st)
    case (Cons a xs)
    then show ?case by (cases a) simp_all
  qed simp
  then show "serving (main_round st) = serving st" "main_phase (main_round st) = main_phase st"
    by (simp_all add: main_round_def)
qed

lemma main_thread_opens: "on_main_thread s \<Longrightarrow> open_at s w = {}"
  by (cases s) (simp_all add: main_thread_services)

lemma process_inv_step:
  assumes "process_step c digest inet_pton p l p'" and "process_inv p"
  shows "process_inv p'"
  using assms(1)
proof cases
  case (thread l st)
  note inv = assms(2) [unfolded process_inv_def]
  have stopped: "main_phase st = Stopped \<longrightarrow> (\<forall>s. blocked st s = 0 \<and> serving st s = 0)"
    using stopped_stays [OF thread(3)] inv by blast
  have "card (open_at s (p_world p)) \<le> serving st s" for s
    using thread(3) inv thread(4)
    by cases (auto simp: le_Suc_eq less_Suc_eq_le [symmetric] dest: spec [of _ s])
  moreover have "main_phase st \<noteq> Looping \<longrightarrow> \<not> keep_running st \<and> d_main (w_discovery (p_world p)) = Qr_Idle"
    using thread(3) inv thread(4) by cases auto
  ultimately show ?thesis using stopped inv by (simp add: process_inv_def thread(2))
next
  case (work e out w)
  note inv = assms(2) [unfolded process_inv_def]
  note frame = serve_opens [OF work(4)]
  have "finite (open_at s w)" for s using frame(1) inv by blast
  moreover have "card (open_at s w) \<le> serving (p_threads p) s" for s
  proof (cases "s = event_service e")
    case True
    with work(5) show ?thesis
      by (cases "on_main_thread s") (auto simp: may_serve_def Let_def main_thread_opens)
  next
    case False
    with frame(2) inv show ?thesis by simp
  qed
  moreover have "main_phase (p_threads p) \<noteq> Looping \<longrightarrow> d_main (w_discovery w) = Qr_Idle"
    using frame(3) inv work(5) by (cases "event_service e = Svc_Qr") (auto simp: may_serve_def main_thread_services)
  ultimately show ?thesis using inv by (simp add: process_inv_def work(2))
qed

lemma process_inv_run:
  "process_run c digest inet_pton p ls p' \<Longrightarrow> process_inv p \<Longrightarrow> process_inv p'"
  by (induction rule: process_run.induct) (blast dest: process_inv_step)+

lemma start_idle: "open_at s (world_start seeds clock) = {}"
  "d_main (w_discovery (world_start seeds clock)) = Qr_Idle"
  by (cases s) (simp_all add: world_start_def profile_start_def discovery_start_def)

lemma process_start_inv: "process_inv (process_start seeds clock)"
  by (simp add: process_inv_def process_start_def threads_start_def start_idle)

lemma process_world_inv:
  assumes "process_run c digest inet_pton (process_start seeds clock) ls p"
  shows "world_inv (p_world p)"
proof -
  note sides = process_sides [OF assms]
  obtain outs w where "run_events (serve c digest inet_pton) (world_events ls) (world_start seeds clock) = Some (outs, w)"
    "world_inv w"
    using whole_server.run_total [OF world_start_inv] sides by blast
  with sides show ?thesis by (simp add: process_start_def)
qed

lemma process_run_append:
  "process_run c digest inet_pton p ls p' \<Longrightarrow> process_run c digest inet_pton p' ls' p'' \<Longrightarrow>
   process_run c digest inet_pton p (ls @ ls') p''"
  by (induction rule: process_run.induct) (auto intro: process_run.intros)

text \<open>The threads run freely while no connection is open and the main thread is idle.\<close>

lemma idle_may_change:
  assumes "server_step (p_threads p) l st" and "\<And>s. open_at s (p_world p) = {}"
    and "d_main (w_discovery (p_world p)) = Qr_Idle"
  shows "may_change l p"
  using assms(1) by cases (simp_all add: assms(2,3))

lemma threads_run:
  "server_run st ls st' \<Longrightarrow> p_threads p = st \<Longrightarrow> (\<And>s. open_at s (p_world p) = {}) \<Longrightarrow>
   d_main (w_discovery (p_world p)) = Qr_Idle \<Longrightarrow>
   process_run c digest inet_pton p (map Thread ls) (p\<lparr>p_threads := st'\<rparr>)"
proof (induction arbitrary: p rule: server_run.induct)
  case (nil st)
  then have "p\<lparr>p_threads := st\<rparr> = p" by (cases p) simp
  then show ?case by (simp add: process_run.started)
next
  case (step st l st' ls st'')
  have "process_step c digest inet_pton p (Thread l) (p\<lparr>p_threads := st'\<rparr>)"
    using step.hyps(1) step.prems by (intro process_step.thread idle_may_change) simp_all
  moreover have "process_run c digest inet_pton (p\<lparr>p_threads := st'\<rparr>) (map Thread ls) (p\<lparr>p_threads := st''\<rparr>)"
    using step.IH [of "p\<lparr>p_threads := st'\<rparr>"] step.prems by simp
  ultimately show ?case by (simp add: process_run.goes_on)
qed

text \<open>A client of the profile server that comes, gets its challenge and goes.\<close>

definition visited :: server_threads where
  "visited = threads_start\<lparr>serving := (\<lambda>_. 0)(Svc_Profile := 1), workers := 1\<rparr>"

lemma visit_threads: "server_run threads_start [Arrive Svc_Profile, Round, Accept Svc_Profile] visited"
proof -
  define st1 where "st1 = threads_start\<lparr>backlog := (backlog threads_start)(Svc_Profile := 1)\<rparr>"
  have 1: "server_step threads_start (Arrive Svc_Profile) st1"
    using server_step.arrive [of threads_start Svc_Profile] by (simp add: st1_def threads_start_def)
  have 2: "server_step st1 Round (main_round st1)"
    by (rule server_step.round) (simp_all add: st1_def threads_start_def)
  define st2 where "st2 = st1\<lparr>blocked := (\<lambda>_. 0)(Svc_Profile := 1), workers := 1\<rparr>"
  have r: "main_round st1 = st2"
    by (simp add: main_round_def dispatch_def dispatch_order_def st1_def st2_def threads_start_def)
  have "visited = st2\<lparr>backlog := (backlog st2)(Svc_Profile := backlog st2 Svc_Profile - 1),
      blocked := (blocked st2)(Svc_Profile := blocked st2 Svc_Profile - 1),
      serving := (serving st2)(Svc_Profile := serving st2 Svc_Profile + 1)\<rparr>"
    by (auto simp: visited_def st2_def st1_def threads_start_def)
  moreover have "0 < blocked st2 Svc_Profile" "0 < backlog st2 Svc_Profile"
    by (simp_all add: st2_def st1_def)
  ultimately have 3: "server_step st2 (Accept Svc_Profile) visited"
    using server_step.accept [of st2 Svc_Profile] by simp
  note 2 = 2 [unfolded r]
  from 1 2 3 show ?thesis by (blast intro: server_run.intros)
qed

lemma visit_leaves: "\<exists>st. main_phase st = Stopped \<and>
  server_run visited [Finish Svc_Profile, Signal, Leave, Stop] st"
proof -
  define st1 where "st1 = visited\<lparr>serving := (\<lambda>_. 0)\<rparr>"
  have 1: "server_step visited (Finish Svc_Profile) st1"
    using server_step.finish [of visited Svc_Profile]
    by (simp add: st1_def visited_def fun_upd_def if_distrib cong: if_cong)
  have 2: "server_step st1 Signal (stop_server st1)"
    by (rule server_step.signal) (simp add: st1_def visited_def threads_start_def)
  have 3: "server_step (stop_server st1) Leave (stop_server st1\<lparr>main_phase := Joining\<rparr>)"
    by (rule server_step.leave) (simp_all add: st1_def visited_def threads_start_def)
  have 4: "server_step (stop_server st1\<lparr>main_phase := Joining\<rparr>) Stop
      (stop_server st1\<lparr>main_phase := Joining\<rparr>\<lparr>main_phase := Stopped\<rparr>)"
    by (rule server_step.stop) (simp_all add: st1_def visited_def threads_start_def)
  from 1 2 3 4 have "server_run visited [Finish Svc_Profile, Signal, Leave, Stop]
      (stop_server st1\<lparr>main_phase := Joining\<rparr>\<lparr>main_phase := Stopped\<rparr>)"
    by (blast intro: server_run.intros)
  then show ?thesis by force
qed

lemma visit_opens:
  "\<exists>out p. process_run sample_config (\<lambda>t. []) (\<lambda>_. None) (process_start sample_seeds (\<lambda>_. 0))
     [Thread (Arrive Svc_Profile), Thread Round, Thread (Accept Svc_Profile),
      Work (On_Profile (Profile_Accept 7)) out] p \<and>
   p_threads p = visited \<and> d_main (w_discovery (p_world p)) = Qr_Idle \<and>
   (\<forall>s. s \<noteq> Svc_Profile \<longrightarrow> open_at s (p_world p) = {}) \<and>
   (\<exists>conn. ps_conns (w_profiles (p_world p)) = [7 \<mapsto> conn] \<and> request_buffer conn = [])"
proof -
  let ?start = "process_start sample_seeds (\<lambda>_. 0)"
  let ?w = "world_start sample_seeds (\<lambda>_. 0)"
  let ?p = "?start\<lparr>p_threads := visited\<rparr>"
  have 1: "process_run sample_config (\<lambda>t. []) (\<lambda>_. None) ?start
      (map Thread [Arrive Svc_Profile, Round, Accept Svc_Profile]) ?p"
    using threads_run [OF visit_threads, of ?start] by (simp add: process_start_def start_idle)
  obtain conn pw where o: "open_profile_connection 7 (ps_world (w_profiles ?w)) = Some (conn, pw)"
    "request_buffer conn = []"
    using open_connection_ok by blast
  have none: "ps_conns (w_profiles ?w) = Map.empty" by (simp add: world_start_def profile_start_def)
  obtain out w where w: "serve sample_config (\<lambda>t. []) (\<lambda>_. None) (On_Profile (Profile_Accept 7)) ?w = Some (out, w)"
    "ps_conns (w_profiles w) = [7 \<mapsto> conn]" "d_main (w_discovery w) = Qr_Idle"
    using o none by (simp add: profile_serve_def) (simp add: world_start_def discovery_start_def)
  have "process_step sample_config (\<lambda>t. []) (\<lambda>_. None) ?p (Work (On_Profile (Profile_Accept 7)) out) (?p\<lparr>p_world := w\<rparr>)"
    using w by (intro process_step.work)
      (simp_all add: process_start_def may_serve_def main_thread_services visited_def del: serve.simps)
  from process_run_append [OF 1 goes_on [OF this started]]
  have "process_run sample_config (\<lambda>t. []) (\<lambda>_. None) ?start
      [Thread (Arrive Svc_Profile), Thread Round, Thread (Accept Svc_Profile),
       Work (On_Profile (Profile_Accept 7)) out] (?p\<lparr>p_world := w\<rparr>)" by simp
  moreover have "open_at s w = {}" if "s \<noteq> Svc_Profile" for s
    using serve_opens(2) [OF w(1), of s] that by (simp add: start_idle)
  ultimately show ?thesis
    using o(2) w(2,3) by (intro exI [of _ out] exI [of _ "?p\<lparr>p_world := w\<rparr>"]) auto
qed

subsection \<open>Properties\<close>





end
