(* ===== verification/Process_Stop.thy ===== *)
theory Process_Stop
  imports Server_Process
begin

section \<open>A process can always be brought to an end\<close>

text \<open>
  Every open connection has only finitely much left to do once its client is silent: a profile
  connection handles the messages it has received and is hung up, a NAS request goes through its sections, a
  search through its two. With the datagram in the main thread's hands finished, and the threads that wait in
  \<^verbatim>\<open>accept\<close> given a connection each, nothing stands in the way of a stop.
\<close>

subsection \<open>What is left to do\<close>

fun connection_work :: "service \<Rightarrow> server_world \<Rightarrow> int \<Rightarrow> nat" where
  "connection_work Svc_Profile w fd =
     (case ps_conns (w_profiles w) fd of None \<Rightarrow> 0 | Some conn \<Rightarrow> Suc (length (request_buffer conn)))"
| "connection_work Svc_Nas w fd =
     (case w_nas_workers w fd of None \<Rightarrow> 0 | Some wk \<Rightarrow> Suc (sections_left wk))"
| "connection_work Svc_Player_Search w fd =
     (case d_searches (w_discovery w) fd of
        None \<Rightarrow> 0 | Some (Search_Received request) \<Rightarrow> 2 | Some (Search_Pruned request) \<Rightarrow> 1)"
| "connection_work s w fd = 0"

fun datagram_work :: "qr_main \<Rightarrow> nat" where
  "datagram_work Qr_Idle = 0"
| "datagram_work (Qr_Touched packet client) = 2"
| "datagram_work (Qr_Pruned packet client) = 1"

definition world_work :: "server_world \<Rightarrow> nat" where
  "world_work w = (\<Sum>s\<in>UNIV. \<Sum>fd\<in>open_at s w. connection_work s w fd)"

lemma open_work: "fd \<in> open_at s w \<longleftrightarrow> 0 < connection_work s w fd"
  by (cases s) (auto split: option.splits search_worker.splits)

text \<open>The events that take nothing in: no datagram, no connection, no bytes.\<close>

fun completes :: "world_event \<Rightarrow> bool" where
  "completes (On_Discovery (Qr_Prune lay now)) \<longleftrightarrow> True"
| "completes (On_Discovery (Qr_Respond now)) \<longleftrightarrow> True"
| "completes (On_Discovery (Search_Prune fd lay now)) \<longleftrightarrow> True"
| "completes (On_Discovery (Search_Answer fd lay)) \<longleftrightarrow> True"
| "completes (On_Nas (Nas_Section fd now)) \<longleftrightarrow> True"
| "completes (On_Profile (Profile_Message fd lay)) \<longleftrightarrow> True"
| "completes (On_Profile (Profile_Hangup fd)) \<longleftrightarrow> True"
| "completes e \<longleftrightarrow> False"

subsection \<open>Each connection goes on\<close>

lemma profile_goes_on:
  assumes "ps_conns s fd = Some conn"
  shows "\<exists>e out s'. profile_serve digest e s = Some (out, s') \<and> completes (On_Profile e) \<and>
    (\<exists>conn'. ps_conns s' = (ps_conns s)(fd := conn') \<and>
       pred_option (\<lambda>x. length (request_buffer x) < length (request_buffer conn)) conn')"
proof (cases "find_sub final_mark (request_buffer conn)")
  case None
  then show ?thesis using assms
    by (intro exI [of _ "Profile_Hangup fd"]) (auto simp: profile_serve_def)
next
  case (Some i)
  let ?rest = "conn\<lparr>request_buffer := drop (i + 7) (request_buffer conn)\<rparr>"
  obtain conn' w where m: "handle_profile_message (\<lambda>t. Some (digest t)) insertion_order
      (take (i + 7) (request_buffer conn)) (?rest, ps_world s) = Some (conn', w)"
    "harmless (?rest, ps_world s) (conn', w)"
    using profile_message_ok [of digest insertion_order "take (i + 7) (request_buffer conn)" "(?rest, ps_world s)"]
    by auto
  have "i + length final_mark \<le> length (request_buffer conn)" by (rule find_sub_bound [OF Some])
  then have "length (request_buffer conn') < length (request_buffer conn)"
    using m(2) by (simp add: harmless_def final_mark_def)
  with m(1) Some assms show ?thesis
    by (intro exI [of _ "Profile_Message fd insertion_order"])
      (auto simp: profile_serve_def Let_def intro!: exI [of _ "Some conn'"])
qed

lemma nas_goes_on:
  assumes "pool_inv p" and "pool_workers p fd = Some wk"
  shows "\<exists>out p' wk'. nas_serve (Nas_Section fd 0) p = Some (out, p') \<and>
    pool_workers p' = (pool_workers p)(fd := wk') \<and> pred_option (\<lambda>x. sections_left x < sections_left wk) wk'"
proof -
  have "before_year_10000 0" by (simp add: before_year_10000_def)
  from pool_section_steps [OF assms(1) this assms(2)]
  obtain wk1 st' out wk' where n: "nas_section 0 wk (pool_state p) = Some (wk1, st')"
    "nas_serve (Nas_Section fd 0) p = Some (out, p\<lparr>pool_state := st', pool_workers := (pool_workers p)(fd := wk')\<rparr>)"
    "wk' = Some wk1 \<or> wk' = None"
    by blast
  have "sections_left wk1 < sections_left wk" if "wk' = Some wk1"
  proof (cases "sections_left wk = 0")
    case False
    then show ?thesis using section_progress [OF n(1)] by simp
  next
    case True
    then obtain response where "wk = Nas_Answered response" by (cases wk) simp_all
    with n(2) assms(2) have "wk' = None"
      by (auto simp: nas_section_def dest!: arg_cong [where f = pool_workers] fun_cong [where x = fd])
    with that show ?thesis by simp
  qed
  with n(2,3) show ?thesis by (auto simp del: nas_serve.simps)
qed

text \<open>The work that is left at the other connections is not touched.\<close>

lemma serve_leaves_work:
  assumes "serve c digest inet_pton e w = Some (out, w')" and "s \<noteq> event_service e"
  shows "connection_work s w' fd = connection_work s w fd"
proof (cases e)
  case (On_Discovery x)
  with assms show ?thesis
    by (cases s; cases x) (auto dest: discovery_serve_searches(2) simp del: discovery_serve.simps)
qed (use assms in \<open>cases s; auto\<close>)+

definition lowers :: "service \<Rightarrow> int \<Rightarrow> server_world \<Rightarrow> server_world \<Rightarrow> bool" where
  "lowers s fd w w' \<longleftrightarrow>
     connection_work s w' fd < connection_work s w fd \<and>
     (\<forall>fd'. fd' \<noteq> fd \<longrightarrow> connection_work s w' fd' = connection_work s w fd')"

lemma connection_goes_on:
  assumes "world_inv w" and "fd \<in> open_at s w"
  shows "\<exists>e out w'. serve c digest inet_pton e w = Some (out, w') \<and> event_service e = s \<and>
    completes e \<and> world_possible e \<and> lowers s fd w w'"
proof -
  consider "s = Svc_Profile" | "s = Svc_Nas" | "s = Svc_Player_Search"
    using assms(2) by (cases s) simp_all
  then show ?thesis
  proof cases
    case 1
    with assms(2) obtain conn where conn: "ps_conns (w_profiles w) fd = Some conn" by auto
    from profile_goes_on [OF this] obtain e out ps conn' where
      "profile_serve digest e (w_profiles w) = Some (out, ps)" "completes (On_Profile e)"
      "ps_conns ps = (ps_conns (w_profiles w))(fd := conn')"
      "pred_option (\<lambda>x. length (request_buffer x) < length (request_buffer conn)) conn'"
      by blast
    with conn 1 show ?thesis
      by (intro exI [of _ "On_Profile e"]) (auto simp: lowers_def split: option.split)
  next
    case 2
    with assms(2) obtain wk where wk: "pool_workers (pool_of w) fd = Some wk"
      by (auto simp: pool_of_def)
    have "pool_inv (pool_of w)" using assms(1) by (simp add: world_inv_def)
    from nas_goes_on [OF this wk] obtain out p' wk' where
      "nas_serve (Nas_Section fd 0) (pool_of w) = Some (out, p')"
      "pool_workers p' = (pool_workers (pool_of w))(fd := wk')"
      "pred_option (\<lambda>x. sections_left x < sections_left wk) wk'"
      by blast
    with wk 2 show ?thesis
      by (intro exI [of _ "On_Nas (Nas_Section fd 0)"])
        (auto simp: lowers_def pool_of_def before_year_10000_def simp del: nas_serve.simps split: option.split)
  next
    case 3
    with assms(2) obtain x where x: "d_searches (w_discovery w) fd = Some x" by auto
    show ?thesis
    proof (cases x)
      case (Search_Received request)
      with x 3 show ?thesis
        by (intro exI [of _ "On_Discovery (Search_Prune fd insertion_order 0)"]) (auto simp: lowers_def)
    next
      case (Search_Pruned request)
      have "discovery_inv (w_discovery w)" using assms(1) by (simp add: world_inv_def)
      from search_lists_registry [OF this, of fd request "gamespy_secret_key c" insertion_order]
      obtain sessions where
        "discovery_serve (gamespy_secret_key c) (Search_Answer fd insertion_order) (w_discovery w) =
          Some (Answer (render_sessions sessions), (w_discovery w)\<lparr>d_searches := (d_searches (w_discovery w))(fd := None)\<rparr>)"
        using x Search_Pruned by blast
      with x 3 Search_Pruned show ?thesis
        by (intro exI [of _ "On_Discovery (Search_Answer fd insertion_order)"])
          (auto simp: lowers_def simp del: discovery_serve.simps)
    qed
  qed
qed

lemma lowers_closes:
  assumes "lowers s fd w w'" and "fd \<in> open_at s w"
  shows "open_at s w' \<subseteq> open_at s w"
proof
  fix fd' assume "fd' \<in> open_at s w'"
  with assms show "fd' \<in> open_at s w" by (cases "fd' = fd") (simp_all add: lowers_def open_work)
qed

lemma lowers_world_work:
  assumes "lowers s fd w w'" and "fd \<in> open_at s w" and "finite (open_at s w)"
    and "\<And>t fd. t \<noteq> s \<Longrightarrow> connection_work t w' fd = connection_work t w fd"
  shows "world_work w' < world_work w"
proof -
  have "(\<Sum>fd\<in>open_at s w'. connection_work s w' fd) = (\<Sum>fd\<in>open_at s w. connection_work s w' fd)"
    using assms(3) lowers_closes [OF assms(1,2)]
    by (intro sum.mono_neutral_left) (simp_all add: open_work)
  also have "\<dots> < (\<Sum>fd\<in>open_at s w. connection_work s w fd)"
  proof (rule sum_strict_mono_ex1 [OF assms(3)])
    have "connection_work s w' x \<le> connection_work s w x" for x
      using assms(1) by (cases "x = fd") (simp_all add: lowers_def)
    then show "\<forall>x\<in>open_at s w. connection_work s w' x \<le> connection_work s w x" by simp
    show "\<exists>x\<in>open_at s w. connection_work s w' x < connection_work s w x"
      using assms(1,2) by (auto simp: lowers_def)
  qed
  finally have less: "(\<Sum>fd\<in>open_at s w'. connection_work s w' fd) < (\<Sum>fd\<in>open_at s w. connection_work s w fd)" .
  have same: "(\<Sum>fd\<in>open_at t w'. connection_work t w' fd) = (\<Sum>fd\<in>open_at t w. connection_work t w fd)"
    if "t \<noteq> s" for t
  proof -
    have "open_at t w' = open_at t w" using assms(4) [OF that] by (simp add: set_eq_iff open_work)
    with assms(4) [OF that] show ?thesis by simp
  qed
  show ?thesis unfolding world_work_def
  proof (rule sum_strict_mono_ex1)
    show "\<forall>t\<in>UNIV. (\<Sum>fd\<in>open_at t w'. connection_work t w' fd) \<le> (\<Sum>fd\<in>open_at t w. connection_work t w fd)"
      using less same by (metis less_imp_le order_refl)
  qed (use less in auto)
qed

subsection \<open>The process goes on\<close>

lemma process_drains:
  assumes "process_inv p" and "world_inv (p_world p)"
  shows "\<exists>ls p'. process_run c digest inet_pton p ls p' \<and> p_threads p' = p_threads p \<and>
    (\<forall>s. open_at s (p_world p') = {}) \<and> d_main (w_discovery (p_world p')) = d_main (w_discovery (p_world p)) \<and>
    thread_labels ls = [] \<and> list_all completes (world_events ls)"
  using assms
proof (induction "world_work (p_world p)" arbitrary: p rule: less_induct)
  case less
  show ?case
  proof (cases "\<exists>s fd. fd \<in> open_at s (p_world p)")
    case False
    then show ?thesis by (intro exI [of _ "[]"] exI [of _ p]) (auto intro: process_run.started)
  next
    case True
    then obtain s fd where fd: "fd \<in> open_at s (p_world p)" by blast
    from connection_goes_on [OF less.prems(2) fd] obtain e out w where
      w: "serve c digest inet_pton e (p_world p) = Some (out, w)" "event_service e = s"
        "completes e" "world_possible e" "lowers s fd (p_world p) w"
      by blast
    have fin: "finite (open_at s (p_world p))" "card (open_at s (p_world p)) \<le> serving (p_threads p) s"
      using less.prems(1) by (auto simp: process_inv_def)
    have "0 < card (open_at s (p_world p))" using fd fin(1) by (auto simp: card_gt_0_iff)
    moreover have "card (open_at s w) \<le> card (open_at s (p_world p))"
      using fin(1) lowers_closes [OF w(5) fd] by (rule card_mono)
    moreover have m: "\<not> on_main_thread s" using fd main_thread_opens by blast
    ultimately have "may_serve e p w" using fin(2) w(2) by (simp add: may_serve_def)
    with w have st: "process_step c digest inet_pton p (Work e out) (p\<lparr>p_world := w\<rparr>)"
      by (intro process_step.work)
    have "world_work w < world_work (p_world p)"
      using lowers_world_work [OF w(5) fd fin(1)] serve_leaves_work [OF w(1)] w(2) by blast
    moreover have "process_inv (p\<lparr>p_world := w\<rparr>)" by (rule process_inv_step [OF st less.prems(1)])
    moreover have "world_inv w"
      using whole_server.step_inv [OF less.prems(2) w(4) w(1)] .
    ultimately obtain ls p' where r: "process_run c digest inet_pton (p\<lparr>p_world := w\<rparr>) ls p'"
      "p_threads p' = p_threads p" "\<forall>s. open_at s (p_world p') = {}"
      "d_main (w_discovery (p_world p')) = d_main (w_discovery w)" "thread_labels ls = []"
      "list_all completes (world_events ls)"
      using less.hyps [of "p\<lparr>p_world := w\<rparr>"] by auto
    have "d_main (w_discovery w) = d_main (w_discovery (p_world p))"
      using serve_opens(3) [OF w(1)] m w(2) by (auto simp: main_thread_services)
    with r w(3) show ?thesis
      by (intro exI [of _ "Work e out # ls"] exI [of _ p']) (auto intro: process_run.goes_on [OF st])
  qed
qed

lemma datagram_goes_on:
  assumes "process_inv p" and "world_inv (p_world p)" and "d_main (w_discovery (p_world p)) \<noteq> Qr_Idle"
  shows "\<exists>e out w. process_step c digest inet_pton p (Work e out) (p\<lparr>p_world := w\<rparr>) \<and> completes e \<and>
    world_inv w \<and> datagram_work (d_main (w_discovery w)) < datagram_work (d_main (w_discovery (p_world p)))"
proof -
  have "main_phase (p_threads p) = Looping" using assms(1,3) by (auto simp: process_inv_def)
  then have served: "may_serve (On_Discovery e) p w" if "event_service (On_Discovery e) = Svc_Qr" for e w
    using that by (simp add: may_serve_def main_thread_services)
  have step: "\<exists>out w. process_step c digest inet_pton p (Work (On_Discovery e) out) (p\<lparr>p_world := w\<rparr>) \<and>
      world_inv w \<and> serve c digest inet_pton (On_Discovery e) (p_world p) = Some (out, w)"
    if "event_service (On_Discovery e) = Svc_Qr" for e
    using whole_server.step_total [OF assms(2), of "On_Discovery e" c digest inet_pton] served [OF that]
    by (metis process_step.work world_possible.simps(2))
  show ?thesis
  proof (cases "d_main (w_discovery (p_world p))")
    case (Qr_Touched packet client)
    obtain out w where w: "process_step c digest inet_pton p
        (Work (On_Discovery (Qr_Prune insertion_order 0)) out) (p\<lparr>p_world := w\<rparr>)" "world_inv w"
      "serve c digest inet_pton (On_Discovery (Qr_Prune insertion_order 0)) (p_world p) = Some (out, w)"
      using step [of "Qr_Prune insertion_order 0"] by auto
    moreover from w(3) have "d_main (w_discovery w) = Qr_Pruned packet client"
      by (auto simp: Qr_Touched)
    ultimately show ?thesis by (intro exI conjI) (assumption | simp add: Qr_Touched)+
  next
    case (Qr_Pruned packet client)
    obtain out w where w: "process_step c digest inet_pton p
        (Work (On_Discovery (Qr_Respond 0)) out) (p\<lparr>p_world := w\<rparr>)" "world_inv w"
      "serve c digest inet_pton (On_Discovery (Qr_Respond 0)) (p_world p) = Some (out, w)"
      using step [of "Qr_Respond 0"] by auto
    moreover from w(3) have "d_main (w_discovery w) = Qr_Idle"
      by (auto simp: Qr_Pruned split: bind_splits)
    ultimately show ?thesis by (intro exI conjI) (assumption | simp add: Qr_Pruned)+
  qed (use assms(3) in simp)
qed

lemma datagram_finishes:
  assumes "process_inv p" and "world_inv (p_world p)"
  shows "\<exists>ls p'. process_run c digest inet_pton p ls p' \<and> p_threads p' = p_threads p \<and>
    process_inv p' \<and> world_inv (p_world p') \<and> d_main (w_discovery (p_world p')) = Qr_Idle \<and>
    list_all completes (world_events ls)"
  using assms
proof (induction "datagram_work (d_main (w_discovery (p_world p)))" arbitrary: p rule: less_induct)
  case less
  show ?case
  proof (cases "d_main (w_discovery (p_world p)) = Qr_Idle")
    case True
    with less.prems show ?thesis
      by (intro exI [of _ "[]"] exI [of _ p]) (simp add: process_run.started)
  next
    case False
    obtain e out w where w: "process_step c digest inet_pton p (Work e out) (p\<lparr>p_world := w\<rparr>)"
      "completes e" "world_inv w"
      "datagram_work (d_main (w_discovery w)) < datagram_work (d_main (w_discovery (p_world p)))"
      using datagram_goes_on [OF less.prems False] by blast
    then obtain ls p' where r: "process_run c digest inet_pton (p\<lparr>p_world := w\<rparr>) ls p'"
      "p_threads p' = p_threads p" "process_inv p'" "world_inv (p_world p')"
      "d_main (w_discovery (p_world p')) = Qr_Idle" "list_all completes (world_events ls)"
      using less.hyps [of "p\<lparr>p_world := w\<rparr>"] process_inv_step [OF w(1) less.prems(1)] by auto
    with w(2) show ?thesis
      by (intro exI [of _ "Work e out # ls"] exI [of _ p']) (auto intro: process_run.goes_on [OF w(1)])
  qed
qed

subsection \<open>The threads\<close>

lemma server_run_append: "server_run st ls st' \<Longrightarrow> server_run st' ls' st'' \<Longrightarrow> server_run st (ls @ ls') st''"
  by (induction rule: server_run.induct) (auto intro: server_run.step)

lemma arrivals:
  "server_run st (replicate n (Arrive s)) (st\<lparr>backlog := (backlog st)(s := backlog st s + n)\<rparr>)"
proof (induction n arbitrary: st)
  case 0
  then show ?case by (simp add: server_run.nil)
next
  case (Suc n)
  show ?case
    using server_run.step [OF server_step.arrive [of st s] Suc.IH]
    by (simp only: replicate_Suc) (simp add: fun_upd_def if_distrib cong: if_cong)
qed

lemma everybody_knocks:
  "\<exists>ls more. server_run st ls (st\<lparr>backlog := more\<rparr>) \<and> (\<forall>s. backlog st s \<le> more s) \<and>
     (\<forall>s \<in> set services. blocked st s \<le> more s)"
proof (induction services)
  case Nil
  have "server_run st [] (st\<lparr>backlog := backlog st\<rparr>)" by (simp add: server_run.nil)
  then show ?case by fastforce
next
  case (Cons s services)
  then obtain ls more where m: "server_run st ls (st\<lparr>backlog := more\<rparr>)" "\<forall>s. backlog st s \<le> more s"
    "\<forall>s \<in> set services. blocked st s \<le> more s" by blast
  have "server_run st (ls @ replicate (blocked st s) (Arrive s)) (st\<lparr>backlog := more(s := more s + blocked st s)\<rparr>)"
    using server_run_append [OF m(1) arrivals [of "st\<lparr>backlog := more\<rparr>" "blocked st s" s]] by simp
  moreover have "\<forall>t. backlog st t \<le> (more(s := more s + blocked st s)) t"
    using m(2) by (simp add: trans_le_add1)
  moreover have "\<forall>t \<in> set (s # services). blocked st t \<le> (more(s := more s + blocked st s)) t"
    using m(3) by auto
  ultimately show ?case by blast
qed

lemma joining_can_stop:
  assumes "main_phase st = Joining"
  shows "\<exists>ls st'. server_run st ls st' \<and> main_phase st' = Stopped"
proof -
  obtain ls more where m: "server_run st ls (st\<lparr>backlog := more\<rparr>)" "\<forall>s. blocked st s \<le> more s"
    using everybody_knocks [of st enum_class.enum] by (auto simp: UNIV_enum [symmetric])
  obtain ls' st' where "server_run (st\<lparr>backlog := more\<rparr>) ls' st'" "main_phase st' = Stopped"
    using stop_when_served [of "st\<lparr>backlog := more\<rparr>"] m(2) assms by auto
  with m(1) show ?thesis using server_run_append by blast
qed

lemma threads_can_stop:
  assumes "main_phase st \<noteq> Looping \<longrightarrow> \<not> keep_running st"
  shows "\<exists>ls st'. server_run st ls st' \<and> main_phase st' = Stopped"
proof (cases "main_phase st")
  case Looping
  have quiet: "\<exists>ls st'. server_run t ls st' \<and> main_phase st' = Stopped"
    if "main_phase t = Looping" "\<not> keep_running t" for t
    using server_run.step [OF server_step.leave [OF that]] joining_can_stop [of "t\<lparr>main_phase := Joining\<rparr>"]
    by fastforce
  show ?thesis
  proof (cases "keep_running st")
    case True
    have "\<exists>ls st'. server_run (stop_server st) ls st' \<and> main_phase st' = Stopped"
      by (rule quiet) (simp_all add: Looping)
    then show ?thesis using server_run.step [OF server_step.signal [OF True]] by blast
  qed (rule quiet [OF Looping])
next
  case Joining
  then show ?thesis by (rule joining_can_stop)
next
  case Stopped
  then show ?thesis using server_run.nil by blast
qed

subsection \<open>Property\<close>



end
