(* ===== verification/Spec2Isabelle.thy ===== *)
theory Spec2Isabelle
  imports Base64 Rc4 World_Laws Server_Console Profile_Writes Presence Nas_Races Process_Stop
begin

text \<open>
  KiWii, a self-hosted Mario Kart Wii online service: a verification development.

  \<^bold>\<open>The program.\<close> One process (\<^verbatim>\<open>src/main.cpp\<close>, \<^verbatim>\<open>src/server.cpp\<close>) listens on eleven sockets. The
  console first asks the DNS responder for the address of the server, logs in at the NAS server over
  HTTP, presents the token it got there to the profile server, announces its session to the QR socket,
  looks for the sessions of its friends at the player search, and meets another console through NATNEG.
  The browser, gamestats and relay sockets answer what the console needs to go on. Everything is kept in
  memory. Datagrams are handled by the main thread, every connection by a thread of its own.

  \<^bold>\<open>Foundations.\<close> \<open>KiWii_Prelude\<close>: bytes, checked reads and writes of a packet (\<open>rd\<close>, \<open>wr\<close>,
  \<open>iter_range\<close>; an access outside is \<^const>\<open>None\<close>), byte order. \<open>Cpp_String\<close>, \<open>Cpp_Number\<close>,
  \<open>Cpp_Stream\<close>, \<open>Cpp_Containers\<close>: what the code uses of the C++ library, with its exceptions and its
  end-of-string results; an unordered map is walked in an arbitrary order, the parameter \<open>layout\<close>; the
  locales \<open>assoc_container\<close> and \<open>ordered_container\<close> are the contract of the maps. \<open>Random_Text\<close>: a
  generator is an arbitrary sequence of draws. \<open>Civil_Time\<close>: \<^verbatim>\<open>gmtime_r\<close> and \<^verbatim>\<open>strftime\<close>.
  \<open>Net_Address\<close>: socket addresses and \<^verbatim>\<open>recvfrom\<close>. \<open>Sockets\<close>: \<^verbatim>\<open>send_all\<close>, the options and the opening
  of sockets (\<^verbatim>\<open>server_sockets.cpp\<close>) over a kernel that answers from a script, keeps a table of what each
  socket is, the signals that have a handler, and records the console. \<open>Machine\<close>: runs of a function that maps an event and a state to an
  output and a state or fails, with the locales \<open>total_machine\<close> (an invariant under which no event fails),
  \<open>lasting_fact\<close> (a fact that the other events leave alone), \<open>guarded_fact\<close> (the same when what is
  allowed depends on the state) and \<open>component\<close> (a part of a machine that runs as it runs alone). \<open>Message_Stream\<close>: the receive loop that
  three connections share, and the locale \<open>message_handler\<close>, which reduces a connection to the list of
  its messages, whatever the chunks; it is interpreted for the profile server, the player search and
  gamestats.

  \<^bold>\<open>Packets and texts\<close>, one theory for each file: \<open>Dns\<close> (\<^verbatim>\<open>gamespy_dns.cpp\<close>), \<open>Base64\<close> and \<open>Rc4\<close>
  (the encoders of \<^verbatim>\<open>nas_http.cpp\<close> and \<^verbatim>\<open>gamespy_qr.cpp\<close> and the cipher of the latter), \<open>Qr\<close>
  (\<^verbatim>\<open>gamespy_qr.cpp\<close>), \<open>Natneg\<close> (\<^verbatim>\<open>gamespy_natneg.cpp\<close>), \<open>Browser\<close> (\<^verbatim>\<open>gamespy_browser.cpp\<close>),
  \<open>Profile\<close> (\<^verbatim>\<open>gamespy_profile.cpp\<close>), \<open>Nas_Request\<close> and \<open>Nas_Http\<close> (the readers and the builders of
  \<^verbatim>\<open>nas_http.cpp\<close>). Every function keeps its name. Each theory shows that no input makes a reader leave
  its packet, and gives each function its value in closed form.

  \<^bold>\<open>State.\<close> \<open>Sessions\<close> (\<^verbatim>\<open>gamespy_sessions.cpp\<close>): the registry of online sessions, its abstraction \<open>live\<close>,
  and its contract, the locale \<open>session_registry\<close>. \<open>Nas_State\<close> and \<open>Nas_Laws\<close>: the tables of
  \<^verbatim>\<open>nas_http.cpp\<close>, the locale \<open>id_allocator\<close> for its two counters, the invariant \<open>nas_inv\<close> and runs of
  requests. \<open>Config\<close> (\<^verbatim>\<open>config.cpp\<close>): the configuration and its errors.

  \<^bold>\<open>Handlers.\<close> \<open>Server_Dns\<close>, \<open>Server_Qr\<close>, \<open>Player_Search\<close>, \<open>Server_Relay\<close> (\<^verbatim>\<open>server_discovery.cpp\<close>),
  \<open>Server_Game\<close> (\<^verbatim>\<open>server_game.cpp\<close>: NATNEG and browser), \<open>Server_Nas\<close> (\<^verbatim>\<open>server_nas.cpp\<close>),
  \<open>Server_Profile\<close> and \<open>Profile_Laws\<close> (\<^verbatim>\<open>server_profile.cpp\<close>), \<open>Server_Gamestats\<close>
  (\<^verbatim>\<open>server_gamestats.cpp\<close>), \<open>Server_Main\<close> (\<^verbatim>\<open>server.cpp\<close>, \<^verbatim>\<open>main.cpp\<close>: the start, the signals, the
  main loop), \<open>Server_Accept\<close> (how the handlers begin: \<^verbatim>\<open>accept\<close> and the options of the socket). A handler of a datagram maps
  the datagram and the state to the datagrams sent and the new state; a handler of a connection maps the
  chunks that \<^verbatim>\<open>recv\<close> delivers to the texts handed to \<^verbatim>\<open>send_all\<close>. The outer \<^const>\<open>None\<close> is an access
  outside a vector or an exception nobody catches; it is proved not to happen. \<open>Server_Console\<close>: the lines
  the datagram handlers write to the console.

  \<^bold>\<open>Interleavings.\<close> An access under a mutex is one step, and the accesses of different threads come in any
  order. \<open>Nas_Threads\<close> cuts a NAS request at its critical sections (\<open>nas_section\<close>), and
  \<open>Discovery_Threads\<close> a QR packet and a search at their accesses to the registry (\<open>discovery_serve\<close>); that the
  sections in a row are the handlers above is proved in both. \<open>Natneg_Runs\<close> and \<open>Profile_Threads\<close> make
  machines of the NATNEG handler and of the profile connections, message by message. \<open>Server_World\<close> puts all
  components over one state: an event of \<open>serve\<close> is what one thread does without another coming in between;
  \<open>World_Laws\<close> shows that the components run in it as they run alone, and has the properties that need
  several of them. \<open>Presence\<close> follows the table of active profiles through its runs: who is told what.
  \<open>Profile_Writes\<close> goes below the message, to the calls of \<^verbatim>\<open>send\<close> of several threads on
  one socket, and \<open>Nas_Races\<close> below a section of a login, to the load and the store of the generator.
  \<open>Server_Main\<close> (\<open>server_step\<close>) interleaves the main loop, the threads, the connections
  waiting in the kernel and the signal. \<open>Server_Process\<close> (\<open>process_step\<close>) runs both together: the threads of
  \<open>server_step\<close> and the tables of \<open>serve\<close>, where an event needs a thread that has accepted somebody and a thread
  ends after its connection; a run of the process is a run of each. \<open>Process_Stop\<close> shows that the process can be
  stopped from every state, by a measure of what its connections have left to do. \<open>Discovery\<close> (\<open>discovery_step\<close>) and \<open>Profile_Laws\<close>
  (\<open>profile_step\<close>) are coarser relations, where a whole packet or NAS request is a step; the machines'
  invariants rest on the latter.

  \<^bold>\<open>What is shown.\<close> The whole server never fails, on any input and under any interleaving of its threads;
  an announced session is found by every search until it expires, and a NAS login opens the profile server
  at any later time, whatever comes in between; two NATNEG clients are introduced across other traffic;
  the QR handshake as a run of the handler; invariants of the tables (unique ids, consistent maps, authentic
  credentials) over all runs; that a request in its critical sections, a chain of tests, and the handler
  over a stream cut anywhere are equivalent to the simpler definition each stands for; that a notification
  reaches the profile it is for; that the process can be stopped from every state and leaves nothing half done; that the sockets are
  set up as configured, and descriptors and TLS objects are released on every path; and, where the code
  does something it hardly means to do, the theorem that says so.

  \<^bold>\<open>Bounds.\<close> Packets, ports, session ids, counters and sizes are words of the width the code gives them.
  The uniqueness of ids assumes fewer than 2^63 requests or sections, so that the counters do not wrap; dates assume
  a clock before the year 10000; a buffer holds 2048 bytes of a QR or NATNEG datagram, 512 of a DNS
  query, and a NAS request is at most 9216 bytes. No fuel is used: every loop is a recursion with a measure,
  and \<open>send_all\<close>, which can wait for ever, consumes the script of the kernel.

  \<^bold>\<open>Not modelled.\<close> OpenSSL, MD5, \<^verbatim>\<open>inet_pton\<close> and the texts of the exceptions of \<^verbatim>\<open>std::stoul\<close> are
  parameters. Time does not pass in a \<^verbatim>\<open>recv\<close>: that a receive timeout has run out is an end of the stream.
  A thread that cannot be created, and a signal that comes before its handler is set; the races on the
  generators of the profile and gamestats threads, which are that of the NAS threads again. Who opens a
  connection is not followed through the thread model: the process counts the connections and threads of a service and
  does not pair them. The tests, the container files and the documentation are no part of the program.
\<close>

section \<open>Properties that span components\<close>

subsection \<open>From the QR socket to the player search\<close>

text \<open>
  What the QR socket registers, the player search finds: after the heartbeat of a new session, a
  search that names its profile and comes less than 61 seconds later lists the session.
\<close>

theorem heartbeat_makes_findable:
  assumes "qr_inv st" and "secret_key \<noteq> []" and "length heartbeat \<le> 2048"
    and "is_mariokartwii_heartbeat heartbeat = Some True"
    and "qr_field_value heartbeat ''statechanged'' \<noteq> Some ''2''"
    and "k = packet_session heartbeat" and "um_find (qr_challenges st) k = None"
    and "0 \<le> fd" and "concat chunks = search_request before ids rest"
    and "messages_of (search_request before ids rest) = [search_request before ids rest]"
    and "ids \<noteq> []" and "\<forall>p \<in> set ids. p \<noteq> [] \<and> CHR ''|'' \<notin> set p \<and> backslash \<notin> set p"
    and "find_sub (slashed ''opids'') (before @ slashed ''opids'') = Some (length before)"
    and "os_profile_id (described_session heartbeat k client) \<in> set ids"
    and "search_clock c (search_reads c) - seconds 61 < insert_time clock"
  shows "\<exists>out st' c' sessions.
    handle_qr_packet lay secret_key clock (Some (heartbeat, client)) st = Some (out, st') \<and>
    handle_player_search_connection lay' lay'' fd chunks (c\<lparr>search_sessions := qr_sessions st'\<rparr>) = Some c' \<and>
    search_sent c' = search_sent c @ [render_sessions sessions] \<and>
    described_session heartbeat k client \<in> set sessions"
proof -
  obtain out st' where h: "handle_qr_packet lay secret_key clock (Some (heartbeat, client)) st = Some (out, st')"
    and l: "live (qr_sessions st') k = Some (described_session heartbeat k client, insert_time clock)"
    using handshake_runs [OF assms(1-7), of lay clock client] by metis
  have "sessions_inv (qr_sessions st')"
    using qr_packet_steps [OF assms(1), of lay secret_key clock "Some (heartbeat, client)"] h
    by (auto simp: qr_inv_def)
  then have "search_inv (c\<lparr>search_sessions := qr_sessions st'\<rparr>)" by (simp add: search_inv_def)
  from search_connection_answers [OF this assms(8-13), of lay' lay''] h l assms(14,15)
  show ?thesis by fastforce
qed

theorem heartbeat_makes_findable_witness:
  "\<exists>out st' c' sessions.
    handle_qr_packet insertion_order ''9r3Rmy'' sample_clock (Some (sample_heartbeat ''1'', sample_client))
      sample_qr = Some (out, st') \<and>
    handle_player_search_connection insertion_order insertion_order 4 [slashed ''opids'' @ ''7'' @ slashed ''final'']
      \<lparr>search_sessions = qr_sessions st', search_clock = (\<lambda>n. 9), search_reads = 0, search_sent = []\<rparr> = Some c' \<and>
    search_sent c' = [render_sessions sessions] \<and>
    described_session (sample_heartbeat ''1'') 7 sample_client \<in> set sessions"
proof -
  let ?c = "\<lparr>search_sessions = no_sessions, search_clock = (\<lambda>n. 9), search_reads = 0, search_sent = []\<rparr>"
  have r: "search_request [] [''7''] (''final'' @ [backslash]) = slashed ''opids'' @ ''7'' @ slashed ''final''"
    by (simp add: search_request_def slashed_def)
  have m: "messages_of (search_request [] [''7''] (''final'' @ [backslash])) =
      [search_request [] [''7''] (''final'' @ [backslash])]"
    by code_simp
  have f: "find_sub (slashed ''opids'') ([] @ slashed ''opids'') = Some (length ([]::string))"
    by (simp add: find_sub_0_iff)
  have n: "um_find (qr_challenges sample_qr) 7 = None" by (simp add: sample_qr_def um_find_def)
  have p: "os_profile_id (described_session (sample_heartbeat ''1'') 7 sample_client) \<in> set [''7'']"
    by code_simp
  show ?thesis
    using heartbeat_makes_findable [OF sample_qr_inv _ _ _ _ _ n _ _ m _ _ f p, of "''9r3Rmy''" 4
        "[slashed ''opids'' @ ''7'' @ slashed ''final'']" ?c sample_clock insertion_order
        insertion_order insertion_order]
    unfolding r by (simp add: sample_heartbeat_ok sample_heartbeat_state sample_heartbeat_session
        seconds_def sample_clock_def)
qed

subsection \<open>From the NAS server to the profile server\<close>

text \<open>
  A login to the NAS server opens the profile server: the profile connection that presents the
  token of the login response gets the credentials of the user who logged in, with the profile id the
  NAS server keeps for this user, provided that no other user holds the very same token.
\<close>

theorem nas_login_opens_profile:
  assumes "nas_inv st" and "next_profile_id st \<noteq> - 1" and "now < 253402300800"
    and "\<not> is_account_create request" and "\<not> is_sake_post request" and "\<not> is_not_login request"
    and "request_user_id request = Some user"
  shows "\<exists>r st' challenge token. nas_response_for_request now request st = Some (r, st') \<and>
    sublist (''&challenge='' @ nas_base64_encode challenge @ ''&token='' @ nas_base64_encode token @
      ''&datetime='') r \<and> backslash \<notin> set token \<and>
    ((\<forall>v s. um_find (login_sessions st) v = Some s \<longrightarrow> ls_token s = token \<longrightarrow> v = user) \<longrightarrow>
     (\<forall>message c w. is_profile_login message = Some True \<longrightarrow>
        field_after (slashed ''authtoken'') backslash message = token \<longrightarrow>
        (\<exists>cw'. handle_profile_message (\<lambda>s. Some (digest s)) lay message (c, w\<lparr>pw_nas := st'\<rparr>) = Some cw' \<and>
           lc_user_id (credentials (fst cw')) = user \<and>
           lc_challenge (credentials (fst cw')) = challenge \<and>
           um_find (user_profile_ids st') user = Some (lc_profile_id (credentials (fst cw'))))))"
proof -
  obtain r st' challenge token where r: "nas_response_for_request now request st = Some (r, st')"
    "sublist (''&challenge='' @ nas_base64_encode challenge @ ''&token='' @ nas_base64_encode token @
      ''&datetime='') r" "backslash \<notin> set token"
    and c: "(\<forall>v s. um_find (login_sessions st) v = Some s \<longrightarrow> ls_token s = token \<longrightarrow> v = user) \<longrightarrow>
       credentials_for_token lay token st' =
         \<lparr>lc_challenge = challenge, lc_token = token, lc_user_id = user,
          lc_profile_id = the (um_find (user_profile_ids st') user)\<rparr> \<and>
       um_find (user_profile_ids st') user \<noteq> None"
    using login_redeemed [OF assms, of lay] by blast
  show ?thesis
  proof (intro exI conjI, rule r(1), rule r(2), rule r(3), intro impI allI)
    fix message c w
    assume u: "\<forall>v s. um_find (login_sessions st) v = Some s \<longrightarrow> ls_token s = token \<longrightarrow> v = user"
      and m: "is_profile_login message = Some True"
        "field_after (slashed ''authtoken'') backslash message = token"
    obtain cw' where "handle_profile_message (\<lambda>s. Some (digest s)) lay message (c, w\<lparr>pw_nas := st'\<rparr>) = Some cw'"
      "credentials (fst cw') = credentials_for_token lay token st'"
      using login_message_credentials [OF m(1), of digest lay c "w\<lparr>pw_nas := st'\<rparr>"] m(2) by auto
    then show "\<exists>cw'. handle_profile_message (\<lambda>s. Some (digest s)) lay message (c, w\<lparr>pw_nas := st'\<rparr>) = Some cw' \<and>
       lc_user_id (credentials (fst cw')) = user \<and> lc_challenge (credentials (fst cw')) = challenge \<and>
       um_find (user_profile_ids st') user = Some (lc_profile_id (credentials (fst cw')))"
      using c u by auto
  qed
qed

definition sample_conn :: profile_conn where
  "sample_conn = \<lparr>client_socket = 5, credentials = default_credentials, firstname = [], lastname = [],
     status = [], statstring = [], locstring = [], server_challenge = ''ABCDEFGHIJ'', request_buffer = []\<rparr>"

definition sample_world :: "nas_state \<Rightarrow> profile_world" where
  "sample_world st = \<lparr>pw_nas = st, active_profiles = [], pending_requests = [],
     pw_generator = sample_generator, pw_clock = (\<lambda>_. 0), pw_clock_reads = 0, pw_wire = []\<rparr>"

theorem nas_login_opens_profile_witness:
  "\<exists>r st' token cw'. nas_response_for_request 0 sample_login (nas_start sample_generator) = Some (r, st') \<and>
     handle_profile_message (\<lambda>s. Some [word_of_nat (length s)]) reverse_order
       (render [''login'', [], ''authtoken'', token, ''final'']) (sample_conn, sample_world st') = Some cw' \<and>
     lc_user_id (credentials (fst cw')) = ''MTAx''"
proof -
  have n: "\<forall>v s. um_find (login_sessions (nas_start sample_generator)) v = Some s \<longrightarrow> ls_token s = token \<longrightarrow> v = u" for token u
    by (simp add: nas_start_def um_find_def)
  have p: "next_profile_id (nas_start sample_generator) \<noteq> - 1" by (simp add: nas_start_def)
  obtain r st' token where r: "nas_response_for_request 0 sample_login (nas_start sample_generator) = Some (r, st')"
    "backslash \<notin> set token"
    and m: "\<And>message c w. is_profile_login message = Some True \<Longrightarrow>
      field_after (slashed ''authtoken'') backslash message = token \<Longrightarrow>
      \<exists>cw'. handle_profile_message (\<lambda>s. Some [word_of_nat (length s)]) reverse_order message
         (c, w\<lparr>pw_nas := st'\<rparr>) = Some cw' \<and> lc_user_id (credentials (fst cw')) = ''MTAx''"
    using nas_login_opens_profile [OF nas_inv_start p _ _ _ _ sample_user, of 0
        "\<lambda>s. [word_of_nat (length s)]" reverse_order] sample_requests n
    by (simp del: profile_tests) blast
  let ?m = "render [''login'', [], ''authtoken'', token, ''final'']"
  have "field_after (slashed ''authtoken'') backslash ?m = token"
    using r(2) by (subst find_slashed_render) simp_all
  moreover have "is_profile_login ?m = Some True"
    by (simp add: slashed_def final_mark_def suffix_def)
  moreover have "sample_world st' = (sample_world st')\<lparr>pw_nas := st'\<rparr>" by (simp add: sample_world_def)
  ultimately show ?thesis using m [of ?m sample_conn "sample_world st'"] r(1) by auto
qed

end
